(* ===== verification/X402_Prelude.thy ===== *)
theory X402_Prelude
  imports Main "HOL-Library.Word" "HOL-Library.AList"
begin

text \<open>
  Shared ground of the development: what the components use of the Go language and of its
  standard library that is not worth a theory of its own.

  \<^item> Go strings and byte slices are both \<open>string\<close>: a \<open>char\<close> is one byte, so \<open>length\<close> counts
    bytes, as Go's \<open>len\<close> does.
  \<^item> A Go map is an association list with distinct keys (\<open>gomap\<close>). The order of the list stands
    for the order in which \<open>range\<close> happens to visit the entries, which Go leaves open.
  \<^item> An \<open>int64\<close> and a \<open>uint64\<close> are \<open>64 word\<close>s, read with \<open>sint\<close> and \<open>uint\<close>.
  \<^item> A \<open>time.Time\<close> is an \<open>int\<close>, nanoseconds since Go's zero time; a \<open>time.Duration\<close> is the
    nanosecond count, kept in the range of an int64 by the saturating \<open>dur_sub\<close>.

  The locale \<open>go_map\<close> is the interface the tables of the program (settlements, rate-limit
  buckets) rely on; it is interpreted on the association lists at the end of the theory.
\<close>

named_theorems fac_defs \<open>definitions of the facilitator's checks, unfolded together\<close>
named_theorems cli_defs \<open>definitions of the buyer's checks, unfolded together\<close>

subsection \<open>Types\<close>

type_synonym bytes = string
type_synonym i64 = "64 word"
type_synonym u64 = "64 word"
type_synonym instant = int
type_synonym duration = int
type_synonym ('k, 'v) gomap = "('k \<times> 'v) list"

subsection \<open>Time\<close>

definition nanosecond :: duration where "nanosecond = 1"
definition millisecond :: duration where "millisecond = 1000000"
definition second :: duration where "second = 1000000000"
definition minute :: duration where "minute = 60 * second"

definition zero_time :: instant where "zero_time = 0"

text \<open>\<open>t.Sub(u)\<close> saturates at the ends of the int64 range.\<close>

definition dur_sub :: "instant \<Rightarrow> instant \<Rightarrow> duration" where
  "dur_sub t u = max (- (2 ^ 63)) (min (2 ^ 63 - 1) (t - u))"

lemma dur_sub_self [simp]: "dur_sub t t = 0"
  by (simp add: dur_sub_def)

lemma dur_sub_mono: "t \<le> t' \<Longrightarrow> dur_sub t u \<le> dur_sub t' u"
  by (simp add: dur_sub_def min_def max_def)

lemma dur_sub_le_iff: "- (2 ^ 63) \<le> d \<Longrightarrow> d < 2 ^ 63 - 1 \<Longrightarrow> dur_sub t u \<le> d \<longleftrightarrow> t - u \<le> d"
  by (auto simp: dur_sub_def min_def max_def)

lemma dur_sub_nonneg_iff: "0 \<le> dur_sub t u \<longleftrightarrow> u \<le> t"
  by (auto simp: dur_sub_def min_def max_def)

lemmas time_simps = nanosecond_def millisecond_def second_def minute_def zero_time_def

subsection \<open>Strings\<close>

text \<open>\<open>strings.Cut\<close> at a one-byte separator, and \<open>strings.HasPrefix\<close>, \<open>strings.CutPrefix\<close>.\<close>

definition go_cut :: "char \<Rightarrow> string \<Rightarrow> string \<times> string \<times> bool" where
  "go_cut c s = (if c \<in> set s
     then (takeWhile (\<lambda>x. x \<noteq> c) s, tl (dropWhile (\<lambda>x. x \<noteq> c) s), True)
     else (s, [], False))"

fun go_cut_prefix :: "string \<Rightarrow> string \<Rightarrow> string option" where
  "go_cut_prefix [] s = Some s"
| "go_cut_prefix (p # ps) [] = None"
| "go_cut_prefix (p # ps) (c # cs) = (if p = c then go_cut_prefix ps cs else None)"

lemma go_cut_prefix_append [simp]: "go_cut_prefix p (p @ s) = Some s"
  by (induction p) auto

lemma go_cut_prefix_Some: "go_cut_prefix p s = Some r \<longleftrightarrow> s = p @ r"
  by (induction p s rule: go_cut_prefix.induct) auto

lemma go_cut_fresh: "c \<notin> set p \<Longrightarrow> go_cut c (p @ c # s) = (p, s, True)"
  by (induction p) (auto simp: go_cut_def)

lemma go_cut_parts: "go_cut c s = (a, b, True) \<Longrightarrow> s = a @ c # b \<and> c \<notin> set a"
proof (induction s arbitrary: a)
  case Nil
  then show ?case by (simp add: go_cut_def)
next
  case (Cons x s)
  show ?case
  proof (cases "x = c")
    case True
    with Cons.prems show ?thesis by (auto simp: go_cut_def)
  next
    case False
    with Cons.prems obtain a' where "a = x # a'" "go_cut c s = (a', b, True)"
      by (auto simp: go_cut_def split: if_splits)
    with Cons.IH [of a'] False show ?thesis by auto
  qed
qed

lemma length1_iff: "length xs = 1 \<longleftrightarrow> (\<exists>x. xs = [x])"
  by (auto simp: length_Suc_conv)

text \<open>Character classes of the regular expressions the code matches with.\<close>

definition is_lower :: "char \<Rightarrow> bool" where
  "is_lower c = (c \<in> set ''abcdefghijklmnopqrstuvwxyz'')"

definition is_upper :: "char \<Rightarrow> bool" where
  "is_upper c = (c \<in> set ''ABCDEFGHIJKLMNOPQRSTUVWXYZ'')"

definition is_digit :: "char \<Rightarrow> bool" where
  "is_digit c = (c \<in> set ''0123456789'')"

lemmas char_class_defs = is_lower_def is_upper_def is_digit_def

subsection \<open>Maps\<close>

definition gm_get :: "('k, 'v) gomap \<Rightarrow> 'k \<Rightarrow> 'v option" where
  "gm_get m = map_of m"

definition gm_put :: "'k \<Rightarrow> 'v \<Rightarrow> ('k, 'v) gomap \<Rightarrow> ('k, 'v) gomap" where
  "gm_put k v m = AList.update k v m"

definition gm_del :: "'k \<Rightarrow> ('k, 'v) gomap \<Rightarrow> ('k, 'v) gomap" where
  "gm_del k m = AList.delete k m"

text \<open>A \<open>range\<close> loop that deletes, or does not copy, the entries failing \<open>P\<close>.\<close>

definition gm_keep :: "('k \<Rightarrow> 'v \<Rightarrow> bool) \<Rightarrow> ('k, 'v) gomap \<Rightarrow> ('k, 'v) gomap" where
  "gm_keep P m = filter (\<lambda>(k, v). P k v) m"

definition gm_len :: "('k, 'v) gomap \<Rightarrow> nat" where
  "gm_len m = length m"

definition gm_ok :: "('k, 'v) gomap \<Rightarrow> bool" where
  "gm_ok m = distinct (map fst m)"

lemmas gm_defs = gm_get_def gm_put_def gm_del_def gm_keep_def gm_len_def gm_ok_def

locale go_map =
  fixes get :: "'m \<Rightarrow> 'k \<Rightarrow> 'v option"
    and put :: "'k \<Rightarrow> 'v \<Rightarrow> 'm \<Rightarrow> 'm"
    and del :: "'k \<Rightarrow> 'm \<Rightarrow> 'm"
    and keep :: "('k \<Rightarrow> 'v \<Rightarrow> bool) \<Rightarrow> 'm \<Rightarrow> 'm"
    and len :: "'m \<Rightarrow> nat"
    and wf :: "'m \<Rightarrow> bool"
  assumes get_put: "get (put k v m) = (get m)(k := Some v)"
    and get_del: "wf m \<Longrightarrow> get (del k m) = (get m)(k := None)"
    and get_keep: "wf m \<Longrightarrow>
      get (keep P m) k = (case get m k of None \<Rightarrow> None | Some v \<Rightarrow> if P k v then Some v else None)"
    and finite_dom: "finite (dom (get m))"
    and len_dom: "wf m \<Longrightarrow> len m = card (dom (get m))"
    and wf_put: "wf m \<Longrightarrow> wf (put k v m)"
    and wf_del: "wf m \<Longrightarrow> wf (del k m)"
    and wf_keep: "wf m \<Longrightarrow> wf (keep P m)"
begin

lemma get_keep_Some: "wf m \<Longrightarrow> get (keep P m) k = Some v \<longleftrightarrow> get m k = Some v \<and> P k v"
  by (cases "get m k") (auto simp: get_keep)

lemma len_put_new: "wf m \<Longrightarrow> get m k = None \<Longrightarrow> len (put k v m) = Suc (len m)"
  by (simp add: len_dom wf_put get_put finite_dom domIff)

lemma len_put_old: "wf m \<Longrightarrow> get m k \<noteq> None \<Longrightarrow> len (put k v m) = len m"
  by (simp add: len_dom wf_put get_put insert_absorb domIff)

lemma len_keep_le: "wf m \<Longrightarrow> len (keep P m) \<le> len m"
  by (auto simp: len_dom wf_keep get_keep intro!: card_mono finite_dom split: option.splits if_splits)

end

lemma map_of_gm_keep:
  "distinct (map fst m) \<Longrightarrow> map_of (filter (\<lambda>(k, v). P k v) m) k =
     (case map_of m k of None \<Rightarrow> None | Some v \<Rightarrow> if P k v then Some v else None)"
proof (induction m)
  case Nil
  then show ?case by simp
next
  case (Cons x m)
  obtain a b where x: "x = (a, b)" by (cases x)
  from Cons.prems x have "map_of m a = None"
    by (simp add: map_of_eq_None_iff)
  with Cons x show ?case by (auto split: option.splits)
qed

lemma gm_get_dom: "finite (dom (gm_get m))"
  by (simp add: gm_get_def finite_dom_map_of)

lemma gm_len_card: "gm_ok m \<Longrightarrow> gm_len m = card (dom (gm_get m))"
  unfolding gm_ok_def gm_len_def gm_get_def
  by (simp add: dom_map_of_conv_image_fst distinct_card flip: set_map)

interpretation gmap: go_map gm_get gm_put gm_del gm_keep gm_len gm_ok
proof unfold_locales
  show "gm_get (gm_put k v m) = (gm_get m)(k := Some v)" for k :: 'a and v :: 'b and m
    by (simp add: gm_get_def gm_put_def update_conv')
  show "gm_get (gm_del k m) = (gm_get m)(k := None)" for k :: 'a and m :: "('a, 'b) gomap"
    by (simp add: gm_get_def gm_del_def delete_conv')
  show "gm_get (gm_keep P m) k =
      (case gm_get m k of None \<Rightarrow> None | Some v \<Rightarrow> if P k v then Some v else None)"
    if "gm_ok m" for P :: "'a \<Rightarrow> 'b \<Rightarrow> bool" and m k
    using that unfolding gm_ok_def gm_get_def gm_keep_def by (rule map_of_gm_keep)
  show "gm_ok (gm_put k v m)" if "gm_ok m" for k :: 'a and v :: 'b and m
    using that by (simp add: gm_ok_def gm_put_def distinct_update)
  show "gm_ok (gm_del k m)" if "gm_ok m" for k :: 'a and m :: "('a, 'b) gomap"
    using that by (simp add: gm_ok_def gm_del_def distinct_delete)
  show "gm_ok (gm_keep P m)" if "gm_ok m" for P :: "'a \<Rightarrow> 'b \<Rightarrow> bool" and m
    using that by (simp add: gm_ok_def gm_keep_def distinct_map_filter)
qed (rule gm_get_dom gm_len_card, assumption?)+

lemmas gm_simps = gmap.get_put gmap.get_del gmap.get_keep gmap.wf_put gmap.wf_del gmap.wf_keep

lemma gm_ok_Nil [simp]: "gm_ok []"
  by (simp add: gm_ok_def)

lemma gm_get_Nil [simp]: "gm_get [] k = None"
  by (simp add: gm_get_def)

lemma gm_get_Cons [simp]: "gm_get ((k, v) # m) k' = (if k' = k then Some v else gm_get m k')"
  by (simp add: gm_get_def)

subsection \<open>Call logs\<close>

text \<open>
  A call into the world, over a world that also keeps the log of the calls made: the log is only
  added to.
\<close>

definition logged :: "('w \<Rightarrow> 'a \<times> 'w) \<Rightarrow> ('a \<Rightarrow> 'c) \<Rightarrow> 'w \<times> 'c list \<Rightarrow> 'a \<times> 'w \<times> 'c list" where
  "logged call entry wl = (let (r, w') = call (fst wl) in (r, w', snd wl @ [entry r]))"

lemma logged_call: "logged call entry (w, l) = (fst (call w), snd (call w), l @ [entry (fst (call w))])"
  by (simp add: logged_def split_beta)

end
