(* ===== verification/Go_Encoding.thy ===== *)
theory Go_Encoding
  imports X402_Prelude
begin

text \<open>
  The two byte encodings the program uses from Go's standard library: \<open>base64.StdEncoding\<close>, in
  which a payment carries its transaction, and \<open>encoding/hex\<close>, in which transaction hashes are
  written and the settlement table is keyed.

  \<open>DecodeString\<close> of \<open>base64.StdEncoding\<close> skips line feeds and carriage returns wherever they
  stand, wants complete quanta with their padding, allows nothing after the padding, and does not
  look at the bits the last quantum leaves over.
\<close>

locale codec =
  fixes enc :: "bytes \<Rightarrow> string"
    and dec :: "string \<Rightarrow> bytes option"
  assumes dec_enc: "dec (enc b) = Some b"
begin

lemma enc_inj: "enc a = enc b \<longleftrightarrow> a = b"
  by (metis dec_enc option.inject)

lemma enc_Nil_only: "dec [] = Some [] \<Longrightarrow> enc b = [] \<Longrightarrow> b = []"
  by (metis dec_enc option.inject)

end

subsection \<open>Base64\<close>

definition b64_char :: "nat \<Rightarrow> char" where
  "b64_char n = char_of (if n < 26 then 65 + n else if n < 52 then 71 + n
     else if n < 62 then n - 4 else if n = 62 then 43 else 47)"

definition b64_val :: "char \<Rightarrow> nat option" where
  "b64_val c = (let n = of_char c :: nat in
     if 65 \<le> n \<and> n \<le> 90 then Some (n - 65)
     else if 97 \<le> n \<and> n \<le> 122 then Some (n - 71)
     else if 48 \<le> n \<and> n \<le> 57 then Some (n + 4)
     else if n = 43 then Some 62
     else if n = 47 then Some 63
     else None)"

text \<open>The four six-bit groups of a 24-bit quantum.\<close>

definition sext1 :: "nat \<Rightarrow> nat" where "sext1 v = v div 262144"
definition sext2 :: "nat \<Rightarrow> nat" where "sext2 v = v div 4096 mod 64"
definition sext3 :: "nat \<Rightarrow> nat" where "sext3 v = v div 64 mod 64"
definition sext4 :: "nat \<Rightarrow> nat" where "sext4 v = v mod 64"

definition quantum :: "char \<Rightarrow> char \<Rightarrow> char \<Rightarrow> nat" where
  "quantum a b c = of_char a * 65536 + of_char b * 256 + of_char c"

fun b64_encode :: "bytes \<Rightarrow> string" where
  "b64_encode [] = []"
| "b64_encode [a] =
     (let v = quantum a (char_of (0::nat)) (char_of (0::nat)) in
      [b64_char (sext1 v), b64_char (sext2 v), CHR ''='', CHR ''=''])"
| "b64_encode [a, b] =
     (let v = quantum a b (char_of (0::nat)) in
      [b64_char (sext1 v), b64_char (sext2 v), b64_char (sext3 v), CHR ''=''])"
| "b64_encode (a # b # c # r) =
     (let v = quantum a b c in
      b64_char (sext1 v) # b64_char (sext2 v) # b64_char (sext3 v) # b64_char (sext4 v) # b64_encode r)"

definition b64_bytes :: "nat \<Rightarrow> bytes" where
  "b64_bytes v = [char_of (v div 65536), char_of (v div 256), char_of v]"

fun b64_quanta :: "string \<Rightarrow> bytes option" where
  "b64_quanta [] = Some []"
| "b64_quanta (a # b # c # d # r) =
     (case (b64_val a, b64_val b) of
        (Some p, Some q) \<Rightarrow>
          if c = CHR ''='' then
            (if d = CHR ''='' \<and> r = [] then Some (take 1 (b64_bytes (p * 262144 + q * 4096))) else None)
          else (case b64_val c of
            None \<Rightarrow> None
          | Some s \<Rightarrow>
              if d = CHR ''='' then
                (if r = [] then Some (take 2 (b64_bytes (p * 262144 + q * 4096 + s * 64))) else None)
              else (case (b64_val d, b64_quanta r) of
                (Some t, Some bs) \<Rightarrow> Some (b64_bytes (p * 262144 + q * 4096 + s * 64 + t) @ bs)
              | _ \<Rightarrow> None))
      | _ \<Rightarrow> None)"
| "b64_quanta _ = None"

definition b64_decode :: "string \<Rightarrow> bytes option" where
  "b64_decode s = b64_quanta (filter (\<lambda>c. c \<noteq> CHR 0x0A \<and> c \<noteq> CHR 0x0D) s)"

lemma b64_val_char: "n < 64 \<Longrightarrow> b64_val (b64_char n) = Some n"
  by (auto simp: b64_val_def b64_char_def Let_def)

lemma b64_val_special: "b64_val (CHR ''='') = None" "b64_val (CHR 0x0A) = None" "b64_val (CHR 0x0D) = None"
  by (simp_all add: b64_val_def)

lemma b64_char_props:
  assumes "n < 64"
  shows "b64_val (b64_char n) = Some n" "b64_char n \<noteq> CHR ''=''"
    "b64_char n \<noteq> CHR 0x0A" "b64_char n \<noteq> CHR 0x0D"
  using b64_val_char [OF assms] b64_val_special by (force, metis option.distinct(1))+

lemma of_char_less [simp]: "(of_char c :: nat) < 256"
  by (metis of_char_mod_256 mod_less_divisor zero_less_numeral)

lemma b64_bytes_quantum: "b64_bytes (quantum a b c) = [a, b, c]"
proof -
  let ?a = "of_char a :: nat" and ?b = "of_char b :: nat" and ?c = "of_char c :: nat"
  have lt: "?a < 256" "?b < 256" "?c < 256" by simp_all
  have "quantum a b c div 65536 = ?a" using lt unfolding quantum_def by linarith
  moreover have "quantum a b c div 256 = ?a * 256 + ?b" using lt unfolding quantum_def by linarith
  moreover have "(?a * 256 + ?b) mod 256 = ?b" using lt by simp
  moreover have "quantum a b c = (?a * 256 + ?b) * 256 + ?c" by (simp add: quantum_def)
  then have "quantum a b c mod 256 = ?c" using lt by (simp only: mod_mult_self3 mod_less)
  ultimately show ?thesis
    unfolding b64_bytes_def
    using char_of_mod_256 [of "?a * 256 + ?b"] char_of_mod_256 [of "quantum a b c"]
    by (metis char_of_char)
qed

lemma sextets:
  assumes "v < 16777216"
  shows "sext1 v * 262144 + sext2 v * 4096 + sext3 v * 64 + sext4 v = v" (is ?sum)
    and "sext1 v < 64" "sext2 v < 64" "sext3 v < 64" "sext4 v < 64"
proof -
  define x y where "x = v div 64" and "y = x div 64"
  have "sext1 v = y div 64" "sext2 v = y mod 64" "sext3 v = x mod 64"
    by (simp_all add: x_def y_def sext1_def sext2_def sext3_def div_mult2_eq [symmetric])
  moreover have "v = x * 64 + sext4 v" "x = y * 64 + x mod 64" "y = y div 64 * 64 + y mod 64"
    by (simp_all add: x_def y_def sext4_def)
  ultimately show ?sum by linarith
  show "sext1 v < 64" using assms unfolding sext1_def by linarith
  show "sext2 v < 64" "sext3 v < 64" "sext4 v < 64"
    by (simp_all add: sext2_def sext3_def sext4_def)
qed

lemma quantum_less: "quantum a b c < 16777216"
  using of_char_less [of a] of_char_less [of b] of_char_less [of c] unfolding quantum_def by linarith

lemmas quantum_sextets = sextets [OF quantum_less]
lemmas quantum_chars = quantum_sextets(2-5) [THEN b64_char_props(1)]
  quantum_sextets(2-5) [THEN b64_char_props(2)] quantum_sextets(2-5) [THEN b64_char_props(3)]
  quantum_sextets(2-5) [THEN b64_char_props(4)]

lemma quantum_padding:
  "sext4 (quantum a b (char_of (0::nat))) = 0"
  "sext3 (quantum a (char_of (0::nat)) (char_of (0::nat))) = 0"
proof -
  have "quantum a b (char_of (0::nat)) = (of_char a * 1024 + of_char b * 4) * 64"
    by (simp add: quantum_def)
  then show "sext4 (quantum a b (char_of (0::nat))) = 0" unfolding sext4_def by simp
  have "quantum a (char_of (0::nat)) (char_of (0::nat)) = (of_char a * 16) * 64 * 64"
    by (simp add: quantum_def)
  then show "sext3 (quantum a (char_of (0::nat)) (char_of (0::nat))) = 0" unfolding sext3_def by simp
qed

lemma b64_quanta_encode: "b64_quanta (b64_encode bs) = Some bs"
proof (induction bs rule: b64_encode.induct)
  case (2 a)
  let ?z = "char_of (0::nat) :: char"
  have "sext1 (quantum a ?z ?z) * 262144 + sext2 (quantum a ?z ?z) * 4096 = quantum a ?z ?z"
    using quantum_sextets(1) [of a ?z ?z] quantum_padding(2) [of a] quantum_padding(1) [of a "char_of (0::nat)"] by simp
  then show ?case
    by (simp add: quantum_chars b64_bytes_quantum Let_def)
next
  case (3 a b)
  let ?z = "char_of (0::nat) :: char"
  have "sext1 (quantum a b ?z) * 262144 + sext2 (quantum a b ?z) * 4096 + sext3 (quantum a b ?z) * 64
      = quantum a b ?z"
    using quantum_sextets(1) [of a b ?z] quantum_padding(1) [of a b] by simp
  then show ?case
    by (simp add: quantum_chars b64_bytes_quantum Let_def)
next
  case (4 a b c r)
  with quantum_sextets(1) [of a b c] show ?case
    by (simp add: quantum_chars b64_bytes_quantum Let_def)
qed simp

lemma b64_encode_no_newline:
  "c \<in> set (b64_encode bs) \<Longrightarrow> c \<noteq> CHR 0x0A \<and> c \<noteq> CHR 0x0D"
  by (induction bs rule: b64_encode.induct) (auto simp: Let_def quantum_chars)

lemma b64_roundtrip: "b64_decode (b64_encode bs) = Some bs"
proof -
  have "filter (\<lambda>c. c \<noteq> CHR 0x0A \<and> c \<noteq> CHR 0x0D) (b64_encode bs) = b64_encode bs"
    using b64_encode_no_newline by (auto simp: filter_id_conv)
  then show ?thesis by (simp add: b64_decode_def b64_quanta_encode)
qed

lemma b64_decode_Nil [simp]: "b64_decode [] = Some []"
  by (simp add: b64_decode_def)

interpretation b64: codec b64_encode b64_decode
  by unfold_locales (rule b64_roundtrip)

subsection \<open>Hexadecimal\<close>

definition hex_digit :: "nat \<Rightarrow> char" where
  "hex_digit n = char_of (if n < 10 then 48 + n else 87 + n)"

definition hex_val :: "char \<Rightarrow> nat option" where
  "hex_val c = (let n = of_char c :: nat in
     if 48 \<le> n \<and> n \<le> 57 then Some (n - 48)
     else if 97 \<le> n \<and> n \<le> 102 then Some (n - 87)
     else if 65 \<le> n \<and> n \<le> 70 then Some (n - 55)
     else None)"

fun hex_encode :: "bytes \<Rightarrow> string" where
  "hex_encode [] = []"
| "hex_encode (b # bs) = hex_digit (of_char b div 16) # hex_digit (of_char b mod 16) # hex_encode bs"

fun hex_decode :: "string \<Rightarrow> bytes option" where
  "hex_decode [] = Some []"
| "hex_decode [x] = None"
| "hex_decode (x # y # s) =
     (case (hex_val x, hex_val y, hex_decode s) of
        (Some h, Some l, Some bs) \<Rightarrow> Some (char_of (h * 16 + l) # bs)
      | _ \<Rightarrow> None)"

lemma hex_val_digit: "n < 16 \<Longrightarrow> hex_val (hex_digit n) = Some n"
  by (auto simp: hex_val_def hex_digit_def Let_def)

lemma hex_roundtrip: "hex_decode (hex_encode bs) = Some bs"
proof (induction bs)
  case Nil
  show ?case by simp
next
  case (Cons b bs)
  have "of_char b div 16 < (16::nat)" using of_char_less [of b] by linarith
  with Cons show ?case by (simp add: hex_val_digit)
qed

interpretation hex: codec hex_encode hex_decode
  by unfold_locales (rule hex_roundtrip)

end
