(* ===== verification/Go_Float64.thy ===== *)
theory Go_Float64
  imports Complex_Main X402_Prelude
begin

text \<open>
  Go's \<open>float64\<close>, IEEE 754 binary64 with rounding to nearest, ties to even: a finite value is the
  rational it denotes, and the infinities and NaN are constructors of their own. Signed zeros are
  the one thing identified; no code of the program tells them apart. The operations are those the
  two token buckets use: conversion from an integer, \<open>+\<close>, \<open>-\<close>, \<open>*\<close>, \<open>/\<close>, the comparisons and the
  \<open>min\<close> builtin.

  \<open>f_round\<close> rounds the exact result of an operation. The lemmas give what the buckets rely on:
  it is monotone, and it leaves the integers up to \<open>2 ^ 53\<close> as they are.
\<close>

datatype float64 = Fin rat | Inf bool | NaN

subsection \<open>Rounding\<close>

lemma floor_half_less: "2 \<le> (x::rat) \<Longrightarrow> \<lfloor>x / 2\<rfloor> < \<lfloor>x\<rfloor>"
  by linarith

lemma floor_inverse_less:
  assumes "0 < (x::rat)" "2 * x < 1"
  shows "\<lfloor>1 / (2 * x)\<rfloor> < \<lfloor>1 / x\<rfloor>"
proof -
  have "1 / x = 2 * (1 / (2 * x))" using assms by simp
  moreover have "1 < 1 / (2 * x)" using assms by simp
  ultimately show ?thesis by linarith
qed

text \<open>The exponent \<open>k\<close> with \<open>2 ^ k \<le> x < 2 ^ (k + 1)\<close>, for a positive \<open>x\<close>.\<close>

function binade :: "rat \<Rightarrow> int" where
  "binade x = (if 2 \<le> x then binade (x / 2) + 1
     else if 0 < x \<and> x < 1 then binade (2 * x) - 1
     else 0)"
  by pat_completeness auto

termination
  by (relation "measures [\<lambda>x. if 0 < x \<and> x < 1 then nat \<lfloor>1 / x\<rfloor> else 0, \<lambda>x. nat \<lfloor>x\<rfloor>]")
    (auto intro: floor_half_less floor_inverse_less)

declare binade.simps [simp del]

lemma binade_bounds: "0 < x \<Longrightarrow> 2 powi binade x \<le> x \<and> x < 2 powi (binade x + 1)"
proof (induction x rule: binade.induct)
  case (1 x)
  consider "2 \<le> x" | "x < 1" | "1 \<le> x" "x < 2" by linarith
  then show ?case
  proof cases
    case 1
    with "1.IH" have "2 powi binade (x / 2) \<le> x / 2 \<and> x / 2 < 2 powi (binade (x / 2) + 1)"
      by simp
    with 1 show ?thesis
      by (simp add: binade.simps [of x] power_int_add field_simps)
  next
    case 2
    with "1.IH"(2) "1.prems" have "2 powi binade (2 * x) \<le> 2 * x \<and> 2 * x < 2 powi (binade (2 * x) + 1)"
      by simp
    with 2 "1.prems" show ?thesis
      by (simp add: binade.simps [of x] power_int_add power_int_diff field_simps)
  next
    case 3
    then show ?thesis by (simp add: binade.simps [of x])
  qed
qed

lemma binade_mono:
  assumes "0 < x" "x \<le> y"
  shows "binade x \<le> binade y"
proof (rule ccontr)
  assume "\<not> binade x \<le> binade y"
  then have "(2::rat) powi (binade y + 1) \<le> 2 powi binade x"
    by (intro power_int_increasing) auto
  with binade_bounds [of x] binade_bounds [of y] assms show False by auto
qed

text \<open>Round half to even.\<close>

definition rne :: "rat \<Rightarrow> int" where
  "rne x = (let f = \<lfloor>x\<rfloor>; d = x - of_int f in
     if d < 1 / 2 then f else if 1 / 2 < d then f + 1 else if even f then f else f + 1)"

lemma rne_floor: "\<lfloor>x\<rfloor> \<le> rne x \<and> rne x \<le> \<lfloor>x\<rfloor> + 1"
  by (simp add: rne_def Let_def)

lemma rne_of_int [simp]: "rne (of_int n) = n"
  by (simp add: rne_def)

lemma rne_mono:
  assumes "x \<le> y"
  shows "rne x \<le> rne y"
proof (cases "\<lfloor>x\<rfloor> = \<lfloor>y\<rfloor>")
  case True
  with assms show ?thesis by (auto simp: rne_def Let_def)
next
  case False
  with assms have "\<lfloor>x\<rfloor> + 1 \<le> \<lfloor>y\<rfloor>" by (meson floor_mono add1_zle_eq order_le_neq_trans)
  with rne_floor [of x] rne_floor [of y] show ?thesis by linarith
qed

text \<open>The spacing of the binary64 numbers around a positive \<open>x\<close>, subnormals included.\<close>

definition ulp_exp :: "rat \<Rightarrow> int" where
  "ulp_exp x = max (binade x - 52) (- 1074)"

definition round_pos :: "rat \<Rightarrow> rat" where
  "round_pos x = of_int (rne (x * 2 powi (- ulp_exp x))) * 2 powi ulp_exp x"

definition f_round :: "rat \<Rightarrow> float64" where
  "f_round x = (if x = 0 then Fin 0 else
     let y = round_pos \<bar>x\<bar> in
     if 2 ^ 1024 \<le> y then Inf (x < 0) else Fin (sgn x * y))"

lemma ulp_exp_mono: "0 < x \<Longrightarrow> x \<le> y \<Longrightarrow> ulp_exp x \<le> ulp_exp y"
  using binade_mono [of x y] by (simp add: ulp_exp_def)

lemma round_pos_nonneg: "0 < x \<Longrightarrow> 0 \<le> round_pos x"
  using rne_mono [of 0 "x * 2 powi (- ulp_exp x)"] rne_of_int [of 0]
  by (simp add: round_pos_def)

text \<open>Rounding does not leave the binade of \<open>x\<close>, its upper end aside.\<close>

lemma round_pos_upper:
  assumes "0 < x"
  shows "round_pos x \<le> 2 powi (ulp_exp x + 53)"
proof -
  have "x < 2 powi (binade x + 1)" using binade_bounds assms by blast
  also have "\<dots> \<le> 2 powi (ulp_exp x + 53)"
    by (rule power_int_increasing) (simp_all add: ulp_exp_def)
  finally have "x * 2 powi (- ulp_exp x) \<le> 2 powi (ulp_exp x + 53) * 2 powi (- ulp_exp x)"
    by simp
  also have "\<dots> = of_int (2 ^ 53)"
    by (simp add: power_int_add power_int_minus)
  finally have "rne (x * 2 powi (- ulp_exp x)) \<le> 2 ^ 53"
    using rne_mono rne_of_int by metis
  then have "of_int (rne (x * 2 powi (- ulp_exp x))) \<le> (of_int (2 ^ 53) :: rat)"
    by (simp only: of_int_le_iff)
  then show ?thesis
    by (simp add: round_pos_def power_int_add mult.commute mult_right_mono)
qed

lemma round_pos_lower:
  assumes "0 < x" "ulp_exp x = binade x - 52"
  shows "2 powi binade x \<le> round_pos x"
proof -
  have "2 powi binade x \<le> x" using binade_bounds assms by blast
  then have "2 powi binade x * 2 powi (- ulp_exp x) \<le> x * 2 powi (- ulp_exp x)" by simp
  moreover have "2 powi binade x * 2 powi (- ulp_exp x) = (of_int (2 ^ 52) :: rat)"
    by (simp add: assms(2) power_int_diff)
  ultimately have "2 ^ 52 \<le> rne (x * 2 powi (- ulp_exp x))"
    using rne_mono rne_of_int by metis
  then have "(of_int (2 ^ 52) :: rat) \<le> of_int (rne (x * 2 powi (- ulp_exp x)))"
    by (simp only: of_int_le_iff)
  then have "of_int (2 ^ 52) * 2 powi ulp_exp x \<le> round_pos x"
    by (simp add: round_pos_def mult_right_mono)
  then show ?thesis by (simp add: assms(2) power_int_diff)
qed

lemma round_pos_mono:
  assumes "0 < x" "x \<le> y"
  shows "round_pos x \<le> round_pos y"
proof (cases "ulp_exp x = ulp_exp y")
  case True
  have "rne (x * 2 powi (- ulp_exp x)) \<le> rne (y * 2 powi (- ulp_exp x))"
    by (rule rne_mono) (simp add: assms(2) mult_right_mono)
  then show ?thesis
    unfolding round_pos_def True by (intro mult_right_mono) simp_all
next
  case False
  with ulp_exp_mono [OF assms] have lt: "ulp_exp x < ulp_exp y" by simp
  then have norm: "ulp_exp y = binade y - 52"
    by (auto simp: ulp_exp_def max_def split: if_splits)
  have "round_pos x \<le> 2 powi (ulp_exp x + 53)" using assms(1) by (rule round_pos_upper)
  also have "\<dots> \<le> 2 powi binade y"
    using lt norm by (intro power_int_increasing) auto
  also have "\<dots> \<le> round_pos y"
    using assms norm by (intro round_pos_lower) auto
  finally show ?thesis .
qed

text \<open>Integers of at most 53 bits are binary64 numbers.\<close>

lemma round_pos_of_int:
  assumes "0 < n" "n \<le> 2 ^ 53"
  shows "round_pos (of_int n) = of_int n"
proof -
  let ?e = "ulp_exp (of_int n :: rat)"
  have "(2::rat) powi binade (of_int n) \<le> of_int n" using binade_bounds assms by simp
  also have "(of_int n :: rat) \<le> 2 ^ 53"
    using assms(2) by (simp only: of_int_le_numeral_power_cancel_iff)
  also have "\<dots> = 2 powi 53" by simp
  finally have "binade (of_int n :: rat) \<le> 53"
    using power_int_strict_increasing [of 53 "binade (of_int n)" "2::rat"] by force
  show ?thesis
  proof (cases "?e \<le> 0")
    case True
    then obtain k :: nat where k: "- ?e = int k" by (metis neg_0_le_iff_le nonneg_int_cases)
    have "(of_int n :: rat) * 2 powi (- ?e) = of_int (n * 2 ^ k)" by (simp add: k)
    then have "rne ((of_int n :: rat) * 2 powi (- ?e)) = n * 2 ^ k" by (simp only: rne_of_int)
    moreover have "?e = - int k" using k by simp
    ultimately show ?thesis
      unfolding round_pos_def by (simp add: power_int_minus)
  next
    case False
    with \<open>binade (of_int n :: rat) \<le> 53\<close> have "binade (of_int n :: rat) = 53" "?e = 1"
      by (auto simp: ulp_exp_def max_def split: if_splits)
    with binade_bounds [of "of_int n :: rat"] assms have "(2::rat) ^ 53 \<le> of_int n" by simp
    then have "2 ^ 53 \<le> n"
      by (simp only: numeral_power_le_of_int_cancel_iff)
    with assms have "n = 2 ^ 53" by simp
    then have "(of_int n :: rat) * 2 powi (- 1) = of_int (2 ^ 52)" by simp
    with \<open>?e = 1\<close> \<open>n = 2 ^ 53\<close> show ?thesis
      unfolding round_pos_def by (simp only: rne_of_int) simp
  qed
qed

subsection \<open>Operations\<close>

definition f_of_int :: "int \<Rightarrow> float64" where
  "f_of_int n = f_round (of_int n)"

fun f_add :: "float64 \<Rightarrow> float64 \<Rightarrow> float64" where
  "f_add (Fin x) (Fin y) = f_round (x + y)"
| "f_add (Fin x) (Inf s) = Inf s"
| "f_add (Inf s) (Fin y) = Inf s"
| "f_add (Inf s) (Inf t) = (if s = t then Inf s else NaN)"
| "f_add _ _ = NaN"

fun f_neg :: "float64 \<Rightarrow> float64" where
  "f_neg (Fin x) = Fin (- x)"
| "f_neg (Inf s) = Inf (\<not> s)"
| "f_neg NaN = NaN"

definition f_sub :: "float64 \<Rightarrow> float64 \<Rightarrow> float64" where
  "f_sub x y = f_add x (f_neg y)"

fun f_mul :: "float64 \<Rightarrow> float64 \<Rightarrow> float64" where
  "f_mul (Fin x) (Fin y) = f_round (x * y)"
| "f_mul (Fin x) (Inf s) = (if x = 0 then NaN else Inf (s \<noteq> (x < 0)))"
| "f_mul (Inf s) (Fin x) = (if x = 0 then NaN else Inf (s \<noteq> (x < 0)))"
| "f_mul (Inf s) (Inf t) = Inf (s \<noteq> t)"
| "f_mul _ _ = NaN"

text \<open>Division by a non-zero constant, the only one the program makes.\<close>

fun f_div_const :: "float64 \<Rightarrow> rat \<Rightarrow> float64" where
  "f_div_const (Fin x) c = f_round (x / c)"
| "f_div_const (Inf s) c = Inf (s \<noteq> (c < 0))"
| "f_div_const NaN c = NaN"

text \<open>A comparison with NaN is false.\<close>

fun f_le :: "float64 \<Rightarrow> float64 \<Rightarrow> bool" where
  "f_le (Fin x) (Fin y) = (x \<le> y)"
| "f_le (Fin x) (Inf s) = (\<not> s)"
| "f_le (Inf s) (Fin y) = s"
| "f_le (Inf s) (Inf t) = (s \<or> \<not> t)"
| "f_le _ _ = False"

fun f_less :: "float64 \<Rightarrow> float64 \<Rightarrow> bool" where
  "f_less (Fin x) (Fin y) = (x < y)"
| "f_less (Fin x) (Inf s) = (\<not> s)"
| "f_less (Inf s) (Fin y) = s"
| "f_less (Inf s) (Inf t) = (s \<and> \<not> t)"
| "f_less _ _ = False"

text \<open>The \<open>min\<close> builtin: NaN when either argument is.\<close>

definition f_min :: "float64 \<Rightarrow> float64 \<Rightarrow> float64" where
  "f_min x y = (if x = NaN \<or> y = NaN then NaN else if f_le x y then x else y)"

text \<open>
  \<open>Duration.Seconds\<close>: the whole seconds, plus the rest of the nanoseconds over 1e9. Go's \<open>/\<close>
  and \<open>%\<close> truncate toward zero.
\<close>

definition dur_seconds :: "duration \<Rightarrow> float64" where
  "dur_seconds d = (let s = sgn d * (\<bar>d\<bar> div second); n = sgn d * (\<bar>d\<bar> mod second) in
     f_add (f_of_int s) (f_div_const (f_of_int n) 1000000000))"

subsection \<open>Laws\<close>

lemma f_round_0 [simp]: "f_round 0 = Fin 0"
  by (simp add: f_round_def)

lemma f_round_not_NaN [simp]: "f_round x \<noteq> NaN"
  by (simp add: f_round_def Let_def)

lemma f_round_of_int: "\<bar>n\<bar> \<le> 2 ^ 53 \<Longrightarrow> f_round (of_int n) = Fin (of_int n)"
proof -
  assume n: "\<bar>n\<bar> \<le> 2 ^ 53"
  show ?thesis
  proof (cases "n = 0")
    case False
    with n round_pos_of_int [of "\<bar>n\<bar>"] have r: "round_pos \<bar>of_int n\<bar> = \<bar>of_int n\<bar>"
      by simp
    have "\<bar>of_int n :: rat\<bar> \<le> 2 ^ 53"
      using n by (simp only: of_int_le_numeral_power_cancel_iff flip: of_int_abs)
    also have "\<dots> < 2 ^ 1024" by (intro power_strict_increasing) auto
    finally show ?thesis
      using False r by (simp add: f_round_def Let_def sgn_mult_abs)
  qed simp
qed

lemma f_of_int_small [simp]: "\<bar>n\<bar> \<le> 2 ^ 53 \<Longrightarrow> f_of_int n = Fin (of_int n)"
  by (simp add: f_of_int_def f_round_of_int)

lemma f_round_pos: "0 \<le> x \<Longrightarrow> f_round x = Inf False \<or> (\<exists>y \<ge> 0. f_round x = Fin y)"
  using round_pos_nonneg [of x] by (auto simp: f_round_def Let_def sgn_if)

lemma f_round_neg: "x \<le> 0 \<Longrightarrow> f_round x = Inf True \<or> (\<exists>y \<le> 0. f_round x = Fin y)"
  using round_pos_nonneg [of "- x"] by (auto simp: f_round_def Let_def sgn_if)

lemma f_round_mono: "x \<le> y \<Longrightarrow> f_le (f_round x) (f_round y)"
proof -
  assume xy: "x \<le> y"
  consider "0 < x" | "x \<le> 0" "0 \<le> y" | "y < 0" by linarith
  then show ?thesis
  proof cases
    case 1
    with round_pos_mono [of x y] xy show ?thesis by (simp add: f_round_def Let_def)
  next
    case 2
    with f_round_neg [of x] f_round_pos [of y] show ?thesis by auto
  next
    case 3
    with round_pos_mono [of "- y" "- x"] xy show ?thesis by (simp add: f_round_def Let_def)
  qed
qed

lemma f_le_refl [simp]: "x \<noteq> NaN \<Longrightarrow> f_le x x"
  by (cases x) auto

lemma f_le_trans: "f_le x y \<Longrightarrow> f_le y z \<Longrightarrow> f_le x z"
  by (cases x; cases y; cases z) auto

lemma f_le_total: "x \<noteq> NaN \<Longrightarrow> y \<noteq> NaN \<Longrightarrow> f_le x y \<or> f_le y x"
  by (cases x; cases y) auto

lemma f_less_iff: "f_less x y \<longleftrightarrow> f_le x y \<and> \<not> f_le y x"
  by (cases x; cases y) auto

lemma f_le_Inf [simp]: "x \<noteq> NaN \<Longrightarrow> f_le x (Inf False)" "x \<noteq> NaN \<Longrightarrow> f_le (Inf True) x"
  by (cases x; simp)+

lemma f_add_mono: "f_le x y \<Longrightarrow> f_add x z \<noteq> NaN \<Longrightarrow> f_add y z \<noteq> NaN \<Longrightarrow> f_le (f_add x z) (f_add y z)"
  by (cases x; cases y; cases z) (auto simp: f_round_mono split: if_splits)

text \<open>Rounding twice is rounding once.\<close>

lemma round_pos_exact:
  assumes "y = of_int m * 2 powi e" "ulp_exp y \<le> e"
  shows "round_pos y = y"
proof -
  obtain k :: nat where k: "e - ulp_exp y = int k" using assms(2) by (metis diff_ge_0_iff_ge nonneg_int_cases)
  have "y * 2 powi (- ulp_exp y) = of_int m * 2 powi (e + - ulp_exp y)"
    using power_int_add [of "2::rat" e "- ulp_exp y"] by (subst assms(1)) simp
  also have "\<dots> = of_int (m * 2 ^ k)" using k by simp
  finally have "rne (y * 2 powi (- ulp_exp y)) = m * 2 ^ k" by (simp only: rne_of_int)
  moreover have "y = of_int (m * 2 ^ k) * 2 powi ulp_exp y"
  proof -
    have "(2::rat) powi e = 2 ^ k * 2 powi ulp_exp y"
      using power_int_add [of "2::rat" "int k" "ulp_exp y"] k by (simp add: algebra_simps)
    with assms(1) show ?thesis by simp
  qed
  ultimately show ?thesis unfolding round_pos_def by simp
qed

lemma round_pos_idem:
  assumes "0 < x" "0 < round_pos x"
  shows "round_pos (round_pos x) = round_pos x"
proof -
  define e m where "e = ulp_exp x" and "m = rne (x * 2 powi (- e))"
  have y: "round_pos x = of_int m * 2 powi e" by (simp add: round_pos_def e_def m_def)
  have up: "round_pos x \<le> 2 powi (e + 53)" using round_pos_upper [OF assms(1)] by (simp add: e_def)
  have low: "2 powi binade (round_pos x) \<le> round_pos x" using binade_bounds [OF assms(2)] by simp
  have emin: "- 1074 \<le> e" by (simp add: e_def ulp_exp_def)
  show ?thesis
  proof (cases "round_pos x = 2 powi (e + 53)")
    case False
    with up low have "(2::rat) powi binade (round_pos x) < 2 powi (e + 53)" by linarith
    then have "binade (round_pos x) < e + 53"
      using power_int_increasing [of "e + 53" "binade (round_pos x)" "2::rat"] by force
    with emin have "ulp_exp (round_pos x) \<le> e" by (simp add: ulp_exp_def)
    with y show ?thesis by (rule round_pos_exact)
  next
    case True
    then have "round_pos x = of_int (2 ^ 52) * 2 powi (e + 1)" by (simp add: power_int_add)
    moreover have "(2::rat) powi binade (round_pos x) \<le> 2 powi (e + 53)" using low True by simp
    then have "binade (round_pos x) \<le> e + 53"
      using power_int_strict_increasing [of "e + 53" "binade (round_pos x)" "2::rat"] by force
    with emin have "ulp_exp (round_pos x) \<le> e + 1" by (simp add: ulp_exp_def)
    ultimately show ?thesis by (rule round_pos_exact)
  qed
qed

lemma f_round_idem: "f_round x = Fin y \<Longrightarrow> f_round y = Fin y"
proof -
  assume x: "f_round x = Fin y"
  show ?thesis
  proof (cases "y = 0")
    case False
    with x have "x \<noteq> 0" and r: "round_pos \<bar>x\<bar> < 2 ^ 1024" and y: "y = sgn x * round_pos \<bar>x\<bar>"
      by (auto simp: f_round_def Let_def split: if_splits)
    then have pos: "0 < round_pos \<bar>x\<bar>"
      using round_pos_nonneg [of "\<bar>x\<bar>"] False by (cases "round_pos \<bar>x\<bar> = 0") auto
    have "\<bar>y\<bar> = round_pos \<bar>x\<bar>" "sgn y = sgn x"
      using y pos by (simp_all add: abs_mult sgn_mult \<open>x \<noteq> 0\<close>)
    with False r y round_pos_idem [OF _ pos] \<open>x \<noteq> 0\<close> show ?thesis
      by (simp add: f_round_def Let_def)
  qed simp
qed

text \<open>Rounding keeps a number between two small integers.\<close>

lemma f_round_between:
  assumes "of_int a \<le> x" "x \<le> of_int b" "\<bar>a\<bar> \<le> 2 ^ 53" "\<bar>b\<bar> \<le> 2 ^ 53"
  obtains y where "f_round x = Fin y" "of_int a \<le> y" "y \<le> of_int b"
proof -
  have "f_le (Fin (of_int a)) (f_round x)" "f_le (f_round x) (Fin (of_int b))"
    using f_round_mono [OF assms(1)] f_round_mono [OF assms(2)] assms(3,4)
    by (simp_all add: f_round_of_int)
  with that show thesis by (cases "f_round x") auto
qed

text \<open>A positive number that is not subnormal does not round to zero.\<close>

lemma f_round_ge_power:
  assumes "2 powi k \<le> x" "- 1022 \<le> k"
  shows "f_le (Fin (2 powi k)) (f_round x)"
proof -
  have x: "0 < x" using assms(1) by (meson order_less_le_trans zero_less_power_int zero_less_numeral)
  have "(2::rat) powi k < 2 powi (binade x + 1)"
    using binade_bounds [OF x] assms(1) by linarith
  then have "k < binade x + 1"
    using power_int_increasing [of "binade x + 1" k "2::rat"] by force
  then have "2 powi k \<le> (2::rat) powi binade x" by (intro power_int_increasing) auto
  also have "\<dots> \<le> round_pos x"
    using \<open>k < binade x + 1\<close> assms(2) x by (intro round_pos_lower) (auto simp: ulp_exp_def)
  finally show ?thesis using x by (simp add: f_round_def Let_def)
qed

subsection \<open>Durations in seconds\<close>

lemma small_parts:
  assumes "\<bar>d\<bar> \<le> 2 ^ 63"
  shows "\<bar>sgn d * (\<bar>d\<bar> div second)\<bar> \<le> 2 ^ 34" "\<bar>sgn d * (\<bar>d\<bar> mod second)\<bar> < second"
proof -
  have "\<bar>d\<bar> div second \<le> 2 ^ 34" "0 \<le> \<bar>d\<bar> div second"
    using zdiv_mono1 [OF assms, of second] by (simp_all add: second_def pos_imp_zdiv_nonneg_iff)
  then show "\<bar>sgn d * (\<bar>d\<bar> div second)\<bar> \<le> 2 ^ 34" by (auto simp: sgn_if)
  have "\<bar>d\<bar> mod second < second" "0 \<le> \<bar>d\<bar> mod second" by (simp_all add: second_def)
  then show "\<bar>sgn d * (\<bar>d\<bar> mod second)\<bar> < second" by (auto simp: sgn_if second_def)
qed

text \<open>The seconds of a duration, and the bounds its rounding keeps.\<close>

lemma dur_seconds_finite:
  assumes d: "\<bar>d\<bar> \<le> 2 ^ 63"
  obtains y where "dur_seconds d = Fin y" "0 \<le> d \<Longrightarrow> 0 \<le> y" "d \<le> 0 \<Longrightarrow> y \<le> 0"
proof -
  define s n where "s = sgn d * (\<bar>d\<bar> div second)" and "n = sgn d * (\<bar>d\<bar> mod second)"
  have b: "\<bar>s\<bar> \<le> 2 ^ 34" "\<bar>n\<bar> < second"
    using small_parts [OF d] by (simp_all add: s_def n_def)
  have sign: "0 \<le> d \<Longrightarrow> 0 \<le> s \<and> 0 \<le> n" "d \<le> 0 \<Longrightarrow> s \<le> 0 \<and> n \<le> 0"
    by (auto simp: s_def n_def sgn_if second_def pos_imp_zdiv_nonneg_iff)
  let ?lo = "if 0 \<le> d then 0 else - 1 :: int" and ?hi = "if d \<le> 0 then 0 else 1 :: int"
  have "of_int ?lo \<le> (of_int n / 1000000000 :: rat)" "(of_int n / 1000000000 :: rat) \<le> of_int ?hi"
    using b(2) sign by (auto simp: second_def)
  then obtain z where z: "f_round (of_int n / 1000000000) = Fin z" "of_int ?lo \<le> z" "z \<le> of_int ?hi"
    by (rule f_round_between) auto
  have "of_int (s + ?lo) \<le> of_int s + z" "of_int s + z \<le> of_int (s + ?hi)"
    using z(2,3) by (simp_all only: of_int_add add_left_mono)
  moreover have "\<bar>s + ?lo\<bar> \<le> 2 ^ 53" "\<bar>s + ?hi\<bar> \<le> 2 ^ 53" using b(1) by auto
  ultimately obtain y where y: "f_round (of_int s + z) = Fin y" "of_int (s + ?lo) \<le> y" "y \<le> of_int (s + ?hi)"
    by (rule f_round_between)
  have "f_of_int s = Fin (of_int s)" "f_of_int n = Fin (of_int n)"
    using b by (simp_all add: second_def)
  then have eq: "dur_seconds d = Fin y"
    using z(1) y(1) by (simp add: dur_seconds_def Let_def flip: s_def n_def)
  show thesis
  proof
    show "0 \<le> y" if "0 \<le> d"
    proof -
      have "(0::rat) \<le> of_int (s + ?lo)" using that sign(1) by simp
      with y(2) show ?thesis by linarith
    qed
    show "y \<le> 0" if "d \<le> 0"
    proof -
      have "of_int (s + ?hi) \<le> (0::rat)" using that sign(2) by simp
      with y(3) show ?thesis by linarith
    qed
  qed (rule eq)
qed

lemma dur_sub_small: "\<bar>dur_sub t u\<bar> \<le> 2 ^ 63"
  by (simp add: dur_sub_def abs_if min_def max_def)

lemma dur_seconds_pos:
  assumes d: "0 < d" "\<bar>d\<bar> \<le> 2 ^ 63"
  obtains y where "dur_seconds d = Fin y" "0 < y"
proof -
  define s n where "s = d div second" and "n = d mod second"
  have parts: "sgn d * (\<bar>d\<bar> div second) = s" "sgn d * (\<bar>d\<bar> mod second) = n"
    using d(1) by (simp_all add: s_def n_def)
  from small_parts [OF d(2)] have b: "\<bar>s\<bar> \<le> 2 ^ 34" "\<bar>n\<bar> < second" by (simp_all only: parts)
  have nn: "0 \<le> s" "0 \<le> n" using d(1) by (simp_all add: s_def n_def second_def pos_imp_zdiv_nonneg_iff)
  have "0 < s \<or> 0 < n"
    using d(1) nn div_mult_mod_eq [of d second]
    unfolding s_def [symmetric] n_def [symmetric] by (cases "s = 0"; cases "n = 0") auto
  obtain y where y: "dur_seconds d = Fin y" by (rule dur_seconds_finite [OF d(2)])
  have "of_int 0 \<le> (of_int n / 1000000000 :: rat)" "(of_int n / 1000000000 :: rat) \<le> of_int 1"
    using b(2) nn by (auto simp: second_def)
  then obtain z where z: "f_round (of_int n / 1000000000) = Fin z" "of_int 0 \<le> z" "z \<le> of_int 1"
    by (rule f_round_between) auto
  have "f_of_int s = Fin (of_int s)" "f_of_int n = Fin (of_int n)"
    using b by (simp_all add: second_def)
  then have eq: "Fin y = f_round (of_int s + z)"
    using z(1) y by (simp add: dur_seconds_def parts)
  have "0 < y"
  proof (cases "0 < s")
    case True
    have "of_int s \<le> of_int s + z" using z(2) by simp
    from f_round_mono [OF this] have "of_int s \<le> y"
      using b(1) by (simp add: f_round_of_int flip: eq)
    moreover have "(0::rat) < of_int s" using True by simp
    ultimately show ?thesis by linarith
  next
    case False
    with nn \<open>0 < s \<or> 0 < n\<close> have s: "s = 0" "0 < n" by auto
    have small: "(2::rat) powi (- 30) \<le> 1 / 1000000000" by (simp add: power_int_minus field_simps)
    have "(1::rat) \<le> of_int n" using s(2) by simp
    then have "(1::rat) / 1000000000 \<le> of_int n / 1000000000" by (simp add: divide_right_mono)
    with small have "(2::rat) powi (- 30) \<le> of_int n / 1000000000" by linarith
    from f_round_ge_power [OF this] have "(2::rat) powi (- 30) \<le> z" by (simp add: z(1))
    then have "(2::rat) powi (- 30) \<le> of_int s + z" using s(1) by simp
    from f_round_ge_power [OF this] have "(2::rat) powi (- 30) \<le> y" by (simp flip: eq)
    then show ?thesis by (meson order_less_le_trans zero_less_power_int zero_less_numeral)
  qed
  with y show thesis by (rule that)
qed

end
