(* ===== verification/X402_Types.thy ===== *)
theory X402_Types
  imports Go_Encoding Go_Float64
begin

text \<open>
  The data the components exchange: the protocol's requirements and payloads, the chain's
  transactions and accounts, and the errors. These types are declared by the libraries the program
  links (x402's \<open>types\<close>, tm2's \<open>std\<close>, \<open>crypto\<close> and \<open>bank\<close>); only the fields the program reads or
  writes are kept.

  What those libraries compute is not under src/: it is the record \<open>gno_lib\<close>, an argument of every
  definition that uses it. Its fields say which function each stands for.
\<close>

subsection \<open>Values of an interface\<close>

text \<open>A Go \<open>any\<close> decoded from JSON.\<close>

datatype any_value =
    AnyNil
  | AnyString string
  | AnyBool bool
  | AnyNumber float64
  | AnySlice "any_value list"
  | AnyMap "(string \<times> any_value) list"

text \<open>A \<open>map[string]any\<close>; \<open>None\<close> is the nil map, which reads as empty.\<close>

type_synonym any_map = "(string, any_value) gomap option"

definition any_get :: "any_map \<Rightarrow> string \<Rightarrow> any_value option" where
  "any_get e k = (case e of None \<Rightarrow> None | Some m \<Rightarrow> gm_get m k)"

text \<open>\<open>v := m[k]\<close>: a key the map lacks reads as nil.\<close>

definition any_at :: "any_map \<Rightarrow> string \<Rightarrow> any_value" where
  "any_at e k = (case any_get e k of None \<Rightarrow> AnyNil | Some v \<Rightarrow> v)"

subsection \<open>The protocol\<close>

record requirements =
  req_scheme :: string
  req_network :: string
  req_asset :: string
  req_amount :: string
  req_pay_to :: string
  req_max_timeout :: int
  req_extra :: any_map

record payment_payload =
  pp_version :: int
  pp_accepted :: requirements
  pp_payload :: any_map

record verify_response =
  vr_valid :: bool
  vr_reason :: string
  vr_payer :: string

record settle_response =
  sr_success :: bool
  sr_transaction :: string
  sr_network :: string
  sr_payer :: string
  sr_reason :: string

text \<open>The names x402 gives its default flow and the outcome of a payment still in flight.\<close>

definition PaymentFlowAuthorization :: string where
  "PaymentFlowAuthorization = ''authorization''"

definition ErrSettlementPending :: string where
  "ErrSettlementPending = ''settlement_pending''"

subsection \<open>The chain\<close>

text \<open>\<open>crypto.Address\<close> is an array of 20 bytes.\<close>

datatype address = Address (address_bytes: bytes)

definition zero_address :: address where
  "zero_address = Address (replicate 20 (CHR 0x00))"

record coin =
  coin_denom :: string
  coin_amount :: i64

record msg_send =
  from_address :: address
  to_address :: address
  send_amount :: "coin list"

datatype std_msg = BankSend msg_send | OtherMsg string

record std_fee =
  gas_wanted :: i64
  gas_fee :: coin

record 'pk std_signature =
  sig_pub_key :: "'pk option"
  sig_bytes :: bytes
  sig_session :: address

record 'pk std_tx =
  tx_msgs :: "std_msg list"
  tx_fee :: std_fee
  tx_signatures :: "'pk std_signature list"
  tx_memo :: string

record 'pk std_account =
  acc_pub_key :: "'pk option"
  acc_number :: u64
  acc_sequence :: u64

record gas_price =
  price_gas :: i64
  price_coin :: coin

subsection \<open>Errors\<close>

text \<open>
  \<open>abci.Error\<close> is the chain's own refusal; two kinds of it are told apart by type. \<open>WrapError\<close> is
  \<open>fmt.Errorf\<close> of a text, a colon and a \<open>%w\<close>, \<open>DetailError\<close> of a \<open>%w\<close>, a colon and a text; the last three constructors are
  \<open>*exact.NoVerdictError\<close> (payer, cause), \<open>*x402.VerifyError\<close> (reason, payer, message) and
  \<open>*x402.SettleError\<close> (reason, payer, network, transaction, message).
\<close>

datatype abci_error = UnknownAddressError string | SessionNotFoundError string | OtherAbciError string

datatype go_error =
    ErrorString string
  | AbciError abci_error
  | WrapError string go_error
  | DetailError go_error string
  | NoVerdictError string go_error
  | VerifyError string string string
  | SettleError string string string string string

text \<open>\<open>errors.AsType\<close>: the first error of the chain that has the type.\<close>

primrec as_type :: "(go_error \<Rightarrow> 'a option) \<Rightarrow> go_error \<Rightarrow> 'a option" where
  "as_type f (ErrorString m) = f (ErrorString m)"
| "as_type f (AbciError a) = f (AbciError a)"
| "as_type f (WrapError m e) = (case f (WrapError m e) of Some x \<Rightarrow> Some x | None \<Rightarrow> as_type f e)"
| "as_type f (DetailError e m) = (case f (DetailError e m) of Some x \<Rightarrow> Some x | None \<Rightarrow> as_type f e)"
| "as_type f (NoVerdictError p e) = (case f (NoVerdictError p e) of Some x \<Rightarrow> Some x | None \<Rightarrow> as_type f e)"
| "as_type f (VerifyError r p m) = f (VerifyError r p m)"
| "as_type f (SettleError r p n t m) = f (SettleError r p n t m)"

fun is_abci :: "go_error \<Rightarrow> abci_error option" where
  "is_abci (AbciError a) = Some a"
| "is_abci _ = None"

fun is_unknown_address :: "go_error \<Rightarrow> string option" where
  "is_unknown_address (AbciError (UnknownAddressError m)) = Some m"
| "is_unknown_address _ = None"

fun is_no_verdict :: "go_error \<Rightarrow> (string \<times> go_error) option" where
  "is_no_verdict (NoVerdictError p e) = Some (p, e)"
| "is_no_verdict _ = None"

fun is_verify_error :: "go_error \<Rightarrow> (string \<times> string \<times> string) option" where
  "is_verify_error (VerifyError r p m) = Some (r, p, m)"
| "is_verify_error _ = None"

fun is_settle_error :: "go_error \<Rightarrow> (string \<times> string \<times> string \<times> string) option" where
  "is_settle_error (SettleError r p n t m) = Some (r, p, t, m)"
| "is_settle_error _ = None"

text \<open>\<open>errors.Is\<close> against an \<open>errors.New\<close> sentinel.\<close>

fun wraps :: "go_error \<Rightarrow> go_error \<Rightarrow> bool" where
  "wraps s (WrapError m e) = (WrapError m e = s \<or> wraps s e)"
| "wraps s (DetailError e m) = (DetailError e m = s \<or> wraps s e)"
| "wraps s (NoVerdictError p e) = (NoVerdictError p e = s \<or> wraps s e)"
| "wraps s e = (e = s)"

subsection \<open>What the linked libraries compute\<close>

datatype rendering = PayloadRenderingNone | PayloadRendering nat

record 'pk gno_lib =
  \<comment> \<open>\<open>std.ParseCoins\<close>\<close>
  parse_coins :: "string \<Rightarrow> go_error + coin list"
  \<comment> \<open>\<open>Coin.IsPositive\<close>, \<open>Coin.String\<close> and \<open>std.NewCoinSafe\<close>\<close>
  is_positive :: "coin \<Rightarrow> bool"
  coin_text :: "coin \<Rightarrow> string"
  new_coin_safe :: "string \<Rightarrow> i64 \<Rightarrow> go_error + coin"
  \<comment> \<open>\<open>Address.String\<close>, \<open>crypto.AddressFromBech32\<close> and \<open>Address.IsZero\<close>\<close>
  address_string :: "address \<Rightarrow> string"
  address_from_bech32 :: "string \<Rightarrow> go_error + address"
  address_is_zero :: "address \<Rightarrow> bool"
  \<comment> \<open>\<open>amino.Unmarshal\<close> into, and \<open>amino.Marshal\<close> of, a \<open>std.Tx\<close>\<close>
  unmarshal_tx :: "bytes \<Rightarrow> 'pk std_tx option"
  marshal_tx :: "'pk std_tx \<Rightarrow> go_error + bytes"
  \<comment> \<open>\<open>bfttypes.Tx(raw).Hash()\<close>\<close>
  tx_hash :: "bytes \<Rightarrow> bytes"
  \<comment> \<open>\<open>Tx.GetSigners\<close>, \<open>Tx.ValidateBasic\<close> and \<open>MsgSend.ValidateBasic\<close>\<close>
  get_signers :: "'pk std_tx \<Rightarrow> address list"
  tx_validate :: "'pk std_tx \<Rightarrow> go_error option"
  send_validate :: "msg_send \<Rightarrow> go_error option"
  \<comment> \<open>\<open>Tx.GetSignBytes(chainID, number, sequence)\<close>\<close>
  get_sign_bytes :: "'pk std_tx \<Rightarrow> string \<Rightarrow> u64 \<Rightarrow> u64 \<Rightarrow> go_error + bytes"
  \<comment> \<open>\<open>std.VerifySignaturePayload(key, tx.SignDoc(chainID, number, sequence), signature)\<close>\<close>
  verify_payload :: "'pk \<Rightarrow> 'pk std_tx \<Rightarrow> string \<Rightarrow> u64 \<Rightarrow> u64 \<Rightarrow> bytes \<Rightarrow> go_error + rendering"
  \<comment> \<open>\<open>PubKey.Address\<close>, \<open>PubKey.Equals\<close>, and whether the key is a multisig threshold key\<close>
  pk_address :: "'pk \<Rightarrow> address"
  pk_equals :: "'pk \<Rightarrow> 'pk \<Rightarrow> bool"
  pk_multisig :: "'pk \<Rightarrow> bool"
  \<comment> \<open>\<open>Error\<close> of the errors those libraries declare: \<open>abci.Error\<close>, \<open>*x402.VerifyError\<close> and \<open>*x402.SettleError\<close>\<close>
  err_text :: "go_error \<Rightarrow> string"

text \<open>\<open>err.Error()\<close>.\<close>

fun error_text :: "'pk gno_lib \<Rightarrow> go_error \<Rightarrow> string" where
  "error_text lib (ErrorString m) = m"
| "error_text lib (WrapError m e) = m @ '': '' @ error_text lib e"
| "error_text lib (DetailError e m) = error_text lib e @ '': '' @ m"
| "error_text lib (NoVerdictError p e) = ''no verdict on the payment: '' @ error_text lib e"
| "error_text lib e = err_text lib e"

end
