(* ===== verification/Go_Json.thy ===== *)
theory Go_Json
  imports X402_Prelude
begin

text \<open>
  What the program uses of \<open>encoding/json\<close>, on JSON values: decoding a value into a struct's fields.
  A number keeps its literal, since an integer field takes an integer literal only. Reading the text
  of a body into values is the library's scanner; a body is modelled by the values the scanner reads
  from it one after the other, and by how it ends.

  The rules are the library's: a key names the field it equals, or else the one it equals under case
  folding; a key that names no field is skipped; of two keys naming one field the later wins; null
  leaves a field as it is; and one field that cannot take its value fails the whole.
\<close>

datatype json =
    JNull
  | JBool bool
  | JNumber string
  | JString string
  | JArray "json list"
  | JObject "(string \<times> json) list"

text \<open>
  A body: the values read, and then its end, text that is no JSON, or the size cap. The end of input
  is \<open>io.EOF\<close> only when no further value has begun.
\<close>

datatype body_end = EndOfInput | BadSyntax | OverCap

type_synonym json_body = "json list \<times> body_end"

subsection \<open>Field names\<close>

text \<open>
  Two names are the same under folding when their bytes agree up to the case of ASCII letters; two
  letters outside ASCII fold into it, the long s (c5 bf) and the Kelvin sign (e2 84 aa).
\<close>

definition fold_char :: "char \<Rightarrow> char" where
  "fold_char c = (if is_lower c then char_of (of_char c - 32 :: nat) else c)"

fun fold_name :: "string \<Rightarrow> string" where
  "fold_name (a # b # c # s) =
     (if a = CHR 0xC5 \<and> b = CHR 0xBF then CHR ''S'' # fold_name (c # s)
      else if a = CHR 0xE2 \<and> b = CHR 0x84 \<and> c = CHR 0xAA then CHR ''K'' # fold_name s
      else fold_char a # fold_name (b # c # s))"
| "fold_name [a, b] = (if a = CHR 0xC5 \<and> b = CHR 0xBF then [CHR ''S''] else [fold_char a, fold_char b])"
| "fold_name [a] = [fold_char a]"
| "fold_name [] = []"

subsection \<open>Values\<close>

text \<open>\<open>strconv.ParseInt(literal, 10, 64)\<close> of a JSON number, for an int field.\<close>

definition digits_value :: "string \<Rightarrow> int" where
  "digits_value s = foldl (\<lambda>n c. 10 * n + (int (of_char c) - 48)) 0 s"

definition parse_int :: "string \<Rightarrow> int option" where
  "parse_int s =
     (let (neg, ds) = (case s of [] \<Rightarrow> (False, []) | c # cs \<Rightarrow> if c = CHR ''-'' then (True, cs) else (False, s));
          n = (if neg then - digits_value ds else digits_value ds) in
      if ds = [] \<or> \<not> list_all is_digit ds \<or> n < - (2 ^ 63) \<or> 2 ^ 63 \<le> n then None else Some n)"

fun into_int :: "json \<Rightarrow> int \<Rightarrow> int option" where
  "into_int JNull old = Some old"
| "into_int (JNumber s) old = parse_int s"
| "into_int _ old = None"

fun into_string :: "json \<Rightarrow> string \<Rightarrow> string option" where
  "into_string JNull old = Some old"
| "into_string (JString s) old = Some s"
| "into_string _ old = None"

text \<open>A \<open>json.RawMessage\<close> takes any value, null too; \<open>None\<close> is the empty message, the field absent.\<close>

definition into_raw :: "json \<Rightarrow> json option \<Rightarrow> json option option" where
  "into_raw v old = Some (Some v)"

subsection \<open>Structs\<close>

type_synonym 'a fields = "(string \<times> (json \<Rightarrow> 'a \<Rightarrow> 'a option)) list"

definition field_of :: "'a fields \<Rightarrow> string \<Rightarrow> (json \<Rightarrow> 'a \<Rightarrow> 'a option) option" where
  "field_of fs key =
     (case map_of fs key of
        Some f \<Rightarrow> Some f
      | None \<Rightarrow> map_of (map (\<lambda>(n, f). (fold_name n, f)) fs) (fold_name key))"

fun into_fields :: "'a fields \<Rightarrow> (string \<times> json) list \<Rightarrow> 'a \<Rightarrow> 'a option" where
  "into_fields fs [] x = Some x"
| "into_fields fs ((key, v) # ms) x =
     (case field_of fs key of
        None \<Rightarrow> into_fields fs ms x
      | Some f \<Rightarrow> (case f v x of None \<Rightarrow> None | Some x' \<Rightarrow> into_fields fs ms x'))"

fun into_struct :: "'a fields \<Rightarrow> json \<Rightarrow> 'a \<Rightarrow> 'a option" where
  "into_struct fs JNull x = Some x"
| "into_struct fs (JObject ms) x = into_fields fs ms x"
| "into_struct fs _ x = None"

end
