(* ===== verification/Go_Fmt.thy ===== *)
theory Go_Fmt
  imports Go_Json Go_Encoding
begin

text \<open>
  What the program uses of \<open>strconv\<close> and \<open>fmt\<close> to write a number: \<open>FormatInt\<close> in base ten, which \<open>%d\<close>
  writes too, the padding of \<open>%06d\<close>, and \<open>strings.TrimRight\<close> of zeros. What was written reads back.
\<close>

definition digit_char :: "nat \<Rightarrow> char" where
  "digit_char n = char_of (48 + n)"

fun nat_digits :: "nat \<Rightarrow> string" where
  "nat_digits n = (if n < 10 then [digit_char n] else nat_digits (n div 10) @ [digit_char (n mod 10)])"

declare nat_digits.simps [simp del]

definition format_int :: "int \<Rightarrow> string" where
  "format_int i = (if i < 0 then CHR ''-'' # nat_digits (nat (- i)) else nat_digits (nat i))"

definition format_int_padded :: "nat \<Rightarrow> int \<Rightarrow> string" where
  "format_int_padded width i =
     (let sign = (if i < 0 then ''-'' else ''''); ds = nat_digits (nat \<bar>i\<bar>) in
      sign @ replicate (width - length sign - length ds) (CHR ''0'') @ ds)"

definition trim_right_zeros :: "string \<Rightarrow> string" where
  "trim_right_zeros s = rev (dropWhile (\<lambda>c. c = CHR ''0'') (rev s))"

subsection \<open>Reading back\<close>

lemma digit_value: "n < 10 \<Longrightarrow> int (of_char (digit_char n)) - 48 = int n"
  by (simp add: digit_char_def)

lemma is_digit_char: "n < 10 \<Longrightarrow> is_digit (digit_char n)"
proof -
  have "\<forall>n \<in> {0..<10}. is_digit (digit_char n)" by code_simp
  then show "n < 10 \<Longrightarrow> is_digit (digit_char n)" by simp
qed

lemma digits_value_snoc: "digits_value (s @ [c]) = 10 * digits_value s + (int (of_char c) - 48)"
  by (simp add: digits_value_def)

lemma digits_value_append: "digits_value (s @ t) = digits_value s * 10 ^ length t + digits_value t"
proof (induction t rule: rev_induct)
  case (snoc c t)
  then show ?case unfolding append_assoc [symmetric] digits_value_snoc by simp
qed (simp add: digits_value_def)

lemma digits_value_single [simp]: "digits_value [c] = int (of_char c) - 48"
  by (simp add: digits_value_def)

lemma digits_value_Nil [simp]: "digits_value [] = 0"
  by (simp add: digits_value_def)

lemma nat_digits_props: "digits_value (nat_digits n) = int n" "list_all is_digit (nat_digits n)" "nat_digits n \<noteq> []"
proof (induction n rule: nat_digits.induct)
  case (1 n)
  {
    case 1
    show ?case
      using "1.IH"(1) digit_value [of "n mod 10"]
      by (cases "n < 10")
        (simp_all add: nat_digits.simps [of n] digit_value digits_value_append zdiv_int zmod_int)
  next
    case 2
    show ?case using "1.IH"(2) by (cases "n < 10") (simp_all add: nat_digits.simps [of n] is_digit_char)
  next
    case 3
    show ?case by (simp add: nat_digits.simps [of n])
  }
qed

lemma digits_value_zeros [simp]: "digits_value (replicate n (CHR ''0'')) = 0"
  by (induction n) (simp_all add: replicate_append_same [symmetric] digits_value_append del: replicate_append_same)

lemma parse_format_int:
  assumes "- (2 ^ 63) \<le> i" "i < 2 ^ 63"
  shows "parse_int (format_int i) = Some i"
proof (cases "i < 0")
  case True
  with assms nat_digits_props [of "nat (- i)"] show ?thesis by (simp add: parse_int_def format_int_def Let_def)
next
  case False
  note ds = nat_digits_props [of "nat i"]
  have "\<not> is_digit (CHR ''-'')" by (simp add: is_digit_def)
  with ds(2,3) obtain c cs where c: "nat_digits (nat i) = c # cs" "c \<noteq> CHR ''-''"
    by (cases "nat_digits (nat i)") auto
  with False assms ds show ?thesis by (simp add: parse_int_def format_int_def Let_def)
qed

lemma nat_digits_len: "n < 10 ^ k \<Longrightarrow> 0 < k \<Longrightarrow> length (nat_digits n) \<le> k"
proof (induction k arbitrary: n)
  case (Suc k)
  show ?case
  proof (cases "n < 10")
    case False
    then have "n div 10 < 10 ^ k" "0 < k" using Suc.prems(1) by (auto intro: gr0I)
    with Suc.IH False show ?thesis by (simp add: nat_digits.simps [of n])
  qed (simp add: nat_digits.simps [of n])
qed simp

lemma format_int_padded_length: "n < 10 ^ k \<Longrightarrow> 0 < k \<Longrightarrow> length (format_int_padded k (int n)) = k"
  using nat_digits_len [of n k] by (simp add: format_int_padded_def Let_def)

lemma digits_value_padded: "0 \<le> i \<Longrightarrow> digits_value (format_int_padded k i) = i"
  using nat_digits_props(1) [of "nat i"] by (simp add: format_int_padded_def Let_def digits_value_append)

lemma trim_right_zeros_split: "\<exists>n. s = trim_right_zeros s @ replicate n (CHR ''0'')"
proof -
  let ?z = "takeWhile (\<lambda>c. c = CHR ''0'') (rev s)"
  have "rev s = ?z @ dropWhile (\<lambda>c. c = CHR ''0'') (rev s)" by simp
  moreover have "?z = replicate (length ?z) (CHR ''0'')"
    by (rule replicate_length_same [symmetric]) (auto dest: set_takeWhileD)
  ultimately have "rev s = replicate (length ?z) (CHR ''0'') @ rev (trim_right_zeros s)"
    by (simp add: trim_right_zeros_def)
  then have "s = trim_right_zeros s @ rev (replicate (length ?z) (CHR ''0''))"
    by (metis rev_append rev_rev_ident)
  then show ?thesis by (auto simp: rev_replicate)
qed

lemma trim_right_zeros_last: "trim_right_zeros s = [] \<or> last (trim_right_zeros s) \<noteq> CHR ''0''"
  using hd_dropWhile [of "\<lambda>c. c = CHR ''0''" "rev s"] by (auto simp: trim_right_zeros_def last_rev)

subsection \<open>Quoted text\<close>

text \<open>
  \<open>strconv.Quote\<close> (\<open>%q\<close>) of ASCII text: the quote, the backslash and what is not printable
  are escaped.
\<close>

definition quote_char :: "char \<Rightarrow> string" where
  "quote_char c =
     (if c = CHR 0x22 \<or> c = CHR 0x5C then [CHR 0x5C, c]
      else if 0x20 \<le> (of_char c :: nat) \<and> of_char c < (0x7F :: nat) then [c]
      else (case map_of [(CHR 0x07, CHR ''a''), (CHR 0x08, CHR ''b''), (CHR 0x0C, CHR ''f''), (CHR 0x0A, CHR ''n''),
                (CHR 0x0D, CHR ''r''), (CHR 0x09, CHR ''t''), (CHR 0x0B, CHR ''v'')] c of
              Some e \<Rightarrow> [CHR 0x5C, e]
            | None \<Rightarrow> [CHR 0x5C, CHR ''x'', hex_digit (of_char c div 16), hex_digit (of_char c mod 16)]))"

definition strconv_quote :: "string \<Rightarrow> string" where
  "strconv_quote s = CHR 0x22 # concat (map quote_char s) @ [CHR 0x22]"

end
