(* ===== verification/Go_Values.thy ===== *)
theory Go_Values
  imports X402_Types Go_Fmt
begin

text \<open>
  The text of errors: what \<open>fmt\<close> writes of a value decoded from JSON, and what \<open>encoding/base64\<close> and
  \<open>encoding/hex\<close> say of text they do not decode.

  \<open>%T\<close> is the type's name. \<open>%v\<close> writes a map with its keys sorted and a float64 in the fewest digits
  that read back as it, in scientific form when the exponent is below -4 or at least 6. The two zeros
  are one value here, so -0 is written 0.
\<close>

subsection \<open>Floats\<close>

text \<open>The exponent \<open>e\<close> with \<open>10 ^ e \<le> x < 10 ^ (e + 1)\<close>, for a positive \<open>x\<close>.\<close>

lemma floor_tenth_less: "10 \<le> (x::rat) \<Longrightarrow> \<lfloor>x / 10\<rfloor> < \<lfloor>x\<rfloor>"
  by linarith

lemma floor_inverse_tenth_less:
  assumes "0 < (x::rat)" "x < 1"
  shows "\<lfloor>1 / (10 * x)\<rfloor> < \<lfloor>1 / x\<rfloor>"
proof -
  define y where "y = 1 / (10 * x)"
  have "1 / x = 10 * y" "1 < 1 / x" using assms by (simp_all add: y_def)
  moreover have "of_int (\<lfloor>y\<rfloor> + 1) \<le> 10 * y"
    using of_int_floor_le [of y] calculation by (cases "\<lfloor>y\<rfloor> \<le> 0") linarith+
  ultimately have "\<lfloor>y\<rfloor> + 1 \<le> \<lfloor>1 / x\<rfloor>" by (simp only: le_floor_iff)
  then have "\<lfloor>y\<rfloor> < \<lfloor>1 / x\<rfloor>" by simp
  then show ?thesis by (simp add: y_def)
qed

function decade :: "rat \<Rightarrow> int" where
  "decade x = (if 10 \<le> x then decade (x / 10) + 1
     else if 0 < x \<and> x < 1 then decade (10 * x) - 1
     else 0)"
  by pat_completeness auto

termination
  by (relation "measures [\<lambda>x. if 0 < x \<and> x < 1 then nat \<lfloor>1 / x\<rfloor> else 0, \<lambda>x. nat \<lfloor>x\<rfloor>]")
    (auto intro: floor_tenth_less floor_inverse_tenth_less)

declare decade.simps [simp del]

text \<open>
  The digits of a positive \<open>x\<close> and where its point stands (\<open>0.d1d2... * 10 ^ p\<close>): of the numbers of \<open>n\<close>
  digits next to \<open>x\<close> those that round to it, the nearest; \<open>n\<close> is the least with any. Seventeen always do.
\<close>

definition reads_back :: "rat \<Rightarrow> int \<Rightarrow> int \<Rightarrow> bool" where
  "reads_back x e c = (f_round (of_int c * 10 powi e) = Fin x)"

definition near_digits :: "rat \<Rightarrow> nat \<Rightarrow> int option" where
  "near_digits x n =
     (let e = decade x - int n + 1; q = x * 10 powi (- e); near = rne q; lo = \<lfloor>q\<rfloor>; hi = lo + 1 in
      if reads_back x e near then Some near
      else if reads_back x e lo then Some lo
      else if reads_back x e hi then Some hi
      else None)"

fun shortest :: "nat \<Rightarrow> nat \<Rightarrow> rat \<Rightarrow> nat \<times> int" where
  "shortest 0 n x = (n, rne (x * 10 powi (int n - 1 - decade x)))"
| "shortest (Suc fuel) n x =
     (case near_digits x n of Some c \<Rightarrow> (n, c) | None \<Rightarrow> shortest fuel (Suc n) x)"

definition decimal_digits :: "rat \<Rightarrow> string \<times> int" where
  "decimal_digits x =
     (let (n, c) = shortest 16 1 x; ds = nat_digits (nat c) in
      (trim_right_zeros ds, int (length ds) + decade x - int n + 1))"

text \<open>\<open>%e\<close> and \<open>%f\<close> of the digits \<open>ds\<close> with the point after the first \<open>p\<close> of them.\<close>

definition write_e :: "string \<Rightarrow> int \<Rightarrow> string" where
  "write_e ds p =
     (let e = p - 1; es = nat_digits (nat \<bar>e\<bar>) in
      take 1 ds @ (if length ds \<le> 1 then '''' else CHR ''.'' # drop 1 ds) @
      (if e < 0 then ''e-'' else ''e+'') @ (if length es < 2 then ''0'' @ es else es))"

definition write_f :: "string \<Rightarrow> int \<Rightarrow> string" where
  "write_f ds p =
     (let whole = (if p \<le> 0 then ''0'' else take (nat p) ds @ replicate (nat p - length ds) (CHR ''0''));
          frac = (if p \<le> 0 then replicate (nat (- p)) (CHR ''0'') @ ds else drop (nat p) ds) in
      whole @ (if frac = '''' then '''' else CHR ''.'' # frac))"

definition format_float :: "float64 \<Rightarrow> string" where
  "format_float x =
     (case x of
        NaN \<Rightarrow> ''NaN''
      | Inf neg \<Rightarrow> if neg then ''-Inf'' else ''+Inf''
      | Fin q \<Rightarrow>
          if q = 0 then ''0''
          else (let (ds, p) = decimal_digits \<bar>q\<bar> in
            (if q < 0 then ''-'' else '''') @
            (if p - 1 < -4 \<or> 6 \<le> p - 1 then write_e ds p else write_f ds p)))"

subsection \<open>Values of an interface\<close>

text \<open>\<open>%T\<close>.\<close>

fun type_name :: "any_value \<Rightarrow> string" where
  "type_name AnyNil = ''<nil>''"
| "type_name (AnyString s) = ''string''"
| "type_name (AnyBool b) = ''bool''"
| "type_name (AnyNumber x) = ''float64''"
| "type_name (AnySlice vs) = ''[]interface {}''"
| "type_name (AnyMap m) = ''map[string]interface {}''"

fun string_less :: "string \<Rightarrow> string \<Rightarrow> bool" where
  "string_less s [] = False"
| "string_less [] (c # t) = True"
| "string_less (b # s) (c # t) = ((of_char b :: nat) < of_char c \<or> b = c \<and> string_less s t)"

fun insert_key :: "string \<times> 'a \<Rightarrow> (string \<times> 'a) list \<Rightarrow> (string \<times> 'a) list" where
  "insert_key kv [] = [kv]"
| "insert_key kv (x # xs) = (if string_less (fst x) (fst kv) then x # insert_key kv xs else kv # x # xs)"

fun spaced :: "string list \<Rightarrow> string" where
  "spaced [] = ''''"
| "spaced [s] = s"
| "spaced (s # ss) = s @ '' '' @ spaced ss"

text \<open>\<open>%v\<close>. The keys of a map are put in order with what was written of their values.\<close>

fun show_any :: "any_value \<Rightarrow> string" where
  "show_any AnyNil = ''<nil>''"
| "show_any (AnyString s) = s"
| "show_any (AnyBool b) = (if b then ''true'' else ''false'')"
| "show_any (AnyNumber x) = format_float x"
| "show_any (AnySlice vs) = ''['' @ spaced (map show_any vs) @ '']''"
| "show_any (AnyMap m) =
     ''map['' @ spaced (map (\<lambda>(k, v). k @ '':'' @ v)
       (foldr insert_key (map (\<lambda>(k, v). (k, show_any v)) m) [])) @ '']''"

subsection \<open>Text that does not decode\<close>

text \<open>
  Where \<open>base64.StdEncoding\<close> says text is corrupt: \<open>decodeQuantum\<close>, with the index \<open>i\<close> it has reached
  in the text and the \<open>j\<close> characters of the quantum it has read. The text ends within a quantum, a
  character is not of the alphabet, the padding stands too early or is not complete, or something
  follows it.
\<close>

definition newline :: "char \<Rightarrow> bool" where
  "newline c = (c = CHR 0x0A \<or> c = CHR 0x0D)"

definition after_newlines :: "nat \<Rightarrow> string \<Rightarrow> nat \<times> string" where
  "after_newlines i s = (i + length (takeWhile newline s), dropWhile newline s)"

definition after_padding :: "nat \<Rightarrow> string \<Rightarrow> nat option" where
  "after_padding i s = (let (k, r) = after_newlines i s in if r = [] then None else Some k)"

fun corrupt_at :: "nat \<Rightarrow> nat \<Rightarrow> string \<Rightarrow> nat option" where
  "corrupt_at i j [] = (if j = 0 then None else Some (i - j))"
| "corrupt_at i j (c # s) =
     (if b64_val c \<noteq> None then corrupt_at (Suc i) (if j = 3 then 0 else Suc j) s
      else if newline c then corrupt_at (Suc i) j s
      else if c \<noteq> CHR ''='' then Some i
      else if j < 2 then Some i
      else if j = 2 then
        (let (k, r) = after_newlines (Suc i) s in
         case r of
           [] \<Rightarrow> Some k
         | d # r' \<Rightarrow> if d \<noteq> CHR ''='' then Some (k - 1) else after_padding (Suc k) r')
      else after_padding (Suc i) s)"

definition base64_error :: "string \<Rightarrow> go_error" where
  "base64_error s =
     ErrorString (''illegal base64 data at input byte '' @
       format_int (int (case corrupt_at 0 0 s of Some k \<Rightarrow> k | None \<Rightarrow> 0)))"

text \<open>\<open>hex.InvalidByteError\<close> writes the byte as a rune, \<open>%#U\<close>, and \<open>hex.ErrLength\<close> comes last.\<close>

definition latin1_printable :: "nat \<Rightarrow> bool" where
  "latin1_printable n = (32 \<le> n \<and> n < 127 \<or> 161 \<le> n \<and> n \<noteq> 173)"

definition upper_hex :: "nat \<Rightarrow> char" where
  "upper_hex n = (if n < 10 then char_of (48 + n) else char_of (55 + n))"

definition show_rune :: "char \<Rightarrow> string" where
  "show_rune c =
     (let n = of_char c :: nat in
      ''U+00'' @ [upper_hex (n div 16), upper_hex (n mod 16)] @
      (if \<not> latin1_printable n then ''''
       else '' '' @ [CHR 0x27] @ (if n < 128 then [c] else [char_of (192 + n div 64), char_of (128 + n mod 64)]) @ [CHR 0x27]))"

definition hex_error :: "string \<Rightarrow> go_error" where
  "hex_error s =
     ErrorString (case filter (\<lambda>c. hex_val c = None) s of
        c # _ \<Rightarrow> ''encoding/hex: invalid byte: '' @ show_rune c
      | [] \<Rightarrow> ''encoding/hex: odd length hex string'')"

text \<open>
  The loop over the text as it stands and \<open>b64_decode\<close>, which drops the line ends first, refuse the
  same texts.
\<close>

lemma newline_not_digit: "newline c \<Longrightarrow> b64_val c = None \<and> c \<noteq> CHR ''=''"
  by (auto simp: newline_def b64_val_def)

lemma after_padding_None: "after_padding i s = None \<longleftrightarrow> filter (\<lambda>c. \<not> newline c) s = []"
  by (auto simp: after_padding_def after_newlines_def filter_empty_conv dropWhile_eq_Nil_conv)

lemma after_newlines_filter:
  "after_newlines i s = (k, r) \<Longrightarrow> filter (\<lambda>c. \<not> newline c) s = filter (\<lambda>c. \<not> newline c) r \<and> (r \<noteq> [] \<longrightarrow> \<not> newline (hd r))"
proof -
  assume "after_newlines i s = (k, r)"
  then have r: "r = dropWhile newline s" by (simp add: after_newlines_def)
  have "filter (\<lambda>c. \<not> newline c) s = filter (\<lambda>c. \<not> newline c) (takeWhile newline s @ dropWhile newline s)" by simp
  also have "\<dots> = filter (\<lambda>c. \<not> newline c) (dropWhile newline s)"
    unfolding filter_append by (auto simp: filter_empty_conv dest: set_takeWhileD)
  finally show ?thesis using r hd_dropWhile [of newline s] by simp
qed

lemma after_newlines_split:
  "after_newlines i s = (k, r) \<Longrightarrow>
     (r = [] \<and> filter (\<lambda>c. \<not> newline c) s = []) \<or>
     (\<exists>d r'. r = d # r' \<and> filter (\<lambda>c. \<not> newline c) s = d # filter (\<lambda>c. \<not> newline c) r')"
  using after_newlines_filter [of i s k r] by (cases r) auto

lemma valid_digit: "b64_val c = Some n \<Longrightarrow> c \<noteq> CHR ''='' \<and> \<not> newline c"
  by (auto simp: b64_val_special newline_def)

lemma quanta_full:
  "b64_val a \<noteq> None \<Longrightarrow> b64_val b \<noteq> None \<Longrightarrow> b64_val c \<noteq> None \<Longrightarrow> b64_val d \<noteq> None \<Longrightarrow>
     b64_quanta (a # b # c # d # r) = None \<longleftrightarrow> b64_quanta r = None"
  using valid_digit by (fastforce split: option.split)

lemma quanta_stuck:
  assumes "list_all (\<lambda>c. b64_val c \<noteq> None) pre" "length pre < 4" "b64_val c = None" "c \<noteq> CHR ''='' \<or> length pre < 2"
  shows "b64_quanta (pre @ c # r) = None"
proof -
  consider "pre = []" | a where "pre = [a]" | a b where "pre = [a, b]" | a b d where "pre = [a, b, d]"
    using assms(2) by (cases pre rule: b64_quanta.cases) auto
  then show ?thesis
  proof cases
    case 1
    with assms(3) show ?thesis by (cases "c # r" rule: b64_quanta.cases) simp_all
  next
    case (2 a)
    with assms(3) show ?thesis by (cases "a # c # r" rule: b64_quanta.cases) (simp_all split: option.split)
  next
    case (3 a b)
    with assms show ?thesis by (cases "a # b # c # r" rule: b64_quanta.cases) (simp_all split: option.split)
  next
    case (4 a b d)
    with assms valid_digit show ?thesis by (auto split: option.split)
  qed
qed

lemma corrupt_at_iff:
  "list_all (\<lambda>c. b64_val c \<noteq> None) pre \<Longrightarrow> length pre = j \<Longrightarrow> j < 4 \<Longrightarrow>
     corrupt_at i j s = None \<longleftrightarrow> b64_quanta (pre @ filter (\<lambda>c. \<not> newline c) s) \<noteq> None"
proof (induction s arbitrary: i j pre)
  case Nil
  then show ?case by (cases pre rule: b64_quanta.cases) auto
next
  case (Cons c s)
  consider (digit) "b64_val c \<noteq> None" | (line) "newline c" | (junk) "b64_val c = None" "\<not> newline c" "c \<noteq> CHR ''='' \<or> j < 2"
    | (pad2) "c = CHR ''=''" "j = 2" | (pad3) "c = CHR ''=''" "j = 3"
    using Cons.prems(3) by fastforce
  then show ?case
  proof cases
    case digit
    then have c: "\<not> newline c" using valid_digit by blast
    show ?thesis
    proof (cases "j = 3")
      case True
      with Cons.prems obtain a b d where pre: "pre = [a, b, d]" by (auto simp: length_Suc_conv numeral_eq_Suc)
      have "corrupt_at (Suc i) 0 s = None \<longleftrightarrow> b64_quanta (filter (\<lambda>c. \<not> newline c) s) \<noteq> None"
        using Cons.IH [of "[]"] by simp
      with True digit c Cons.prems(1) show ?thesis
        using quanta_full [of a b d c "filter (\<lambda>c. \<not> newline c) s"] by (simp add: pre del: b64_quanta.simps)
    next
      case False
      with Cons.IH [of "pre @ [c]" "Suc j" "Suc i"] Cons.prems digit c show ?thesis by simp
    qed
  next
    case line
    with newline_not_digit Cons show ?thesis by simp
  next
    case junk
    with Cons.prems show ?thesis
      using quanta_stuck [of pre c "filter (\<lambda>c. \<not> newline c) s"] by auto
  next
    case pad2
    then have c: "\<not> newline c" "b64_val c = None" by (simp_all add: newline_def b64_val_special)
    from pad2 Cons.prems obtain a b where pre: "pre = [a, b]" by (auto simp: length_Suc_conv numeral_eq_Suc)
    obtain k r where kr: "after_newlines (Suc i) s = (k, r)" by fastforce
    from after_newlines_split [OF this] show ?thesis
    proof (elim disjE exE conjE)
      assume "r = []" "filter (\<lambda>c. \<not> newline c) s = []"
      with pad2 c pre kr Cons.prems(1) show ?thesis by (simp split: option.split)
    next
      fix d r' assume "r = d # r'" "filter (\<lambda>c. \<not> newline c) s = d # filter (\<lambda>c. \<not> newline c) r'"
      with pad2 c pre kr Cons.prems(1) show ?thesis
        by (auto simp: after_padding_None split: option.split)
    qed
  next
    case pad3
    then have c: "\<not> newline c" "b64_val c = None" by (simp_all add: newline_def b64_val_special)
    from pad3 Cons.prems obtain a b d where pre: "pre = [a, b, d]" by (auto simp: length_Suc_conv numeral_eq_Suc)
    with pad3 c Cons.prems(1) valid_digit show ?thesis
      by (auto simp: after_padding_None split: option.split)
  qed
qed

theorem corrupt_iff_refused: "corrupt_at 0 0 s = None \<longleftrightarrow> b64_decode s \<noteq> None"
proof -
  have "(\<lambda>c. \<not> newline c) = (\<lambda>c. c \<noteq> CHR 0x0A \<and> c \<noteq> CHR 0x0D)" by (auto simp: newline_def)
  with corrupt_at_iff [of "[]" 0 0 s] show ?thesis by (simp add: b64_decode_def)
qed

end
