(* ===== verification/Scheme_Rules.thy ===== *)
theory Scheme_Rules
  imports Go_Values
begin

text \<open>
  \<open>internal/scheme/scheme.go\<close>: the rules of gno's exact mechanism that the payer and the
  facilitator both enforce. A nil error is \<open>None\<close>.

  Go's \<open>$\<close> matches at the end of the text only, so the anchored expression is a length and a
  character class.
\<close>

definition AssetTransferMethod :: string where
  "AssetTransferMethod = ''bank-send''"

definition MaxMemoBytes :: nat where
  "MaxMemoBytes = 256"

definition chainIDReference :: "string \<Rightarrow> bool" where
  "chainIDReference s = (1 \<le> length s \<and> length s \<le> 32 \<and>
     list_all (\<lambda>c. c = CHR ''-'' \<or> c = CHR ''_'' \<or> is_lower c \<or> is_upper c \<or> is_digit c) s)"

definition ValidChainID :: "string \<Rightarrow> go_error option" where
  "ValidChainID chainID = (if \<not> chainIDReference chainID
     then Some (ErrorString (''chain id '' @ strconv_quote chainID @
       '' cannot name a CAIP-2 network: want 1 to 32 of [-_a-zA-Z0-9]''))
     else None)"

lemma ValidChainID_None: "ValidChainID s = None \<longleftrightarrow> chainIDReference s"
  by (simp add: ValidChainID_def)

lemma colon_class:
  "\<not> is_lower (CHR '':'')" "\<not> is_upper (CHR '':'')" "\<not> is_digit (CHR '':'')"
  by (simp_all add: char_class_defs)

lemma chainIDReference_no_colon: "chainIDReference s \<Longrightarrow> CHR '':'' \<notin> set s"
  using colon_class unfolding chainIDReference_def list_all_iff by force

lemma chainIDReference_not_Nil: "chainIDReference s \<Longrightarrow> s \<noteq> []"
  by (auto simp: chainIDReference_def)

end
