(* ===== verification/Signer_Account.thy ===== *)
theory Signer_Account
  imports Scheme_Rules
begin

text \<open>
  \<open>facilitator/exact/account.go\<close>: what a transaction's signature proves against the signer's
  on-chain account. A \<open>SignerAccount\<close> is the account it wraps, \<open>None\<close> when that is nil; account
  numbers and sequences are uint64.

  \<open>verifySignature\<close> reads \<open>tx.Signatures[0]\<close>; its only caller has \<open>txSigner\<close> refuse any other number
  of signatures first.
\<close>

definition pubKey :: "'pk std_account option \<Rightarrow> 'pk option" where
  "pubKey acc = (case acc of None \<Rightarrow> None | Some a \<Rightarrow> acc_pub_key a)"

definition sequence :: "'pk std_account option \<Rightarrow> u64" where
  "sequence acc = (case acc of None \<Rightarrow> 0 | Some a \<Rightarrow> acc_sequence a)"

definition number :: "'pk std_account option \<Rightarrow> u64" where
  "number acc = (case acc of None \<Rightarrow> 0 | Some a \<Rightarrow> acc_number a)"

datatype signature_state = SignatureFresh | SignatureConsumed | SignatureUnverifiable

definition txSigner :: "'pk gno_lib \<Rightarrow> 'pk std_tx \<Rightarrow> go_error + address" where
  "txSigner lib tx = (let signers = get_signers lib tx in
     if length signers \<noteq> 1 \<or> length (tx_signatures tx) \<noteq> 1
     then Inl (ErrorString ''payment must carry exactly one signer and one signature'')
     else Inr (signers ! 0))"

definition signingKey :: "'pk gno_lib \<Rightarrow> 'pk std_signature \<Rightarrow> 'pk std_account option \<Rightarrow> address \<Rightarrow> 'pk option" where
  "signingKey lib sig acc signer =
     (case pubKey acc of
        Some stored \<Rightarrow>
          (case sig_pub_key sig of
             Some pk \<Rightarrow> if \<not> pk_equals lib stored pk then None else Some stored
           | None \<Rightarrow> Some stored)
      | None \<Rightarrow>
          (case sig_pub_key sig of
             None \<Rightarrow> None
           | Some pk \<Rightarrow> if pk_address lib pk \<noteq> signer then None else Some pk))"

text \<open>The closure \<open>verifies\<close> of \<open>verifySignature\<close>, over the key it captures.\<close>

definition verifies :: "'pk gno_lib \<Rightarrow> 'pk \<Rightarrow> 'pk std_tx \<Rightarrow> 'pk std_account option \<Rightarrow> string \<Rightarrow> u64 \<Rightarrow> bool" where
  "verifies lib key tx acc chainID seq =
     (case verify_payload lib key tx chainID (number acc) seq (sig_bytes (tx_signatures tx ! 0)) of
        Inl err \<Rightarrow> False
      | Inr r \<Rightarrow> r \<noteq> PayloadRenderingNone)"

definition verifySignature ::
    "'pk gno_lib \<Rightarrow> 'pk std_tx \<Rightarrow> 'pk std_account option \<Rightarrow> address \<Rightarrow> string \<Rightarrow> signature_state" where
  "verifySignature lib tx acc signer chainID =
     (if acc = None then SignatureUnverifiable
      else case signingKey lib (tx_signatures tx ! 0) acc signer of
        None \<Rightarrow> SignatureUnverifiable
      | Some key \<Rightarrow>
          if verifies lib key tx acc chainID (sequence acc) then SignatureFresh
          else let seq = sequence acc in
            if 0 < seq \<and> verifies lib key tx acc chainID (seq - 1) then SignatureConsumed
            else SignatureUnverifiable)"

subsection \<open>Which key may sign\<close>

text \<open>
  The key a signature is verified against is the one the account stores, whenever it stores one
  and the signature names no other; an account that has never signed adopts the signature's own
  key, and then only when that key derives the signer's address. In every other case no key will do.
\<close>

theorem signingKey_iff:
  "signingKey lib sig acc signer = Some key \<longleftrightarrow>
     (pubKey acc = Some key \<and> (sig_pub_key sig = None \<or> pk_equals lib key (the (sig_pub_key sig)))) \<or>
     (pubKey acc = None \<and> sig_pub_key sig = Some key \<and> pk_address lib key = signer)"
  by (auto simp: signingKey_def split: option.splits)

lemma verifySignature_Fresh_iff:
  "verifySignature lib tx acc signer chainID = SignatureFresh \<longleftrightarrow>
     acc \<noteq> None \<and> (\<exists>key. signingKey lib (tx_signatures tx ! 0) acc signer = Some key \<and>
       verifies lib key tx acc chainID (sequence acc))"
  by (auto simp: verifySignature_def Let_def split: option.splits)

lemma verifySignature_Consumed_iff:
  "verifySignature lib tx acc signer chainID = SignatureConsumed \<longleftrightarrow>
     acc \<noteq> None \<and> 0 < sequence acc \<and>
     (\<exists>key. signingKey lib (tx_signatures tx ! 0) acc signer = Some key \<and>
       \<not> verifies lib key tx acc chainID (sequence acc) \<and>
       verifies lib key tx acc chainID (sequence acc - 1))"
  by (auto simp: verifySignature_def Let_def split: option.splits)

lemma prev_unat:
  assumes "q \<noteq> 0"
  shows "unat (q - 1) + 1 = unat (q :: u64)"
proof -
  have "0 < unat q" using assms unat_gt_0 by blast
  moreover have "unat (q - 1) = unat q - 1" using assms by (rule unat_minus_one)
  ultimately show ?thesis by linarith
qed

lemma prev_unat_0: "unat ((0::u64) - 1) + 1 \<noteq> unat (0::u64)"
  by simp

text \<open>
  A signature is reported consumed exactly when the account's key does not verify it at the
  account's sequence and does verify it at the sequence just before, which is one less as a number:
  an account at sequence 0 has no earlier one, so the uint64 is never wrapped around to probe it.
\<close>

theorem consumed_is_previous_sequence:
  "verifySignature lib tx acc signer chainID = SignatureConsumed \<longleftrightarrow>
     (\<exists>a key. acc = Some a \<and> unat (acc_sequence a - 1) + 1 = unat (acc_sequence a) \<and>
        signingKey lib (tx_signatures tx ! 0) acc signer = Some key \<and>
        \<not> verifies lib key tx acc chainID (acc_sequence a) \<and>
        verifies lib key tx acc chainID (acc_sequence a - 1))"
proof -
  have prev: "unat (q - 1) + 1 = unat q \<longleftrightarrow> 0 < q" for q :: u64
    by (metis prev_unat prev_unat_0 word_gt_0)
  show ?thesis
    unfolding prev verifySignature_Consumed_iff sequence_def by auto
qed

end
