(* ===== verification/Verify_Static.thy ===== *)
theory Verify_Static
  imports Signer_Account
begin

text \<open>
  \<open>facilitator/exact/verify.go\<close>: the reason codes, and the rules decidable from the transaction's
  bytes alone. \<open>verifyStatic\<close> returns the reason of the first rule that fails (\<open>Inl\<close>), or the
  decoded transaction and the payer it claims. With it \<open>memo\<close> of facilitator.go, the one reader of
  \<open>extra.memo\<close>.
\<close>

definition ReasonMalformedTransaction :: string where
  "ReasonMalformedTransaction = ''invalid_exact_gno_payload_transaction_could_not_be_decoded''"
definition ReasonUnexpectedMessage :: string where
  "ReasonUnexpectedMessage = ''invalid_exact_gno_payload_unexpected_message''"
definition ReasonSignatureCount :: string where
  "ReasonSignatureCount = ''invalid_exact_gno_payload_signature_count''"
definition ReasonRecipientMismatch :: string where
  "ReasonRecipientMismatch = ''invalid_exact_gno_payload_recipient_mismatch''"
definition ReasonAmountMismatch :: string where
  "ReasonAmountMismatch = ''invalid_exact_gno_payload_amount_mismatch''"
definition ReasonMemoMismatch :: string where
  "ReasonMemoMismatch = ''invalid_exact_gno_payload_memo_mismatch''"
definition ReasonSimulationFailed :: string where
  "ReasonSimulationFailed = ''invalid_exact_gno_transaction_simulation_failed''"
definition ReasonBroadcastFailed :: string where
  "ReasonBroadcastFailed = ''invalid_exact_gno_transaction_failed''"
definition ReasonSignatureInvalid :: string where
  "ReasonSignatureInvalid = ''invalid_exact_gno_payload_signature_invalid''"
definition ReasonSequenceMismatch :: string where
  "ReasonSequenceMismatch = ''invalid_exact_gno_payload_sequence_mismatch''"
definition ReasonInvalidPayload :: string where
  "ReasonInvalidPayload = ''invalid_payload''"
definition ReasonInvalidVersion :: string where
  "ReasonInvalidVersion = ''invalid_x402_version''"
definition ReasonInvalidNetwork :: string where
  "ReasonInvalidNetwork = ''invalid_network''"
definition ReasonInvalidRequirements :: string where
  "ReasonInvalidRequirements = ''invalid_payment_requirements''"
definition ReasonUnsupportedScheme :: string where
  "ReasonUnsupportedScheme = ''unsupported_scheme''"
definition ReasonUnexpectedSettleError :: string where
  "ReasonUnexpectedSettleError = ''unexpected_settle_error''"
definition ReasonDuplicateSettlement :: string where
  "ReasonDuplicateSettlement = ''duplicate_settlement''"

lemmas reason_defs = ReasonMalformedTransaction_def ReasonUnexpectedMessage_def
  ReasonSignatureCount_def ReasonRecipientMismatch_def ReasonAmountMismatch_def
  ReasonMemoMismatch_def ReasonSimulationFailed_def ReasonBroadcastFailed_def
  ReasonSignatureInvalid_def ReasonSequenceMismatch_def ReasonInvalidPayload_def
  ReasonInvalidVersion_def ReasonInvalidNetwork_def ReasonInvalidRequirements_def
  ReasonUnsupportedScheme_def ReasonUnexpectedSettleError_def ReasonDuplicateSettlement_def

subsection \<open>The rules\<close>

definition memo :: "any_map \<Rightarrow> go_error + string" where
  "memo extra =
     (case any_get extra ''memo'' of
        None \<Rightarrow> Inr ''''
      | Some v \<Rightarrow>
          (case v of
             AnyString m \<Rightarrow>
               if MaxMemoBytes < length m
               then Inl (ErrorString (''x402: extra.memo is '' @ format_int (int (length m)) @
                 '' bytes, exceeding the '' @ format_int (int MaxMemoBytes) @ ''-byte maximum''))
               else Inr m
           | _ \<Rightarrow> Inl (ErrorString (''x402: extra.memo is '' @ type_name v @ '', want string''))))"

definition verifyStatic ::
    "'pk gno_lib \<Rightarrow> requirements \<Rightarrow> bytes \<Rightarrow> string + ('pk std_tx \<times> string)" where
  "verifyStatic lib req raw =
     (if length raw = 0 then Inl ReasonMalformedTransaction
      else case unmarshal_tx lib raw of
        None \<Rightarrow> Inl ReasonMalformedTransaction
      | Some decoded \<Rightarrow>
          if length (tx_signatures decoded) \<noteq> 1 then Inl ReasonSignatureCount
          else if (case sig_pub_key (tx_signatures decoded ! 0) of None \<Rightarrow> False | Some pk \<Rightarrow> pk_multisig lib pk)
          then Inl ReasonSignatureCount
          else if length (tx_msgs decoded) \<noteq> 1 then Inl ReasonUnexpectedMessage
          else case tx_msgs decoded ! 0 of
            OtherMsg t \<Rightarrow> Inl ReasonUnexpectedMessage
          | BankSend send \<Rightarrow>
              if address_string lib (to_address send) \<noteq> req_pay_to req then Inl ReasonRecipientMismatch
              else case parse_coins lib (req_amount req @ req_asset req) of
                Inl err \<Rightarrow> Inl ReasonAmountMismatch
              | Inr want \<Rightarrow>
                  if length want \<noteq> 1 \<or> length (send_amount send) \<noteq> 1 \<or> send_amount send ! 0 \<noteq> want ! 0
                  then Inl ReasonAmountMismatch
                  else case memo (req_extra req) of
                    Inl err \<Rightarrow> Inl ReasonInvalidRequirements
                  | Inr bound \<Rightarrow>
                      if bound \<noteq> '''' \<and> tx_memo decoded \<noteq> bound then Inl ReasonMemoMismatch
                      else Inr (decoded, address_string lib (from_address send)))"

definition VerifyStatic ::
    "'pk gno_lib \<Rightarrow> requirements \<Rightarrow> string \<Rightarrow> string + ('pk std_tx \<times> string)" where
  "VerifyStatic lib req transaction =
     (case b64_decode transaction of
        None \<Rightarrow> Inl ReasonMalformedTransaction
      | Some raw \<Rightarrow> verifyStatic lib req raw)"

subsection \<open>What a statically valid payment is\<close>

text \<open>
  The contract of \<open>VerifyStatic\<close>: the bytes decode to one bank send, of exactly the one coin the
  offer prices, to the payee it names, carrying the memo it binds, under one signature whose key is
  not a threshold key.
\<close>

definition static_rules :: "'pk gno_lib \<Rightarrow> requirements \<Rightarrow> bytes \<Rightarrow> 'pk std_tx \<Rightarrow> msg_send \<Rightarrow> bool" where
  "static_rules lib req raw tx send \<longleftrightarrow>
     raw \<noteq> [] \<and> unmarshal_tx lib raw = Some tx \<and>
     (\<exists>sig. tx_signatures tx = [sig] \<and> (\<forall>pk. sig_pub_key sig = Some pk \<longrightarrow> \<not> pk_multisig lib pk)) \<and>
     tx_msgs tx = [BankSend send] \<and>
     address_string lib (to_address send) = req_pay_to req \<and>
     (\<exists>price. parse_coins lib (req_amount req @ req_asset req) = Inr [price] \<and> send_amount send = [price]) \<and>
     (\<exists>bound. memo (req_extra req) = Inr bound \<and> (bound = '''' \<or> tx_memo tx = bound))"

text \<open>
  Static verification accepts a payment exactly when it satisfies the contract above, and then
  it returns the decoded transaction and, as the payer, the sender of its one bank send. Nothing
  else is let through, and nothing that satisfies the rules is refused.
\<close>

theorem verifyStatic_iff:
  "verifyStatic lib req raw = Inr (tx, payer) \<longleftrightarrow>
     (\<exists>send. static_rules lib req raw tx send \<and> payer = address_string lib (from_address send))"
proof
  assume "verifyStatic lib req raw = Inr (tx, payer)"
  then show "\<exists>send. static_rules lib req raw tx send \<and> payer = address_string lib (from_address send)"
    unfolding verifyStatic_def static_rules_def
    by (auto simp: length_Suc_conv split: if_splits option.splits std_msg.splits sum.splits)
next
  assume "\<exists>send. static_rules lib req raw tx send \<and> payer = address_string lib (from_address send)"
  then show "verifyStatic lib req raw = Inr (tx, payer)"
    unfolding static_rules_def verifyStatic_def by (auto split: option.splits)
qed

end
