(* ===== verification/Settlements.thy ===== *)
theory Settlements
  imports Scheme_Rules
begin

text \<open>
  \<open>facilitator/exact/settlements.go\<close>: the table of the payments a process is settling or has
  settled, keyed by transaction hash, and its four operations. Each runs under the table's mutex,
  so one call is one step; \<open>Settle_Steps\<close> interleaves them.

  The sweep of \<open>claim\<close> deletes inside a \<open>range\<close> loop; which entries it deletes does not depend on
  the order of the loop, so it is \<open>gm_keep\<close>.
\<close>

definition settlementTTL :: duration where
  "settlementTTL = 5 * minute"

datatype settlement_state = Unclaimed | Settling | Settled | Pending

record settlement =
  st_state :: settlement_state
  st_payer :: string
  st_hash :: string
  st_at :: instant

type_synonym settlements = "(string, settlement) gomap"

definition newSettlements :: settlements where
  "newSettlements = []"

text \<open>The zero \<open>settlement\<close>, which an absent key reads as.\<close>

definition unclaimed_entry :: settlement where
  "unclaimed_entry = \<lparr>st_state = Unclaimed, st_payer = '''', st_hash = '''', st_at = zero_time\<rparr>"

definition entry_at :: "settlements \<Rightarrow> string \<Rightarrow> settlement" where
  "entry_at s key = (case gm_get s key of None \<Rightarrow> unclaimed_entry | Some e \<Rightarrow> e)"

definition expired :: "instant \<Rightarrow> settlement \<Rightarrow> bool" where
  "expired now e = (st_state e \<noteq> Settling \<and> settlementTTL < dur_sub now (st_at e))"

definition claim :: "string \<Rightarrow> instant \<Rightarrow> settlements \<Rightarrow> (settlement \<times> bool) \<times> settlements" where
  "claim key now s =
     (let swept = gm_keep (\<lambda>k e. \<not> expired now e) s;
          prior = entry_at swept key in
      if st_state prior = Settling \<or> st_state prior = Settled then ((prior, False), swept)
      else ((prior, True),
        gm_put key \<lparr>st_state = Settling, st_payer = '''', st_hash = st_hash prior, st_at = st_at prior\<rparr> swept))"

definition release :: "string \<Rightarrow> settlements \<Rightarrow> settlements" where
  "release key s = gm_del key s"

definition markSettled :: "string \<Rightarrow> string \<Rightarrow> instant \<Rightarrow> settlements \<Rightarrow> settlements" where
  "markSettled key hash now s =
     gm_put key \<lparr>st_state = Settled, st_payer = '''', st_hash = hash, st_at = now\<rparr> s"

definition markPending :: "string \<Rightarrow> string \<Rightarrow> string \<Rightarrow> instant \<Rightarrow> settlements \<Rightarrow> settlements" where
  "markPending key payer hash now s =
     (let since = st_at (entry_at s key);
          broadcastAt = (if since \<noteq> zero_time then since else now) in
      gm_put key \<lparr>st_state = Pending, st_payer = payer, st_hash = hash, st_at = broadcastAt\<rparr> s)"

lemmas table_defs = claim_def release_def markSettled_def markPending_def Let_def

subsection \<open>The table after each operation\<close>

lemma table_ok:
  "gm_ok newSettlements"
  "gm_ok s \<Longrightarrow> gm_ok (snd (claim key now s))"
  "gm_ok s \<Longrightarrow> gm_ok (release key s)"
  "gm_ok s \<Longrightarrow> gm_ok (markSettled key hash now s)"
  "gm_ok s \<Longrightarrow> gm_ok (markPending key payer hash now s)"
  by (simp_all add: table_defs newSettlements_def gm_simps)

lemma entry_at_Some: "gm_get s k = Some e \<Longrightarrow> entry_at s k = e"
  by (simp add: entry_at_def)

lemma entry_at_None: "gm_get s k = None \<Longrightarrow> entry_at s k = unclaimed_entry"
  by (simp add: entry_at_def)

lemma unclaimed_entry_simps [simp]:
  "st_state unclaimed_entry = Unclaimed" "st_hash unclaimed_entry = ''''"
  "st_at unclaimed_entry = zero_time" "st_payer unclaimed_entry = ''''"
  by (simp_all add: unclaimed_entry_def)

lemma not_expired_within:
  "now - st_at e \<le> settlementTTL \<Longrightarrow> \<not> expired now e"
  by (auto simp: expired_def settlementTTL_def time_simps dur_sub_def)

lemma settling_not_expired: "st_state e = Settling \<Longrightarrow> \<not> expired now e"
  by (simp add: expired_def)

text \<open>What a claim leaves under another key is what the sweep leaves.\<close>

lemma claim_other:
  "gm_ok s \<Longrightarrow> k \<noteq> key \<Longrightarrow> gm_get (snd (claim key now s)) k =
     (case gm_get s k of None \<Rightarrow> None | Some e \<Rightarrow> if expired now e then None else Some e)"
  by (auto simp: table_defs gm_simps split: option.splits)

lemma claim_live:
  assumes "gm_ok s" "gm_get s key = Some e" "\<not> expired now e"
  shows "claim key now s =
    (if st_state e = Settling \<or> st_state e = Settled
     then ((e, False), gm_keep (\<lambda>k e. \<not> expired now e) s)
     else ((e, True), gm_put key
        \<lparr>st_state = Settling, st_payer = '''', st_hash = st_hash e, st_at = st_at e\<rparr>
        (gm_keep (\<lambda>k e. \<not> expired now e) s)))"
  using assms by (simp add: claim_def Let_def entry_at_def gm_simps)

lemma claim_dead:
  assumes "gm_ok s" "\<And>e. gm_get s key = Some e \<Longrightarrow> expired now e"
  shows "claim key now s = ((unclaimed_entry, True), gm_put key
     \<lparr>st_state = Settling, st_payer = '''', st_hash = '''', st_at = zero_time\<rparr>
     (gm_keep (\<lambda>k e. \<not> expired now e) s))"
  using assms by (cases "gm_get s key") (simp_all add: claim_def Let_def entry_at_def gm_simps)

lemma claim_cases:
  assumes "gm_ok s"
  obtains (live) e where "gm_get s key = Some e" "\<not> expired now e"
  | (dead) "\<And>e. gm_get s key = Some e \<Longrightarrow> expired now e"
  by (cases "gm_get s key") auto

lemma claim_granted:
  assumes "gm_ok s" "claim key now s = ((prior, True), s')"
  shows "gm_get s' key = Some \<lparr>st_state = Settling, st_payer = '''', st_hash = st_hash prior, st_at = st_at prior\<rparr>"
    and "st_state prior = Unclaimed \<or> st_state prior = Pending"
  using assms(2) by (auto simp: claim_def Let_def gm_simps split: if_splits)
    (metis settlement_state.exhaust)

lemma claim_refused:
  assumes "gm_ok s" "claim key now s = ((prior, False), s')"
  shows "gm_get s key = Some prior" "st_state prior = Settling \<or> st_state prior = Settled"
    "gm_get s' key = Some prior"
  using assms by (auto simp: claim_def Let_def gm_simps entry_at_def split: if_splits option.splits)

end
