(* ===== verification/Facilitator_Checks.thy ===== *)
theory Facilitator_Checks
  imports Verify_Static Settlements
begin

text \<open>
  \<open>facilitator/exact/facilitator.go\<close>, the checks: the chain access a facilitator needs, and what
  \<open>checkOffline\<close>, \<open>checkOnChain\<close> and \<open>check\<close> conclude about a payment.

  The world a handler runs in (the node, the network, the clock, the request's own life) is a type
  variable \<open>'w\<close>; a call into it takes the world and returns the one after it. \<open>chain_node\<close> is the
  interface \<open>Node\<close>, \<open>clock\<close> is \<open>time.Now\<close>, and a \<open>go_context\<close> is what the code reads of a
  \<open>context.Context\<close>: its deadline and its error.
\<close>

record ('pk, 'w) chain_node =
  node_signer_account :: "'pk std_tx \<Rightarrow> 'w \<Rightarrow> (go_error + 'pk std_account option) \<times> 'w"
  node_simulate :: "'pk std_tx \<Rightarrow> 'w \<Rightarrow> go_error option \<times> 'w"
  node_broadcast :: "bytes \<Rightarrow> 'w \<Rightarrow> (go_error + string) \<times> 'w"
  node_await_delivery :: "instant \<Rightarrow> string \<Rightarrow> 'w \<Rightarrow> go_error option \<times> 'w"

record 'w go_context =
  ctx_deadline :: "instant option"
  ctx_err :: "'w \<Rightarrow> go_error option"

record ('pk, 'w) facilitator =
  fac_lib :: "'pk gno_lib"
  fac_node :: "('pk, 'w) chain_node"
  fac_chain_id :: string
  fac_clock :: "'w \<Rightarrow> instant \<times> 'w"

text \<open>A \<open>paymentCheck\<close>: of the struct's fields, each verdict sets those listed here.\<close>

datatype 'pk payment_check =
    PaymentAccepted "'pk std_tx" bytes string
  | PaymentRefused string string "go_error option"
  | NoVerdict string go_error

definition schemeExact :: string where
  "schemeExact = ''exact''"

definition network :: "('pk, 'w) facilitator \<Rightarrow> string" where
  "network f = ''gno:'' @ fac_chain_id f"

definition causeText :: "'pk gno_lib \<Rightarrow> go_error option \<Rightarrow> string" where
  "causeText lib err = (case err of None \<Rightarrow> '''' | Some e \<Rightarrow> error_text lib e)"

definition chainRefused :: "go_error \<Rightarrow> bool" where
  "chainRefused err = (as_type is_abci err \<noteq> None)"

definition refusePayment :: "string \<Rightarrow> string \<Rightarrow> go_error option \<Rightarrow> 'pk payment_check" where
  "refusePayment payer reason cause = PaymentRefused payer reason cause"

subsection \<open>The offline rules\<close>

definition unsupportedTerms :: "any_map \<Rightarrow> go_error option" where
  "unsupportedTerms extra =
     (if any_at extra ''assetTransferMethod'' \<noteq> AnyNil \<and>
         any_at extra ''assetTransferMethod'' \<noteq> AnyString AssetTransferMethod
      then Some (ErrorString (''x402: extra.assetTransferMethod is '' @
        show_any (any_at extra ''assetTransferMethod'') @ '', want '' @ strconv_quote AssetTransferMethod))
      else if any_at extra ''paymentFlow'' \<noteq> AnyNil \<and>
         any_at extra ''paymentFlow'' \<noteq> AnyString PaymentFlowAuthorization
      then Some (ErrorString (''x402: extra.paymentFlow is '' @
        show_any (any_at extra ''paymentFlow'') @ '', want '' @ strconv_quote PaymentFlowAuthorization))
      else None)"

definition acceptsSameOffer :: "requirements \<Rightarrow> requirements \<Rightarrow> bool" where
  "acceptsSameOffer accepted required =
     (req_scheme accepted = req_scheme required \<and>
      req_network accepted = req_network required \<and>
      req_pay_to accepted = req_pay_to required \<and>
      req_amount accepted = req_amount required \<and>
      req_asset accepted = req_asset required)"

definition transactionOf :: "any_map \<Rightarrow> go_error + string" where
  "transactionOf payload =
     (case any_get payload ''transaction'' of
        None \<Rightarrow> Inr ''''
      | Some raw \<Rightarrow>
          (case raw of
             AnyString transaction \<Rightarrow> Inr transaction
           | _ \<Rightarrow> Inl (ErrorString (''x402: payload transaction is '' @ type_name raw @ '', want string''))))"

definition checkOffline ::
    "('pk, 'w) facilitator \<Rightarrow> payment_payload \<Rightarrow> requirements \<Rightarrow> 'pk payment_check" where
  "checkOffline f payload req =
     (if req_network req \<noteq> network f then refusePayment '''' ReasonInvalidNetwork None
      else case unsupportedTerms (req_extra req) of
        Some err \<Rightarrow> refusePayment '''' ReasonInvalidRequirements (Some err)
      | None \<Rightarrow>
      if \<not> acceptsSameOffer (pp_accepted payload) req then refusePayment '''' ReasonInvalidPayload None
      else case unsupportedTerms (req_extra (pp_accepted payload)) of
        Some err \<Rightarrow> refusePayment '''' ReasonInvalidPayload (Some err)
      | None \<Rightarrow>
      (case memo (req_extra req) of
        Inl err \<Rightarrow> refusePayment '''' ReasonInvalidRequirements (Some err)
      | Inr _ \<Rightarrow>
      (case transactionOf (pp_payload payload) of
        Inl err \<Rightarrow> refusePayment '''' ReasonMalformedTransaction (Some err)
      | Inr transaction \<Rightarrow>
      (case b64_decode transaction of
        None \<Rightarrow> refusePayment '''' ReasonMalformedTransaction
          (Some (base64_error transaction))
      | Some raw \<Rightarrow>
      (case verifyStatic (fac_lib f) req raw of
        Inl reason \<Rightarrow> refusePayment '''' reason None
      | Inr (tx, payer) \<Rightarrow> PaymentAccepted tx raw payer)))))"

subsection \<open>The chain's checks\<close>

datatype account_check =
    AccountAccepted
  | AccountRefused string "go_error option"
  | AccountNoVerdict go_error

definition verifyAccountChecks ::
    "'pk gno_lib \<Rightarrow> 'pk std_tx \<Rightarrow> ('pk, 'w) chain_node \<Rightarrow> string \<Rightarrow> 'w \<Rightarrow> account_check \<times> 'w" where
  "verifyAccountChecks lib tx reader chainID w =
     (case txSigner lib tx of
        Inl err \<Rightarrow> (AccountRefused ReasonSignatureCount (Some err), w)
      | Inr signer \<Rightarrow>
      (case node_signer_account reader tx w of
        (Inl err, w') \<Rightarrow>
          (if \<not> chainRefused err then (AccountNoVerdict err, w')
           else (AccountRefused ReasonSimulationFailed (Some err), w'))
      | (Inr acc, w') \<Rightarrow>
          (case verifySignature lib tx acc signer chainID of
             SignatureFresh \<Rightarrow> (AccountAccepted, w')
           | SignatureConsumed \<Rightarrow> (AccountRefused ReasonSequenceMismatch None, w')
           | SignatureUnverifiable \<Rightarrow> (AccountRefused ReasonSignatureInvalid None, w'))))"

text \<open>
  \<open>checkOnChain\<close> is called on an accepted check only; its fields are the arguments. Go leaves the
  transaction out of the accepted result, which no caller reads.
\<close>

definition checkOnChain ::
    "('pk, 'w) facilitator \<Rightarrow> 'pk std_tx \<Rightarrow> bytes \<Rightarrow> string \<Rightarrow> 'w \<Rightarrow> 'pk payment_check \<times> 'w" where
  "checkOnChain f tx raw payer w =
     (case verifyAccountChecks (fac_lib f) tx (fac_node f) (fac_chain_id f) w of
        (AccountNoVerdict cause, w') \<Rightarrow> (NoVerdict payer cause, w')
      | (AccountRefused reason cause, w') \<Rightarrow>
          (if reason = ReasonSequenceMismatch then (refusePayment payer reason cause, w')
           else (refusePayment '''' reason cause, w'))
      | (AccountAccepted, w') \<Rightarrow>
          (case node_simulate (fac_node f) tx w' of
             (Some err, w'') \<Rightarrow>
               (if \<not> chainRefused err then (NoVerdict payer err, w'')
                else (refusePayment payer ReasonSimulationFailed (Some err), w''))
           | (None, w'') \<Rightarrow> (PaymentAccepted tx raw payer, w'')))"

definition check ::
    "('pk, 'w) facilitator \<Rightarrow> payment_payload \<Rightarrow> requirements \<Rightarrow> 'w \<Rightarrow> 'pk payment_check \<times> 'w" where
  "check f payload req w =
     (case checkOffline f payload req of
        PaymentAccepted tx raw payer \<Rightarrow> checkOnChain f tx raw payer w
      | offline \<Rightarrow> (offline, w))"

definition Verify ::
    "('pk, 'w) facilitator \<Rightarrow> payment_payload \<Rightarrow> requirements \<Rightarrow> 'w \<Rightarrow> (go_error + verify_response) \<times> 'w" where
  "Verify f payload req w =
     (case check f payload req w of
        (NoVerdict payer cause, w') \<Rightarrow> (Inl (NoVerdictError payer cause), w')
      | (PaymentRefused payer reason cause, w') \<Rightarrow>
          (Inl (VerifyError reason payer (causeText (fac_lib f) cause)), w')
      | (PaymentAccepted tx raw payer, w') \<Rightarrow>
          (Inr \<lparr>vr_valid = True, vr_reason = '''', vr_payer = payer\<rparr>, w'))"

lemmas check_defs = checkOffline_def checkOnChain_def check_def verifyAccountChecks_def
  refusePayment_def Verify_def
lemmas check_splits = if_splits option.splits sum.splits prod.splits any_value.splits
  payment_check.splits account_check.splits signature_state.splits

subsection \<open>When the offline rules accept\<close>

definition offer_rules :: "('pk, 'w) facilitator \<Rightarrow> payment_payload \<Rightarrow> requirements \<Rightarrow> bool" where
  "offer_rules f payload req \<longleftrightarrow>
     req_network req = network f \<and> acceptsSameOffer (pp_accepted payload) req \<and>
     unsupportedTerms (req_extra req) = None \<and> unsupportedTerms (req_extra (pp_accepted payload)) = None"

lemma static_rules_memo: "static_rules lib req raw tx send \<Longrightarrow> \<exists>m. memo (req_extra req) = Inr m"
  by (auto simp: static_rules_def)

lemma checkOffline_accepts_iff:
  "checkOffline f payload req = PaymentAccepted tx raw payer \<longleftrightarrow>
     offer_rules f payload req \<and>
     (\<exists>t send. transactionOf (pp_payload payload) = Inr t \<and> b64_decode t = Some raw \<and>
        static_rules (fac_lib f) req raw tx send \<and>
        payer = address_string (fac_lib f) (from_address send))" (is "?L \<longleftrightarrow> ?R")
proof
  assume ?L
  then show ?R
    unfolding checkOffline_def refusePayment_def offer_rules_def
    by (auto simp: verifyStatic_iff split: if_splits option.splits sum.splits prod.splits)
next
  assume ?R
  then obtain t send where offer: "offer_rules f payload req"
    and t: "transactionOf (pp_payload payload) = Inr t" "b64_decode t = Some raw"
    and st: "static_rules (fac_lib f) req raw tx send"
      "payer = address_string (fac_lib f) (from_address send)"
    by blast
  from st have "verifyStatic (fac_lib f) req raw = Inr (tx, payer)"
    unfolding verifyStatic_iff by blast
  moreover obtain m where "memo (req_extra req) = Inr m" using static_rules_memo [OF st(1)] by blast
  ultimately show ?L
    using offer t by (simp add: checkOffline_def offer_rules_def)
qed

lemma checkOffline_not_NoVerdict: "checkOffline f payload req \<noteq> NoVerdict p e"
  by (auto simp: checkOffline_def refusePayment_def split: option.splits sum.splits prod.splits)

lemma checkOffline_refused_payer:
  "checkOffline f payload req = PaymentRefused payer reason cause \<Longrightarrow> payer = ''''"
  by (auto simp: checkOffline_def refusePayment_def split: if_splits option.splits sum.splits prod.splits)

subsection \<open>Verify\<close>

lemma Verify_valid_spec:
  "Verify f payload req w = (Inr res, w2) \<longleftrightarrow>
     (\<exists>t raw tx send signer acc w1.
        offer_rules f payload req \<and>
        transactionOf (pp_payload payload) = Inr t \<and> b64_decode t = Some raw \<and>
        static_rules (fac_lib f) req raw tx send \<and>
        txSigner (fac_lib f) tx = Inr signer \<and>
        node_signer_account (fac_node f) tx w = (Inr acc, w1) \<and>
        verifySignature (fac_lib f) tx acc signer (fac_chain_id f) = SignatureFresh \<and>
        node_simulate (fac_node f) tx w1 = (None, w2) \<and>
        res = \<lparr>vr_valid = True, vr_reason = '''', vr_payer = address_string (fac_lib f) (from_address send)\<rparr>)"
    (is "?L \<longleftrightarrow> ?R")
proof
  assume ?L
  then obtain tx raw payer where acc: "check f payload req w = (PaymentAccepted tx raw payer, w2)"
    "res = \<lparr>vr_valid = True, vr_reason = '''', vr_payer = payer\<rparr>"
    by (auto simp: Verify_def split: prod.splits payment_check.splits)
  then have off: "checkOffline f payload req = PaymentAccepted tx raw payer"
    and on: "checkOnChain f tx raw payer w = (PaymentAccepted tx raw payer, w2)"
    by (auto simp: check_def checkOnChain_def refusePayment_def split: check_splits)
  from on obtain signer account w1 where "txSigner (fac_lib f) tx = Inr signer"
    "node_signer_account (fac_node f) tx w = (Inr account, w1)"
    "verifySignature (fac_lib f) tx account signer (fac_chain_id f) = SignatureFresh"
    "node_simulate (fac_node f) tx w1 = (None, w2)"
    by (auto simp: checkOnChain_def verifyAccountChecks_def refusePayment_def split: check_splits)
  with off acc(2) show ?R unfolding checkOffline_accepts_iff by blast
next
  assume ?R
  then obtain t raw tx send signer account w1 where
    R: "offer_rules f payload req" "transactionOf (pp_payload payload) = Inr t"
      "b64_decode t = Some raw" "static_rules (fac_lib f) req raw tx send"
    and "txSigner (fac_lib f) tx = Inr signer"
    "node_signer_account (fac_node f) tx w = (Inr account, w1)"
    "verifySignature (fac_lib f) tx account signer (fac_chain_id f) = SignatureFresh"
    "node_simulate (fac_node f) tx w1 = (None, w2)"
    "res = \<lparr>vr_valid = True, vr_reason = '''', vr_payer = address_string (fac_lib f) (from_address send)\<rparr>"
    by blast
  moreover have "checkOffline f payload req =
      PaymentAccepted tx raw (address_string (fac_lib f) (from_address send))"
    using R checkOffline_accepts_iff by blast
  ultimately show ?L
    by (simp add: Verify_def check_def checkOnChain_def verifyAccountChecks_def)
qed

text \<open>
  C8. Verify answers that a payment is valid exactly when: the offer is this chain's, on terms the
  mechanism implements, and the payload accepts that same offer; the transaction is statically valid
  for it; it has one signer, whose account the node returned; the signature verifies at that
  account's current sequence for this chain id; and the simulation succeeded. The payer it names is
  the sender of the one bank send.
\<close>

theorem Verify_valid_iff:
  "Verify f payload req w = (Inr res, w2) \<longleftrightarrow>
     (\<exists>t raw tx send signer acc w1.
        offer_rules f payload req \<and>
        transactionOf (pp_payload payload) = Inr t \<and> b64_decode t = Some raw \<and>
        static_rules (fac_lib f) req raw tx send \<and>
        txSigner (fac_lib f) tx = Inr signer \<and>
        node_signer_account (fac_node f) tx w = (Inr acc, w1) \<and>
        verifySignature (fac_lib f) tx acc signer (fac_chain_id f) = SignatureFresh \<and>
        node_simulate (fac_node f) tx w1 = (None, w2) \<and>
        res = \<lparr>vr_valid = True, vr_reason = '''', vr_payer = address_string (fac_lib f) (from_address send)\<rparr>)"
  by (rule Verify_valid_spec)

text \<open>
  C34. Verify reports no verdict exactly when a chain read failed without an answer of the chain: the
  account could not be read, or the simulation of a payment whose signature verified did not reach
  the node. A failure of the facilitator's own chain access is never a refusal of the payment, and
  an answer of the chain is never reported as an outage.
\<close>

theorem Verify_no_verdict_iff:
  "(\<exists>p e w'. Verify f payload req w = (Inl (NoVerdictError p e), w')) \<longleftrightarrow>
     (\<exists>tx raw payer signer. checkOffline f payload req = PaymentAccepted tx raw payer \<and>
        txSigner (fac_lib f) tx = Inr signer \<and>
        ((\<exists>e w1. node_signer_account (fac_node f) tx w = (Inl e, w1) \<and> \<not> chainRefused e) \<or>
         (\<exists>acc e w1 w2. node_signer_account (fac_node f) tx w = (Inr acc, w1) \<and>
            verifySignature (fac_lib f) tx acc signer (fac_chain_id f) = SignatureFresh \<and>
            node_simulate (fac_node f) tx w1 = (Some e, w2) \<and> \<not> chainRefused e)))"
    (is "?L \<longleftrightarrow> ?R")
proof
  assume ?L
  then obtain p e w' where "check f payload req w = (NoVerdict p e, w')"
    by (auto simp: Verify_def split: prod.splits payment_check.splits)
  then obtain tx raw payer where off: "checkOffline f payload req = PaymentAccepted tx raw payer"
    and "checkOnChain f tx raw payer w = (NoVerdict p e, w')"
    using checkOffline_not_NoVerdict by (fastforce simp: check_def split: payment_check.splits)
  then show ?R
    by (fastforce simp: checkOnChain_def verifyAccountChecks_def refusePayment_def split: check_splits)
next
  assume ?R
  then show ?L
    by (fastforce simp: Verify_def check_def checkOnChain_def verifyAccountChecks_def)
qed

text \<open>
  C35. A refusal names a payer only when that payer's signature was verified: the address is the
  sender of the payload's statically valid transaction, and the node returned the signer's account,
  whose key verifies the signature at the current or at the previous sequence. A forged transaction
  never has the address it claims repeated in an answer.
\<close>

theorem refusal_payer_signed:
  assumes "Verify f payload req w = (Inl (VerifyError reason payer msg), w')" "payer \<noteq> ''''"
  shows "\<exists>tx raw signer acc w1. checkOffline f payload req = PaymentAccepted tx raw payer \<and>
    txSigner (fac_lib f) tx = Inr signer \<and>
    node_signer_account (fac_node f) tx w = (Inr acc, w1) \<and>
    verifySignature (fac_lib f) tx acc signer (fac_chain_id f) \<in> {SignatureFresh, SignatureConsumed}"
proof -
  from assms(1) obtain cause where c: "check f payload req w = (PaymentRefused payer reason cause, w')"
    by (auto simp: Verify_def split: prod.splits payment_check.splits)
  then obtain tx raw p where off: "checkOffline f payload req = PaymentAccepted tx raw p"
    and on: "checkOnChain f tx raw p w = (PaymentRefused payer reason cause, w')"
    using assms(2) checkOffline_refused_payer
    by (fastforce simp: check_def split: payment_check.splits)
  from on assms(2) show ?thesis
    unfolding off
    by (fastforce simp: checkOnChain_def verifyAccountChecks_def refusePayment_def reason_defs
        split: check_splits)
qed

end
