(* ===== verification/Settle_Steps.thy ===== *)
theory Settle_Steps
  imports Settlements
begin

text \<open>
  The settlement table under concurrency. \<open>Facilitator.Settle\<close> runs in many goroutines; of what
  it does, only \<open>claim\<close>, \<open>release\<close>, \<open>markSettled\<close> and \<open>markPending\<close> touch shared state, each
  under the mutex. A system state is the table, the clock, and what each goroutine is doing; a
  step is the clock advancing or one goroutine's table operation.

  \<^item> A claim reads the clock before it waits for the mutex (\<open>claim(key, time.Now())\<close>), so the time it
    passes may be any the clock has shown.
  \<^item> A settle that finishes read the clock after it claimed, so its time lies between the two.
  \<^item> Which of the three ends a settle has is left open: every run of \<open>Settle\<close> ends in one of them
    (\<open>record\<close>, or the deferred \<open>release\<close> when it panics).
\<close>

datatype phase = Idle | Working string settlement instant

record system =
  sys_table :: settlements
  sys_now :: instant
  sys_phase :: "nat \<Rightarrow> phase"

datatype event =
    Tick
  | Claimed nat string settlement
  | Refused nat string settlement
  | Released nat string
  | MarkedSettled nat string string
  | MarkedPending nat string string

inductive settle_step :: "system \<Rightarrow> event \<Rightarrow> system \<Rightarrow> bool" where
  tick: "sys_now s \<le> t \<Longrightarrow> settle_step s Tick (s\<lparr>sys_now := t\<rparr>)"
| claim_granted_step:
    "sys_phase s i = Idle \<Longrightarrow> t \<le> sys_now s \<Longrightarrow> claim key t (sys_table s) = ((prior, True), tbl) \<Longrightarrow>
     settle_step s (Claimed i key prior)
       (s\<lparr>sys_table := tbl, sys_phase := (sys_phase s)(i := Working key prior (sys_now s))\<rparr>)"
| claim_refused_step:
    "sys_phase s i = Idle \<Longrightarrow> t \<le> sys_now s \<Longrightarrow> claim key t (sys_table s) = ((prior, False), tbl) \<Longrightarrow>
     settle_step s (Refused i key prior) (s\<lparr>sys_table := tbl\<rparr>)"
| release_step:
    "sys_phase s i = Working key prior since \<Longrightarrow>
     settle_step s (Released i key)
       (s\<lparr>sys_table := release key (sys_table s), sys_phase := (sys_phase s)(i := Idle)\<rparr>)"
| settled_step:
    "sys_phase s i = Working key prior since \<Longrightarrow> since \<le> t \<Longrightarrow> t \<le> sys_now s \<Longrightarrow>
     settle_step s (MarkedSettled i key hash)
       (s\<lparr>sys_table := markSettled key hash t (sys_table s), sys_phase := (sys_phase s)(i := Idle)\<rparr>)"
| pending_step:
    "sys_phase s i = Working key prior since \<Longrightarrow> since \<le> t \<Longrightarrow> t \<le> sys_now s \<Longrightarrow>
     settle_step s (MarkedPending i key hash)
       (s\<lparr>sys_table := markPending key payer hash t (sys_table s), sys_phase := (sys_phase s)(i := Idle)\<rparr>)"

inductive_cases settle_stepE: "settle_step s e s'"

definition initial_system :: "instant \<Rightarrow> system" where
  "initial_system t = \<lparr>sys_table = newSettlements, sys_now = t, sys_phase = (\<lambda>_. Idle)\<rparr>"

inductive settle_run :: "system \<Rightarrow> event list \<Rightarrow> system \<Rightarrow> bool" where
  run_nil: "settle_run s [] s"
| run_cons: "settle_step s e s' \<Longrightarrow> settle_run s' es s'' \<Longrightarrow> settle_run s (e # es) s''"

inductive_cases settle_run_nilE: "settle_run s [] s'"
inductive_cases settle_run_consE: "settle_run s (e # es) s'"

lemma settle_run_append:
  "settle_run s es s' \<Longrightarrow> settle_run s' es' s'' \<Longrightarrow> settle_run s (es @ es') s''"
  by (induction rule: settle_run.induct) (auto intro: run_cons)

definition reachable :: "system \<Rightarrow> bool" where
  "reachable s = (\<exists>t es. zero_time < t \<and> settle_run (initial_system t) es s)"

subsection \<open>The invariant\<close>

text \<open>
  A key is marked settling exactly while one goroutine works on it, and no entry is dated later
  than the clock, nor a claimed one later than its claim.
\<close>

definition working_on :: "system \<Rightarrow> nat \<Rightarrow> string \<Rightarrow> bool" where
  "working_on s i key = (\<exists>prior since. sys_phase s i = Working key prior since)"

definition system_inv :: "system \<Rightarrow> bool" where
  "system_inv s =
     (gm_ok (sys_table s) \<and> zero_time < sys_now s \<and>
      (\<forall>i j k. working_on s i k \<and> working_on s j k \<longrightarrow> i = j) \<and>
      (\<forall>k. (\<exists>i. working_on s i k) \<longleftrightarrow> st_state (entry_at (sys_table s) k) = Settling) \<and>
      (\<forall>k. st_at (entry_at (sys_table s) k) \<le> sys_now s) \<and>
      (\<forall>i k p t. sys_phase s i = Working k p t \<longrightarrow>
         st_at (entry_at (sys_table s) k) \<le> t \<and> zero_time < t \<and> t \<le> sys_now s))"

lemma working_on_simps:
  "working_on (s\<lparr>sys_now := t\<rparr>) i k = working_on s i k"
  "working_on (s\<lparr>sys_table := tbl\<rparr>) i k = working_on s i k"
  "working_on (s\<lparr>sys_table := tbl, sys_phase := (sys_phase s)(j := ph)\<rparr>) i k =
     (if i = j then \<exists>p since. ph = Working k p since else working_on s i k)"
  by (auto simp: working_on_def)

lemma system_invD:
  assumes "system_inv s"
  shows "gm_ok (sys_table s)" "zero_time < sys_now s"
    and "working_on s i k \<Longrightarrow> working_on s j k \<Longrightarrow> i = j"
    and "(\<exists>i. working_on s i k) \<longleftrightarrow> st_state (entry_at (sys_table s) k) = Settling"
    and "st_at (entry_at (sys_table s) k) \<le> sys_now s"
    and "sys_phase s i = Working k p t \<Longrightarrow>
      st_at (entry_at (sys_table s) k) \<le> t \<and> zero_time < t \<and> t \<le> sys_now s"
  using assms unfolding system_inv_def by blast+

lemma entry_after:
  assumes "gm_ok s"
  shows "entry_at (release key s) k = (if k = key then unclaimed_entry else entry_at s k)"
    and "entry_at (markSettled key hash t s) k =
      (if k = key then \<lparr>st_state = Settled, st_payer = '''', st_hash = hash, st_at = t\<rparr> else entry_at s k)"
    and "entry_at (markPending key payer hash t s) k =
      (if k = key then \<lparr>st_state = Pending, st_payer = payer, st_hash = hash,
         st_at = (if st_at (entry_at s key) \<noteq> zero_time then st_at (entry_at s key) else t)\<rparr>
       else entry_at s k)"
  using assms by (auto simp: entry_at_def table_defs gm_simps)

lemma entry_after_claim_other:
  "gm_ok s \<Longrightarrow> k \<noteq> key \<Longrightarrow> entry_at (snd (claim key t s)) k =
     (if expired t (entry_at s k) then unclaimed_entry else entry_at s k)"
  by (auto simp: entry_at_def claim_other split: option.splits)

lemma entry_after_claim_granted:
  assumes "gm_ok s" "claim key t s = ((prior, True), s')"
  shows "entry_at s' k = (if k = key
      then \<lparr>st_state = Settling, st_payer = '''', st_hash = st_hash prior, st_at = st_at prior\<rparr>
      else if expired t (entry_at s k) then unclaimed_entry else entry_at s k)"
  using claim_granted(1) [OF assms] entry_after_claim_other [of s k key t] assms
  by (auto simp: entry_at_Some)

lemma entry_after_claim_refused:
  assumes "gm_ok s" "claim key t s = ((prior, False), s')"
  shows "entry_at s' k = (if k = key then prior
      else if expired t (entry_at s k) then unclaimed_entry else entry_at s k)"
  using claim_refused(3) [OF assms] entry_after_claim_other [of s k key t] assms
  by (auto simp: entry_at_Some)

text \<open>The entry a claim found: what the table held, unless the sweep had just forgotten it.\<close>

lemma claim_prior:
  assumes "gm_ok s" "claim key t s = ((prior, b), s')"
  shows "prior = (if expired t (entry_at s key) then unclaimed_entry else entry_at s key)"
  using assms(2) by (auto simp: claim_def Let_def entry_at_def gm_simps assms(1)
      split: if_splits option.splits)

lemma unclaimed_not_settling: "st_state e = Settling \<Longrightarrow> e \<noteq> unclaimed_entry"
  by auto

lemma system_invI:
  assumes "gm_ok (sys_table s)" "zero_time < sys_now s"
    and "\<And>i j k. working_on s i k \<Longrightarrow> working_on s j k \<Longrightarrow> i = j"
    and "\<And>k. (\<exists>i. working_on s i k) \<longleftrightarrow> st_state (entry_at (sys_table s) k) = Settling"
    and "\<And>k. st_at (entry_at (sys_table s) k) \<le> sys_now s"
    and "\<And>i k p t. sys_phase s i = Working k p t \<Longrightarrow>
      st_at (entry_at (sys_table s) k) \<le> t \<and> zero_time < t \<and> t \<le> sys_now s"
  shows "system_inv s"
  using assms unfolding system_inv_def by blast

lemma initial_inv: "zero_time < t \<Longrightarrow> system_inv (initial_system t)"
  by (rule system_invI)
    (auto simp: initial_system_def newSettlements_def working_on_def entry_at_def zero_time_def)

lemma tick_inv:
  assumes "system_inv s" "sys_now s \<le> t"
  shows "system_inv (s\<lparr>sys_now := t\<rparr>)"
proof -
  note D = system_invD [OF assms(1)]
  show ?thesis
  proof (rule system_invI)
    show "st_at (entry_at (sys_table (s\<lparr>sys_now := t\<rparr>)) k) \<le> sys_now (s\<lparr>sys_now := t\<rparr>)" for k
      using D(5) [of k] assms(2) by simp
    show "st_at (entry_at (sys_table (s\<lparr>sys_now := t\<rparr>)) k) \<le> t' \<and> zero_time < t' \<and>
        t' \<le> sys_now (s\<lparr>sys_now := t\<rparr>)"
      if "sys_phase (s\<lparr>sys_now := t\<rparr>) i = Working k p t'" for i k p t'
      using that D(6) [of i k p t'] assms(2) by simp
  qed (use D(1-4) assms(2) in \<open>simp_all add: working_on_simps\<close>)
qed

text \<open>
  A claim or a finished settle changes the entry of its own key; the entries of the other keys are
  kept, or forgotten when they are not being settled.
\<close>

lemma table_step_inv:
  assumes inv: "system_inv s"
    and ok: "gm_ok tbl"
    and own: "st_state (entry_at tbl key) = Settling \<longleftrightarrow> (\<exists>p t. ph = Working key p t)"
      "st_at (entry_at tbl key) \<le> sys_now s"
      "\<And>p t. ph = Working key p t \<Longrightarrow> st_at (entry_at tbl key) \<le> t \<and> zero_time < t \<and> t \<le> sys_now s"
    and ph: "\<And>k p t. ph = Working k p t \<Longrightarrow> k = key"
    and mine: "\<And>j. working_on s j key \<Longrightarrow> j = i" "\<And>k. working_on s i k \<Longrightarrow> k = key"
    and others: "\<And>k. k \<noteq> key \<Longrightarrow> entry_at tbl k = entry_at (sys_table s) k \<or>
      (st_state (entry_at (sys_table s) k) \<noteq> Settling \<and> entry_at tbl k = unclaimed_entry)"
  shows "system_inv (s\<lparr>sys_table := tbl, sys_phase := (sys_phase s)(i := ph)\<rparr>)" (is "system_inv ?s'")
proof (rule system_invI)
  note D = system_invD [OF inv]
  show "gm_ok (sys_table ?s')" "zero_time < sys_now ?s'" using ok D(2) by simp_all
  show "a = b" if "working_on ?s' a k" "working_on ?s' b k" for a b k
    using that mine(1) ph D(3) [of a k b]
    by (cases "a = i"; cases "b = i") (auto simp: working_on_simps)
  show "(\<exists>a. working_on ?s' a k) \<longleftrightarrow> st_state (entry_at (sys_table ?s') k) = Settling" for k
  proof (cases "k = key")
    case True
    have "(\<exists>a. working_on ?s' a key) \<longleftrightarrow> (\<exists>p t. ph = Working key p t)"
      using mine(1) unfolding working_on_simps by auto
    with own(1) True show ?thesis by simp
  next
    case False
    with ph mine(2) have "(\<exists>a. working_on ?s' a k) \<longleftrightarrow> (\<exists>a. working_on s a k)"
      unfolding working_on_simps by metis
    with D(4) [of k] others [OF False] show ?thesis by auto
  qed
  show at: "st_at (entry_at (sys_table ?s') k) \<le> sys_now ?s'" for k
    using own(2) others [of k] D(2,5) by (cases "k = key") auto
  show "st_at (entry_at (sys_table ?s') k) \<le> t \<and> zero_time < t \<and> t \<le> sys_now ?s'"
    if "sys_phase ?s' a = Working k p t" for a k p t
  proof (cases "a = i")
    case True
    with that ph own(3) show ?thesis by auto
  next
    case False
    with that have w: "sys_phase s a = Working k p t" by simp
    with False mine(1) have "k \<noteq> key" by (auto simp: working_on_def)
    with others [of k] D(6) [OF w] show ?thesis by auto
  qed
qed

lemma settle_step_inv:
  assumes "settle_step s e s'" "system_inv s"
  shows "system_inv s'"
  using assms
proof (induction rule: settle_step.induct)
  case (tick s t)
  then show ?case by (simp add: tick_inv)
next
  case (claim_granted_step s i t key prior tbl)
  note D = system_invD [OF claim_granted_step(4)]
  have ok: "gm_ok tbl" using table_ok(2) [OF D(1)] claim_granted_step(3) by (metis snd_conv)
  note E = entry_after_claim_granted [OF D(1) claim_granted_step(3)]
  note prior = claim_prior [OF D(1) claim_granted_step(3)] claim_granted(2) [OF D(1) claim_granted_step(3)]
  have "st_at prior \<le> sys_now s" using D(2,5) prior(1) by (auto split: if_splits)
  moreover have "\<not> working_on s j key" for j
  proof -
    have "st_state (entry_at (sys_table s) key) \<noteq> Settling"
      using prior settling_not_expired by (auto split: if_splits)
    then show ?thesis using D(4) by blast
  qed
  moreover have "\<not> working_on s i k" for k
    using claim_granted_step(1) by (simp add: working_on_def)
  ultimately show ?case
    using claim_granted_step(4) D(2) ok E settling_not_expired
    by (intro table_step_inv) auto
next
  case (claim_refused_step s i t key prior tbl)
  note D = system_invD [OF claim_refused_step(4)]
  have ok: "gm_ok tbl" using table_ok(2) [OF D(1)] claim_refused_step(3) by (metis snd_conv)
  note E = entry_after_claim_refused [OF D(1) claim_refused_step(3)]
  have "entry_at (sys_table s) key = prior"
    using claim_refused(1) [OF D(1) claim_refused_step(3)] by (rule entry_at_Some)
  with E have E': "entry_at tbl k = entry_at (sys_table s) k \<or>
      (st_state (entry_at (sys_table s) k) \<noteq> Settling \<and> entry_at tbl k = unclaimed_entry)" for k
    using settling_not_expired by auto
  show ?case
  proof (rule system_invI)
    show "st_at (entry_at (sys_table (s\<lparr>sys_table := tbl\<rparr>)) k) \<le> t \<and> zero_time < t \<and>
        t \<le> sys_now (s\<lparr>sys_table := tbl\<rparr>)"
      if "sys_phase (s\<lparr>sys_table := tbl\<rparr>) j = Working k p t" for j k p t
      using that D(6) [of j k p t] E' [of k] by auto
    show "(\<exists>j. working_on (s\<lparr>sys_table := tbl\<rparr>) j k) \<longleftrightarrow>
        st_state (entry_at (sys_table (s\<lparr>sys_table := tbl\<rparr>)) k) = Settling" for k
      using D(4) [of k] E' [of k] by (auto simp: working_on_simps)
    show "st_at (entry_at (sys_table (s\<lparr>sys_table := tbl\<rparr>)) k) \<le> sys_now (s\<lparr>sys_table := tbl\<rparr>)" for k
      using D(2,5) E' [of k] by auto
  qed (use ok D(2,3) in \<open>auto simp: working_on_simps\<close>)
next
  case (release_step s i key prior since)
  note D = system_invD [OF release_step(2)]
  show ?case
    using release_step D(2,3) table_ok(3) [OF D(1)]
    by (intro table_step_inv) (auto simp: entry_after [OF D(1)] working_on_def)
next
  case (settled_step s i key prior since t hash)
  note D = system_invD [OF settled_step(4)]
  show ?case
    using settled_step D(2,3) table_ok(4) [OF D(1)]
    by (intro table_step_inv) (auto simp: entry_after [OF D(1)] working_on_def)
next
  case (pending_step s i key prior since t payer hash)
  note D = system_invD [OF pending_step(4)]
  show ?case
    using pending_step D(2,3,5) table_ok(5) [OF D(1)]
    by (intro table_step_inv) (auto simp: entry_after [OF D(1)] working_on_def)
qed

lemma settle_run_inv: "settle_run s es s' \<Longrightarrow> system_inv s \<Longrightarrow> system_inv s'"
  by (induction rule: settle_run.induct) (auto dest: settle_step_inv)

lemma reachable_inv: "reachable s \<Longrightarrow> system_inv s"
  unfolding reachable_def using initial_inv settle_run_inv by blast

subsection \<open>One settle at a time\<close>

text \<open>
  C4. However the settles of a process interleave, two of them never work on the same payment at
  once, and a payment being worked on is refused to every other settle, which is shown the hash the
  first one knows.
\<close>

theorem settle_exclusive:
  assumes "reachable s" "sys_phase s i = Working key p t"
  shows "(sys_phase s j = Working key q t' \<longrightarrow> i = j) \<and>
    fst (claim key now (sys_table s)) = (entry_at (sys_table s) key, False)"
proof -
  note D = system_invD [OF reachable_inv [OF assms(1)]]
  have "working_on s i key" using assms(2) by (auto simp: working_on_def)
  then have st: "st_state (entry_at (sys_table s) key) = Settling" using D(4) by blast
  then obtain e where e: "gm_get (sys_table s) key = Some e" "st_state e = Settling"
    by (auto simp: entry_at_def split: option.splits)
  have "fst (claim key now (sys_table s)) = (entry_at (sys_table s) key, False)"
    using claim_live [OF D(1) e(1)] settling_not_expired e by (simp add: entry_at_Some)
  moreover have "sys_phase s j = Working key q t' \<Longrightarrow> i = j"
    using D(3) \<open>working_on s i key\<close> by (auto simp: working_on_def)
  ultimately show ?thesis by blast
qed

subsection \<open>No second broadcast\<close>

text \<open>
  A payment on record since \<open>a\<close>: admitted, executed or being reconciled. While the clock is within
  \<open>settlementTTL\<close> of \<open>a\<close> only a release, the end of a settle that panicked, takes it off the record.
\<close>

definition on_record :: "system \<Rightarrow> string \<Rightarrow> instant \<Rightarrow> bool" where
  "on_record s key a =
     (st_state (entry_at (sys_table s) key) \<noteq> Unclaimed \<and> a \<le> st_at (entry_at (sys_table s) key) \<and> zero_time < a)"

lemma on_record_fresh:
  assumes "on_record s key a" "t - a \<le> settlementTTL"
  shows "\<not> expired t (entry_at (sys_table s) key)"
  using assms by (intro not_expired_within) (auto simp: on_record_def)

lemma settle_step_clock: "settle_step s e s' \<Longrightarrow> sys_now s \<le> sys_now s'"
  by (erule settle_stepE) auto

lemma settle_run_clock: "settle_run s es s' \<Longrightarrow> sys_now s \<le> sys_now s'"
  by (induction rule: settle_run.induct) (auto dest: settle_step_clock)

lemma on_record_step:
  assumes "settle_step s e s'" "system_inv s" "on_record s key a"
    and ttl: "sys_now s - a \<le> settlementTTL"
    and "\<And>i. e \<noteq> Released i key"
  shows "on_record s' key a \<and> (\<forall>i prior. e = Claimed i key prior \<longrightarrow> st_state prior = Pending)"
  using assms(1,2,3,5) ttl
proof (cases rule: settle_step.cases)
  case (claim_granted_step i t key' prior tbl)
  note ok = system_invD(1) [OF assms(2)]
  from claim_granted_step ttl on_record_fresh [OF assms(3), of t]
  have fresh: "\<not> expired t (entry_at (sys_table s) key)" by simp
  note E = entry_after_claim_granted [OF ok claim_granted_step(5), of key]
  note P = claim_prior [OF ok claim_granted_step(5)] claim_granted(2) [OF ok claim_granted_step(5)]
  show ?thesis
  proof (cases "key' = key")
    case True
    with P fresh have "prior = entry_at (sys_table s) key" by simp
    with True E P(2) assms(3) claim_granted_step show ?thesis by (auto simp: on_record_def)
  next
    case False
    with E fresh assms(3) claim_granted_step show ?thesis by (simp add: on_record_def)
  qed
next
  case (claim_refused_step i t key' prior tbl)
  note ok = system_invD(1) [OF assms(2)]
  from claim_refused_step ttl on_record_fresh [OF assms(3), of t]
  have fresh: "\<not> expired t (entry_at (sys_table s) key)" by simp
  note E = entry_after_claim_refused [OF ok claim_refused_step(5), of key]
  have "key' = key \<Longrightarrow> prior = entry_at (sys_table s) key"
    using claim_refused(1) [OF ok claim_refused_step(5)] entry_at_Some by force
  with E fresh assms(3) claim_refused_step show ?thesis by (auto simp: on_record_def)
next
  case (settled_step i key' prior since t hash)
  note D = system_invD [OF assms(2)]
  have "st_at (entry_at (sys_table s) key') \<le> t"
    using D(6) [OF settled_step(3)] settled_step(4) by linarith
  with settled_step assms(3) show ?thesis
    by (auto simp: on_record_def entry_after [OF D(1)])
next
  case (pending_step i key' prior since t payer hash)
  note D = system_invD [OF assms(2)]
  from pending_step assms(3) show ?thesis
    by (auto simp: on_record_def entry_after [OF D(1)])
qed (auto simp: on_record_def entry_after [OF system_invD(1) [OF assms(2)]])

lemma on_record_run:
  assumes "settle_run s es s'" "system_inv s" "on_record s key a"
    and "sys_now s' - a \<le> settlementTTL" "\<And>i. Released i key \<notin> set es"
  shows "on_record s' key a \<and> (\<forall>i prior. Claimed i key prior \<in> set es \<longrightarrow> st_state prior = Pending)"
  using assms
proof (induction rule: settle_run.induct)
  case (run_nil s)
  then show ?case by simp
next
  case (run_cons s e s' es s'')
  from settle_run_clock [OF run_cons(2)] settle_step_clock [OF run_cons(1)] run_cons.prems(3)
  have "sys_now s - a \<le> settlementTTL" by linarith
  moreover have "\<And>i. e \<noteq> Released i key" using run_cons.prems(4) by auto
  ultimately have step: "on_record s' key a \<and> (\<forall>i prior. e = Claimed i key prior \<longrightarrow> st_state prior = Pending)"
    using on_record_step [OF run_cons(1) run_cons.prems(1,2)] by blast
  with run_cons.IH settle_step_inv [OF run_cons(1) run_cons.prems(1)] run_cons.prems(3,4)
  show ?case by (metis list.set_intros(2) set_ConsD)
qed

text \<open>
  From the moment a settle records that a node admitted a payment (settled or pending, dated
  \<open>a\<close>), and until the clock passes \<open>a + settlementTTL\<close>, every claim of that payment that is granted
  finds it pending: it reconciles the recorded hash, and no settle broadcasts the payment a second
  time, whatever the other goroutines do. The one exception is a settle that panicked and whose
  deferred release dropped the record.
\<close>

theorem no_second_broadcast:
  assumes "reachable s" "gm_get (sys_table s) key = Some e" "st_state e \<in> {Settled, Pending}"
    and "zero_time < st_at e"
    and "settle_run s es s'" "sys_now s' \<le> st_at e + settlementTTL" "\<And>i. Released i key \<notin> set es"
    and "Claimed i key prior \<in> set es"
  shows "st_state prior = Pending"
proof -
  have "on_record s key (st_at e)"
    using assms(2-4) by (auto simp: on_record_def entry_at_Some)
  moreover have "sys_now s' - st_at e \<le> settlementTTL" using assms(6) by simp
  ultimately show ?thesis
    using on_record_run [OF assms(5) reachable_inv [OF assms(1)] _ _ assms(7)] assms(8) by blast
qed

subsection \<open>Concrete runs\<close>

text \<open>A process that claims payment \<open>k\<close> at time 5, and the same process once it has found it pending.\<close>

definition claimed_system :: system where
  "claimed_system = \<lparr>sys_table = [(''k'', \<lparr>st_state = Settling, st_payer = '''', st_hash = '''', st_at = 0\<rparr>)],
     sys_now = 5, sys_phase = (\<lambda>_. Idle)(0 := Working ''k'' unclaimed_entry 5)\<rparr>"

definition pending_system :: system where
  "pending_system = \<lparr>sys_table = [(''k'', \<lparr>st_state = Pending, st_payer = ''p'', st_hash = ''h'', st_at = 5\<rparr>)],
     sys_now = 5, sys_phase = (\<lambda>_. Idle)\<rparr>"

lemmas system_examples = claimed_system_def pending_system_def initial_system_def newSettlements_def
lemmas gm_eval = gm_get_def gm_put_def gm_del_def gm_keep_def entry_at_def

lemma claim_empty: "claim ''k'' 5 [] = ((unclaimed_entry, True),
    [(''k'', \<lparr>st_state = Settling, st_payer = '''', st_hash = '''', st_at = 0\<rparr>)])"
  by (simp add: claim_def gm_eval Let_def zero_time_def)

lemma run_to_claimed: "settle_step (initial_system 5) (Claimed 0 ''k'' unclaimed_entry) claimed_system"
  using settle_step.claim_granted_step [of "initial_system 5" 0 5 "''k''" unclaimed_entry] claim_empty
  by (simp add: system_examples)

lemma run_to_pending: "settle_step claimed_system (MarkedPending 0 ''k'' ''h'') pending_system"
  using settle_step.pending_step [of claimed_system 0 "''k''" unclaimed_entry 5 5 "''h''" "''p''"]
  by (simp add: system_examples markPending_def gm_eval Let_def zero_time_def fun_upd_idem)

lemma claimed_reachable: "reachable claimed_system"
  unfolding reachable_def zero_time_def
  using run_cons [OF run_to_claimed run_nil] by (intro exI [of _ 5]) auto

lemma pending_reachable: "reachable pending_system"
  unfolding reachable_def zero_time_def
  using run_cons [OF run_to_claimed run_cons [OF run_to_pending run_nil]] by (intro exI [of _ 5]) auto

theorem settle_exclusive_witness:
  "fst (claim ''k'' 7 (sys_table claimed_system)) = (entry_at (sys_table claimed_system) ''k'', False)"
  using settle_exclusive [OF claimed_reachable, of 0 "''k''" unclaimed_entry 5]
  by (simp add: claimed_system_def)

theorem no_second_broadcast_witness:
  "\<exists>s'. settle_run pending_system [Tick, Claimed 1 ''k'' (entry_at (sys_table pending_system) ''k'')] s' \<and>
     st_state (entry_at (sys_table pending_system) ''k'') = Pending"
proof -
  let ?e = "\<lparr>st_state = Pending, st_payer = ''p'', st_hash = ''h'', st_at = 5\<rparr>"
  let ?s = "pending_system\<lparr>sys_now := 9\<rparr>"
  have c: "claim ''k'' 9 (sys_table ?s) = ((?e, True),
      [(''k'', \<lparr>st_state = Settling, st_payer = '''', st_hash = ''h'', st_at = 5\<rparr>)])"
    by (simp add: claim_def gm_eval Let_def pending_system_def expired_def dur_sub_def
        settlementTTL_def time_simps)
  obtain s' where run: "settle_run pending_system [Tick, Claimed 1 ''k'' ?e] s'" "sys_now s' = 9"
    using run_cons [OF settle_step.tick [of pending_system 9]
        run_cons [OF settle_step.claim_granted_step [of ?s 1 9 "''k''" ?e, OF _ _ c] run_nil]]
    by (simp add: pending_system_def)
  have e: "gm_get (sys_table pending_system) ''k'' = Some ?e"
    by (simp add: pending_system_def)
  have "st_state ?e = Pending"
    by (rule no_second_broadcast [OF pending_reachable e _ _ run(1), where i = 1])
      (simp_all add: zero_time_def settlementTTL_def time_simps run(2))
  with run(1) e show ?thesis by (auto simp: entry_at_Some)
qed

end
