(* ===== verification/Facilitator_Settle.thy ===== *)
theory Facilitator_Settle
  imports Facilitator_Checks Settle_Steps
begin

text \<open>
  \<open>facilitator/exact/facilitator.go\<close>, the settle path: claim the payment, check it again, broadcast
  it, wait for its delivery, and record what was established. \<open>Settle\<close> takes and returns the
  settlement table with the world. It is one goroutine's run; \<open>Settle_Steps\<close> interleaves the table
  operations of many. A node call that panics, and the deferred release that follows, is a step
  there and not a value here.

  The last section runs a facilitator over a world that also keeps a log of the node calls, with
  their answers, which is how "nothing is broadcast unless" is stated.
\<close>

definition deliveryWait :: duration where
  "deliveryWait = 10 * second"

definition deliveryMargin :: duration where
  "deliveryMargin = second"

definition deliveryDeadline :: "'w go_context \<Rightarrow> instant \<Rightarrow> instant" where
  "deliveryDeadline ctx now =
     (let deadline = now + deliveryWait in
      case ctx_deadline ctx of
        Some requestDeadline \<Rightarrow>
          if requestDeadline - deliveryMargin < deadline then requestDeadline - deliveryMargin else deadline
      | None \<Rightarrow> deadline)"

definition settleRefusal :: "('pk, 'w) facilitator \<Rightarrow> 'pk payment_check \<Rightarrow> go_error" where
  "settleRefusal f c =
     (case c of
        NoVerdict payer cause \<Rightarrow> NoVerdictError payer cause
      | PaymentRefused payer reason cause \<Rightarrow>
          SettleError reason payer (network f) '''' (causeText (fac_lib f) cause)
      | PaymentAccepted tx raw payer \<Rightarrow> SettleError '''' payer (network f) '''' '''')"

definition delivery ::
    "('pk, 'w) facilitator \<Rightarrow> 'w go_context \<Rightarrow> string \<Rightarrow> string \<Rightarrow> 'w \<Rightarrow> (go_error + settle_response) \<times> 'w" where
  "delivery f ctx hash payer w =
     (let (now, w0) = fac_clock f w;
          (err, w1) = node_await_delivery (fac_node f) (deliveryDeadline ctx now) hash w0 in
      case err of
        None \<Rightarrow> (Inr \<lparr>sr_success = True, sr_transaction = hash, sr_network = network f,
                     sr_payer = payer, sr_reason = ''''\<rparr>, w1)
      | Some e \<Rightarrow>
          if chainRefused e
          then (Inl (SettleError ReasonBroadcastFailed payer (network f) hash (error_text (fac_lib f) e)), w1)
          else (Inl (SettleError ErrSettlementPending payer (network f) hash (error_text (fac_lib f) e)), w1))"

definition settle ::
    "('pk, 'w) facilitator \<Rightarrow> 'w go_context \<Rightarrow> 'pk std_tx \<Rightarrow> bytes \<Rightarrow> string \<Rightarrow> 'w \<Rightarrow> (go_error + settle_response) \<times> 'w" where
  "settle f ctx tx raw payer w =
     (case checkOnChain f tx raw payer w of
        (PaymentAccepted tx' raw' payer', w1) \<Rightarrow>
          (case ctx_err ctx w1 of
             Some err \<Rightarrow> (Inl (NoVerdictError payer' err), w1)
           | None \<Rightarrow>
             (case node_broadcast (fac_node f) raw' w1 of
                (Inl err, w2) \<Rightarrow>
                  (if \<not> chainRefused err then (Inl (NoVerdictError payer' err), w2)
                   else (Inl (SettleError ReasonBroadcastFailed payer' (network f) '''' (error_text (fac_lib f) err)), w2))
              | (Inr hash, w2) \<Rightarrow> delivery f ctx hash payer' w2))
      | (refused, w1) \<Rightarrow> (Inl (settleRefusal f refused), w1))"

text \<open>\<open>Facilitator.record\<close>.\<close>

definition recordOutcome ::
    "string \<Rightarrow> go_error + settle_response \<Rightarrow> instant \<Rightarrow> settlements \<Rightarrow> settlements" where
  "recordOutcome key res now st =
     (case res of
        Inr r \<Rightarrow> markSettled key (sr_transaction r) now st
      | Inl err \<Rightarrow>
          (case as_type is_settle_error err of
             None \<Rightarrow> release key st
           | Some (reason, payer, transaction, msg) \<Rightarrow>
               if transaction = '''' then release key st
               else if reason = ErrSettlementPending then markPending key payer transaction now st
               else markSettled key transaction now st))"

definition Settle ::
    "('pk, 'w) facilitator \<Rightarrow> 'w go_context \<Rightarrow> payment_payload \<Rightarrow> requirements \<Rightarrow> settlements \<Rightarrow> 'w
      \<Rightarrow> (go_error + settle_response) \<times> settlements \<times> 'w" where
  "Settle f ctx payload req st w =
     (case checkOffline f payload req of
        PaymentAccepted tx raw payer \<Rightarrow>
          (let key = hex_encode (tx_hash (fac_lib f) raw);
               (t0, w0) = fac_clock f w;
               ((prior, ok), st1) = claim key t0 st in
           if \<not> ok then
             (Inl (SettleError ReasonDuplicateSettlement '''' (network f) (st_hash prior)
                ''this facilitator is settling or has settled this payment''), st1, w0)
           else
             (let (res, w1) = (if st_state prior = Pending
                                 then delivery f ctx (st_hash prior) (st_payer prior) w0
                                 else settle f ctx tx raw payer w0);
                  (t1, w2) = fac_clock f w1 in
              (res, recordOutcome key res t1 st1, w2)))
      | offline \<Rightarrow> (Inl (settleRefusal f offline), st, w))"

text \<open>
  The mechanism as it is registered: \<open>NewFacilitator\<close>, its empty table beside it, and what it tells the
  engine of itself.
\<close>

definition NewFacilitator ::
    "'pk gno_lib \<Rightarrow> ('w \<Rightarrow> instant \<times> 'w) \<Rightarrow> ('pk, 'w) chain_node \<Rightarrow> string \<Rightarrow> ('pk, 'w) facilitator \<times> settlements" where
  "NewFacilitator lib clk nd chainID =
     (\<lparr>fac_lib = lib, fac_node = nd, fac_chain_id = chainID, fac_clock = clk\<rparr>, newSettlements)"

definition caipFamily :: string where "caipFamily = ''gno:*''"
definition CaipFamily :: "('pk, 'w) facilitator \<Rightarrow> string" where "CaipFamily f = caipFamily"
definition GetExtra :: "('pk, 'w) facilitator \<Rightarrow> string \<Rightarrow> any_map" where "GetExtra f net = None"
definition GetSigners :: "('pk, 'w) facilitator \<Rightarrow> string \<Rightarrow> string list" where "GetSigners f net = []"

subsection \<open>The wait for a delivery\<close>

text \<open>
  A settle waits for its delivery at most \<open>deliveryWait\<close>, and it stops waiting at least
  \<open>deliveryMargin\<close> before the request's own deadline, if it has one; it never stops earlier than
  the sooner of the two.
\<close>

theorem deliveryDeadline_is_min:
  "deliveryDeadline ctx now =
     (case ctx_deadline ctx of
        None \<Rightarrow> now + deliveryWait
      | Some d \<Rightarrow> min (now + deliveryWait) (d - deliveryMargin))"
  by (auto simp: deliveryDeadline_def Let_def min_def split: option.splits)

lemma delivery_result:
  assumes "delivery f ctx hash payer w = (res, w')"
  shows "res = Inr \<lparr>sr_success = True, sr_transaction = hash, sr_network = network f, sr_payer = payer, sr_reason = ''''\<rparr>
    \<or> (\<exists>m. res = Inl (SettleError ReasonBroadcastFailed payer (network f) hash m))
    \<or> (\<exists>m. res = Inl (SettleError ErrSettlementPending payer (network f) hash m))"
  using assms by (auto simp: delivery_def Let_def split: prod.splits option.splits if_splits)

text \<open>What a settle can answer: see the four branches of \<open>Settle\<close>.\<close>

lemma as_type_settle_simps [simp]:
  "as_type is_settle_error (NoVerdictError p e) = as_type is_settle_error e"
  "as_type is_settle_error (SettleError r p n t m) = Some (r, p, t, m)"
  by simp_all

lemma pending_not_failed: "ErrSettlementPending \<noteq> ReasonBroadcastFailed"
  by (simp add: ErrSettlementPending_def reason_defs)

subsection \<open>The table after a settle\<close>

text \<open>The key a payment is recorded under.\<close>

definition payment_key :: "('pk, 'w) facilitator \<Rightarrow> bytes \<Rightarrow> string" where
  "payment_key f raw = hex_encode (tx_hash (fac_lib f) raw)"

lemma Settle_accepted:
  assumes "checkOffline f payload req = PaymentAccepted tx raw payer"
    "fac_clock f w = (t0, w0)" "claim (payment_key f raw) t0 st = ((prior, True), st1)"
    "(if st_state prior = Pending then delivery f ctx (st_hash prior) (st_payer prior) w0
      else settle f ctx tx raw payer w0) = (res, w1)" "fac_clock f w1 = (t1, w2)"
  shows "Settle f ctx payload req st w = (res, recordOutcome (payment_key f raw) res t1 st1, w2)"
  using assms by (simp add: Settle_def payment_key_def)

lemma Settle_duplicate:
  assumes "checkOffline f payload req = PaymentAccepted tx raw payer"
    "fac_clock f w = (t0, w0)" "claim (payment_key f raw) t0 st = ((prior, False), st1)"
  shows "Settle f ctx payload req st w =
    (Inl (SettleError ReasonDuplicateSettlement '''' (network f) (st_hash prior)
      ''this facilitator is settling or has settled this payment''), st1, w0)"
  using assms by (simp add: Settle_def payment_key_def)

text \<open>Case analysis of a settle: refused offline, refused as a duplicate, or run.\<close>

lemma Settle_cases:
  assumes "Settle f ctx payload req st w = (res, st', w')"
  obtains (offline) c where "checkOffline f payload req = c" "\<And>tx raw p. c \<noteq> PaymentAccepted tx raw p"
      "res = Inl (settleRefusal f c)" "st' = st" "w' = w"
  | (duplicate) tx raw payer t0 prior where
      "checkOffline f payload req = PaymentAccepted tx raw payer" "fac_clock f w = (t0, w')"
      "claim (payment_key f raw) t0 st = ((prior, False), st')"
      "res = Inl (SettleError ReasonDuplicateSettlement '''' (network f) (st_hash prior)
        ''this facilitator is settling or has settled this payment'')"
  | (ran) tx raw payer t0 w0 prior st1 w1 t1 where
      "checkOffline f payload req = PaymentAccepted tx raw payer" "fac_clock f w = (t0, w0)"
      "claim (payment_key f raw) t0 st = ((prior, True), st1)"
      "(if st_state prior = Pending then delivery f ctx (st_hash prior) (st_payer prior) w0
        else settle f ctx tx raw payer w0) = (res, w1)" "fac_clock f w1 = (t1, w')"
      "st' = recordOutcome (payment_key f raw) res t1 st1"
proof (cases "checkOffline f payload req")
  case (PaymentAccepted tx raw payer)
  obtain t0 w0 where c: "fac_clock f w = (t0, w0)" by (cases "fac_clock f w")
  obtain prior ok st1 where cl: "claim (payment_key f raw) t0 st = ((prior, ok), st1)"
    by (metis surj_pair)
  show thesis
  proof (cases ok)
    case False
    with Settle_duplicate [OF PaymentAccepted c] cl assms PaymentAccepted c show thesis
      by (intro duplicate) auto
  next
    case True
    obtain r w1 where r: "(if st_state prior = Pending then delivery f ctx (st_hash prior) (st_payer prior) w0
        else settle f ctx tx raw payer w0) = (r, w1)" by (metis surj_pair)
    obtain t1 w2 where t1: "fac_clock f w1 = (t1, w2)" by (cases "fac_clock f w1")
    from cl True have cl': "claim (payment_key f raw) t0 st = ((prior, True), st1)" by simp
    from Settle_accepted [OF PaymentAccepted c cl' r t1] assms
    have "res = r" "w' = w2" "st' = recordOutcome (payment_key f raw) res t1 st1" by auto
    with ran [OF PaymentAccepted c cl'] r t1 show thesis by blast
  qed
qed (use assms in \<open>auto simp: Settle_def intro!: offline\<close>)

lemma recordOutcome_ok: "gm_ok st \<Longrightarrow> gm_ok (recordOutcome key res t st)"
  by (auto simp: recordOutcome_def table_ok split: sum.splits option.splits)

lemma entry_after_record:
  "gm_ok st \<Longrightarrow> k \<noteq> key \<Longrightarrow> entry_at (recordOutcome key res t st) k = entry_at st k"
  "gm_ok st \<Longrightarrow> st_state (entry_at (recordOutcome key res t st) key) \<noteq> Settling"
  "gm_ok st \<Longrightarrow> entry_at (recordOutcome key (Inr r) t st) key =
     \<lparr>st_state = Settled, st_payer = '''', st_hash = sr_transaction r, st_at = t\<rparr>"
  by (auto simp: recordOutcome_def entry_after split: sum.splits option.splits)

text \<open>
  Whatever a settle answers, it leaves the table well formed and holds nothing: no payment is
  marked as being settled afterwards that was not before, so a payment is never locked out by a
  settle that has returned.
\<close>

theorem Settle_holds_nothing:
  assumes "gm_ok st" "Settle f ctx payload req st w = (res, st', w')"
  shows "gm_ok st' \<and> {k. st_state (entry_at st' k) = Settling} \<subseteq> {k. st_state (entry_at st k) = Settling}"
  using assms(2)
proof (cases rule: Settle_cases)
  case (offline c)
  with assms(1) show ?thesis by simp
next
  case (duplicate tx raw payer t0 prior)
  have "entry_at st (payment_key f raw) = prior"
    using claim_refused(1) [OF assms(1) duplicate(3)] by (rule entry_at_Some)
  with entry_after_claim_refused [OF assms(1) duplicate(3)]
  have "entry_at st' k = entry_at st k \<or> entry_at st' k = unclaimed_entry" for k
    by auto
  then have "st_state (entry_at st k) = Settling" if "st_state (entry_at st' k) = Settling" for k
    using that unclaimed_entry_simps(1) by (metis settlement_state.distinct(1))
  moreover have "gm_ok st'" using table_ok(2) [OF assms(1)] duplicate(3) by (metis snd_conv)
  ultimately show ?thesis by auto
next
  case (ran tx raw payer t0 w0 prior st1 w1 t1)
  have ok: "gm_ok st1" using table_ok(2) [OF assms(1)] ran(3) by (metis snd_conv)
  have "st_state (entry_at st k) = Settling" if "st_state (entry_at st' k) = Settling" for k
    using that entry_after_record(1,2) [OF ok] entry_after_claim_granted [OF assms(1) ran(3)]
    unfolding ran(6) by (metis settlement_state.distinct(1) unclaimed_entry_simps(1))
  with recordOutcome_ok [OF ok] ran(6) show ?thesis by auto
qed

text \<open>
  C13. A payment a settle reported settled is not settled again: presented once more within
  \<open>settlementTTL\<close>, under whatever payload and offer that carry the same transaction bytes, it is
  refused as a duplicate carrying the hash the first answer reported, and no node call is made.
\<close>

theorem settled_then_duplicate:
  assumes "gm_ok st" "Settle f ctx payload req st w = (Inr r, st', w')"
    and "checkOffline f payload req = PaymentAccepted tx raw payer"
    and "checkOffline f payload2 req2 = PaymentAccepted tx2 raw payer2"
    and "fac_clock f w2 = (t, w3)" "t - st_at (entry_at st' (payment_key f raw)) \<le> settlementTTL"
  shows "\<exists>st''. Settle f ctx2 payload2 req2 st' w2 =
    (Inl (SettleError ReasonDuplicateSettlement '''' (network f) (sr_transaction r)
       ''this facilitator is settling or has settled this payment''), st'', w3)"
  using assms(2)
proof (cases rule: Settle_cases)
  case (ran tx' raw' payer' t0 w0 prior st1 w1 t1)
  have raw: "raw' = raw" using ran(1) assms(3) by simp
  have ok1: "gm_ok st1" using table_ok(2) [OF assms(1)] ran(3) by (metis snd_conv)
  let ?key = "payment_key f raw"
  let ?e = "\<lparr>st_state = Settled, st_payer = '''', st_hash = sr_transaction r, st_at = t1\<rparr>"
  have ok: "gm_ok st'" using recordOutcome_ok [OF ok1] ran(6) by simp
  have "entry_at st' ?key = ?e" using entry_after_record(3) [OF ok1] ran(6) raw by simp
  then have e: "gm_get st' ?key = Some ?e"
    by (auto simp: entry_at_def unclaimed_entry_def split: option.splits)
  with assms(6) have "\<not> expired t ?e" by (intro not_expired_within) (simp add: entry_at_Some)
  from claim_live [OF ok e this] obtain st'' where "claim ?key t st' = ((?e, False), st'')" by simp
  from Settle_duplicate [OF assms(4,5) this] show ?thesis by simp
qed (use assms(3) in auto)

text \<open>What a settle leaves of a payment that its broadcast, or a copy of it, already settled.\<close>

lemma recordOutcome_pending:
  assumes "gm_ok st" "h \<noteq> ''''" "entry_at st key = e" "st_at e \<noteq> zero_time"
  shows "entry_at (recordOutcome key (Inl (SettleError ErrSettlementPending p n h m)) t st) key =
    \<lparr>st_state = Pending, st_payer = p, st_hash = h, st_at = st_at e\<rparr>"
  using assms by (simp add: recordOutcome_def entry_after)

subsection \<open>The calls a settle makes\<close>

text \<open>
  The facilitator run over a world that also keeps the log of the node calls, each with its answer.
  The log is only added to the world: the answers, the table and the world are those of the
  facilitator itself (\<open>logged_Settle\<close>).
\<close>

datatype 'pk node_call =
    CallSignerAccount "'pk std_tx" "go_error + 'pk std_account option"
  | CallSimulate "'pk std_tx" "go_error option"
  | CallBroadcast bytes "go_error + string"
  | CallAwait instant string "go_error option"

fun is_broadcast :: "'pk node_call \<Rightarrow> bool" where
  "is_broadcast (CallBroadcast b r) = True"
| "is_broadcast _ = False"

definition logged_node :: "('pk, 'w) chain_node \<Rightarrow> ('pk, 'w \<times> 'pk node_call list) chain_node" where
  "logged_node n =
     \<lparr>node_signer_account = (\<lambda>tx. logged (node_signer_account n tx) (CallSignerAccount tx)),
      node_simulate = (\<lambda>tx. logged (node_simulate n tx) (CallSimulate tx)),
      node_broadcast = (\<lambda>b. logged (node_broadcast n b) (CallBroadcast b)),
      node_await_delivery = (\<lambda>d h. logged (node_await_delivery n d h) (CallAwait d h))\<rparr>"

definition logged_fac :: "('pk, 'w) facilitator \<Rightarrow> ('pk, 'w \<times> 'pk node_call list) facilitator" where
  "logged_fac f =
     \<lparr>fac_lib = fac_lib f, fac_node = logged_node (fac_node f), fac_chain_id = fac_chain_id f,
      fac_clock = (\<lambda>(w, l). let (t, w') = fac_clock f w in (t, w', l))\<rparr>"

definition logged_ctx :: "'w go_context \<Rightarrow> ('w \<times> 'c list) go_context" where
  "logged_ctx ctx = \<lparr>ctx_deadline = ctx_deadline ctx, ctx_err = (\<lambda>(w, l). ctx_err ctx w)\<rparr>"

lemma logged_fields [simp]:
  "fac_lib (logged_fac f) = fac_lib f" "fac_chain_id (logged_fac f) = fac_chain_id f"
  "fac_clock (logged_fac f) (w, l) = (fst (fac_clock f w), snd (fac_clock f w), l)"
  "ctx_deadline (logged_ctx ctx) = ctx_deadline ctx" "ctx_err (logged_ctx ctx) (w, l) = ctx_err ctx w"
  by (simp_all add: logged_fac_def logged_ctx_def split: prod.splits)

lemma logged_clock:
  "fac_clock (logged_fac f) wl = (fst (fac_clock f (fst wl)), snd (fac_clock f (fst wl)), snd wl)"
  by (cases wl) simp

lemma logged_pure [simp]:
  "network (logged_fac f) = network f" "payment_key (logged_fac f) raw = payment_key f raw"
  "settleRefusal (logged_fac f) c = settleRefusal f c"
  "deliveryDeadline (logged_ctx ctx) t = deliveryDeadline ctx t"
  unfolding network_def payment_key_def settleRefusal_def deliveryDeadline_def logged_fields
  by (rule refl)+

lemma logged_checkOffline [simp]: "checkOffline (logged_fac f) p r = checkOffline f p r"
  unfolding checkOffline_def logged_fields logged_pure by (rule refl)

lemma logged_calls [simp]:
  "node_signer_account (fac_node (logged_fac f)) tx (w, l) =
     (fst (node_signer_account (fac_node f) tx w), snd (node_signer_account (fac_node f) tx w),
      l @ [CallSignerAccount tx (fst (node_signer_account (fac_node f) tx w))])"
  "node_simulate (fac_node (logged_fac f)) tx (w, l) =
     (fst (node_simulate (fac_node f) tx w), snd (node_simulate (fac_node f) tx w),
      l @ [CallSimulate tx (fst (node_simulate (fac_node f) tx w))])"
  "node_broadcast (fac_node (logged_fac f)) b (w, l) =
     (fst (node_broadcast (fac_node f) b w), snd (node_broadcast (fac_node f) b w),
      l @ [CallBroadcast b (fst (node_broadcast (fac_node f) b w))])"
  "node_await_delivery (fac_node (logged_fac f)) d h (w, l) =
     (fst (node_await_delivery (fac_node f) d h w), snd (node_await_delivery (fac_node f) d h w),
      l @ [CallAwait d h (fst (node_await_delivery (fac_node f) d h w))])"
  by (simp_all add: logged_fac_def logged_node_def logged_def split: prod.splits)

lemma logged_checkOnChain:
  "fst (checkOnChain (logged_fac f) tx raw payer (w, l)) = fst (checkOnChain f tx raw payer w)"
  "fst (snd (checkOnChain (logged_fac f) tx raw payer (w, l))) = snd (checkOnChain f tx raw payer w)"
proof -
  obtain r1 w1 where 1: "node_signer_account (fac_node f) tx w = (r1, w1)" by fastforce
  obtain r2 w2 where 2: "node_simulate (fac_node f) tx w1 = (r2, w2)" by fastforce
  show "fst (checkOnChain (logged_fac f) tx raw payer (w, l)) = fst (checkOnChain f tx raw payer w)"
    "fst (snd (checkOnChain (logged_fac f) tx raw payer (w, l))) = snd (checkOnChain f tx raw payer w)"
    by (simp_all add: checkOnChain_def verifyAccountChecks_def 1 2
        split: sum.split option.split signature_state.split)
qed

lemma logged_delivery:
  "fst (delivery (logged_fac f) (logged_ctx ctx) h p (w, l)) = fst (delivery f ctx h p w)"
  "fst (snd (delivery (logged_fac f) (logged_ctx ctx) h p (w, l))) = snd (delivery f ctx h p w)"
proof -
  obtain t w0 where 0: "fac_clock f w = (t, w0)" by fastforce
  obtain r w1 where 1: "node_await_delivery (fac_node f) (deliveryDeadline ctx t) h w0 = (r, w1)" by fastforce
  show "fst (delivery (logged_fac f) (logged_ctx ctx) h p (w, l)) = fst (delivery f ctx h p w)"
    "fst (snd (delivery (logged_fac f) (logged_ctx ctx) h p (w, l))) = snd (delivery f ctx h p w)"
    by (simp_all add: delivery_def Let_def 0 1 split: option.split)
qed

text \<open>Delivery makes one call.\<close>

lemma delivery_log:
  "\<exists>d r. snd (snd (delivery (logged_fac f) (logged_ctx ctx) h p (w, l))) = l @ [CallAwait d h r]"
  by (auto simp: delivery_def Let_def split: prod.splits option.splits)

lemma checkOnChain_log:
  "\<exists>cs. snd (snd (checkOnChain (logged_fac f) tx raw payer (w, l))) = l @ cs \<and> (\<forall>c \<in> set cs. \<not> is_broadcast c)"
proof -
  obtain r1 w1 where 1: "node_signer_account (fac_node f) tx w = (r1, w1)" by fastforce
  obtain r2 w2 where 2: "node_simulate (fac_node f) tx w1 = (r2, w2)" by fastforce
  show ?thesis
    by (simp add: checkOnChain_def verifyAccountChecks_def 1 2
        split: sum.split option.split signature_state.split)
qed

text \<open>An accepted on-chain check has read an account that verifies the signature, and simulated.\<close>

lemma checkOnChain_accepted_log:
  assumes "checkOnChain (logged_fac f) tx raw payer (w, l) = (PaymentAccepted tx' raw' payer', w', l')"
  shows "\<exists>signer acc w1. txSigner (fac_lib f) tx = Inr signer \<and>
    node_signer_account (fac_node f) tx w = (Inr acc, w1) \<and> node_simulate (fac_node f) tx w1 = (None, w') \<and>
    verifySignature (fac_lib f) tx acc signer (fac_chain_id f) = SignatureFresh \<and>
    l' = l @ [CallSignerAccount tx (Inr acc), CallSimulate tx None] \<and> tx' = tx \<and> raw' = raw \<and> payer' = payer"
  using assms
  by (auto simp: checkOnChain_def verifyAccountChecks_def refusePayment_def prod_eq_iff split: check_splits)

lemma settle_log:
  assumes "settle (logged_fac f) (logged_ctx ctx) tx raw payer (w, l) = (res, w', l')"
  shows "(\<exists>cs. l' = l @ cs \<and> (\<forall>c \<in> set cs. \<not> is_broadcast c)) \<or>
    (\<exists>signer acc w1 w2 r rest. txSigner (fac_lib f) tx = Inr signer \<and>
       node_signer_account (fac_node f) tx w = (Inr acc, w1) \<and>
       verifySignature (fac_lib f) tx acc signer (fac_chain_id f) = SignatureFresh \<and>
       node_simulate (fac_node f) tx w1 = (None, w2) \<and> ctx_err ctx w2 = None \<and>
       r = fst (node_broadcast (fac_node f) raw w2) \<and>
       l' = l @ [CallSignerAccount tx (Inr acc), CallSimulate tx None, CallBroadcast raw r] @ rest \<and>
       (\<forall>c \<in> set rest. \<not> is_broadcast c))" (is "?none \<or> ?one")
proof -
  obtain c w1 l1 where c: "checkOnChain (logged_fac f) tx raw payer (w, l) = (c, w1, l1)"
    by (metis surj_pair)
  from checkOnChain_log [of f tx raw payer w l] c obtain cs
    where cs: "l1 = l @ cs" "\<forall>c \<in> set cs. \<not> is_broadcast c" by auto
  show ?thesis
  proof (cases c)
    case (PaymentAccepted tx' raw' payer')
    from checkOnChain_accepted_log [OF c [unfolded PaymentAccepted]] obtain signer acc w0 where
      a: "txSigner (fac_lib f) tx = Inr signer" "node_signer_account (fac_node f) tx w = (Inr acc, w0)"
        "node_simulate (fac_node f) tx w0 = (None, w1)"
        "verifySignature (fac_lib f) tx acc signer (fac_chain_id f) = SignatureFresh"
        "l1 = l @ [CallSignerAccount tx (Inr acc), CallSimulate tx None]" "raw' = raw" "payer' = payer"
      by blast
    show ?thesis
    proof (cases "ctx_err ctx w1")
      case (Some e)
      with assms c PaymentAccepted have "l' = l1" by (simp add: settle_def)
      with cs show ?thesis by blast
    next
      case None
      obtain b w2 where b: "node_broadcast (fac_node f) raw w1 = (b, w2)" by fastforce
      obtain rest where "l' = l1 @ [CallBroadcast raw b] @ rest" "\<forall>c \<in> set rest. \<not> is_broadcast c"
      proof (cases b)
        case (Inl e)
        with assms c PaymentAccepted None b a that [of "[]"] show thesis
          by (simp add: settle_def split: if_splits)
      next
        case (Inr h)
        with assms c PaymentAccepted None b a
        have "delivery (logged_fac f) (logged_ctx ctx) h payer (w2, l1 @ [CallBroadcast raw b]) = (res, w', l')"
          by (simp add: settle_def)
        with delivery_log [of f ctx h payer w2 "l1 @ [CallBroadcast raw b]"] that show thesis
          by fastforce
      qed
      with a None b have ?one by (intro disjI2 exI [of _ signer] exI [of _ acc] exI [of _ w0] exI [of _ w1] exI [of _ b] exI [of _ rest]) simp
      then show ?thesis ..
    qed
  qed (use assms c cs in \<open>auto simp: settle_def\<close>)
qed

text \<open>
  C3. A settle broadcasts at most one transaction, and only one the payer signed for this offer on
  this chain: the bytes are exactly those the payload carried; they decode to a transaction that is
  statically valid for the offer; the signer's account, read just before, verifies its signature at
  the current sequence for this chain id; the simulation that followed succeeded; the request was
  still alive then, in the world both reads left, which is the one the broadcast went to; and the
  payment was not on record in the settlement table.
\<close>

theorem broadcast_only_verified:
  assumes "gm_ok st"
    and "Settle (logged_fac f) (logged_ctx ctx) payload req st (w, []) = (res, st', w', calls)"
    and "CallBroadcast b r \<in> set calls"
  shows "\<exists>t tx send signer acc w1 w2 rest. offer_rules f payload req \<and>
    transactionOf (pp_payload payload) = Inr t \<and> b64_decode t = Some b \<and>
    static_rules (fac_lib f) req b tx send \<and> txSigner (fac_lib f) tx = Inr signer \<and>
    node_signer_account (fac_node f) tx (snd (fac_clock f w)) = (Inr acc, w1) \<and>
    verifySignature (fac_lib f) tx acc signer (fac_chain_id f) = SignatureFresh \<and>
    node_simulate (fac_node f) tx w1 = (None, w2) \<and> ctx_err ctx w2 = None \<and>
    r = fst (node_broadcast (fac_node f) b w2) \<and>
    calls = [CallSignerAccount tx (Inr acc), CallSimulate tx None, CallBroadcast b r] @ rest \<and>
    list_all (\<lambda>c. \<not> is_broadcast c) rest \<and>
    (st_state (entry_at st (payment_key f b)) = Unclaimed \<or>
      expired (fst (fac_clock f w)) (entry_at st (payment_key f b)))"
  using assms(2)
proof (cases rule: Settle_cases)
  case (offline c)
  with assms(3) show ?thesis by simp
next
  case (duplicate tx raw payer t0 prior)
  with assms(3) show ?thesis by simp
next
  case (ran tx raw payer t0 wl prior st1 wl1 t1)
  have t0: "t0 = fst (fac_clock f w)" and wl: "wl = (snd (fac_clock f w), [])"
    using ran(2) by simp_all
  obtain w1 l1 where wl1: "wl1 = (w1, l1)" by (cases wl1)
  have calls: "calls = l1" using ran(5) wl1 by simp
  show ?thesis
  proof (cases "st_state prior = Pending")
    case True
    with ran(4) delivery_log [of f ctx "st_hash prior" "st_payer prior" "fst wl" "[]"] wl wl1 calls assms(3)
    show ?thesis by auto
  next
    case False
    with ran(4) wl wl1 calls
    have "settle (logged_fac f) (logged_ctx ctx) tx raw payer (snd (fac_clock f w), []) = (res, w1, calls)"
      by simp
    from settle_log [OF this] assms(3) obtain signer acc w2 w3 rest where
      s: "txSigner (fac_lib f) tx = Inr signer"
        "verifySignature (fac_lib f) tx acc signer (fac_chain_id f) = SignatureFresh"
        "ctx_err ctx w3 = None" "b = raw"
        "calls = [CallSignerAccount tx (Inr acc), CallSimulate tx None, CallBroadcast b r] @ rest"
        "\<forall>c \<in> set rest. \<not> is_broadcast c"
        "node_signer_account (fac_node f) tx (snd (fac_clock f w)) = (Inr acc, w2)"
        "node_simulate (fac_node f) tx w2 = (None, w3)" "r = fst (node_broadcast (fac_node f) b w3)"
      by fastforce
    have "st_state prior = Unclaimed"
      using claim_granted(2) [OF assms(1)] ran(3) False by (metis logged_pure(2))
    then have "st_state (entry_at st (payment_key f b)) = Unclaimed \<or>
        expired (fst (fac_clock f w)) (entry_at st (payment_key f b))"
      using claim_prior [OF assms(1) ran(3)] t0 s(4) by (auto split: if_splits)
    with s ran(1) show ?thesis
      unfolding logged_checkOffline checkOffline_accepts_iff list_all_iff by blast
  qed
qed

text \<open>
  C14. A settle that finds its payment pending reconciles it and never broadcasts it again: the one node
  call it makes is to await the recorded hash, and it answers for the recorded payer, that the payment
  settled, that the chain refused it, or that it is pending still. It leaves the payment settled under that
  hash when a block executed it, successfully or not, and otherwise pending under the same hash, payer
  and broadcast time, so that presenting a payment again does not keep it pending past
  \<open>settlementTTL\<close>.
\<close>

theorem pending_is_reconciled:
  assumes "gm_ok st" "checkOffline f payload req = PaymentAccepted tx raw payer"
    and "gm_get st (payment_key f raw) = Some e" "st_state e = Pending"
    and "st_hash e \<noteq> ''''" "st_at e \<noteq> zero_time"
    and "fac_clock f w = (t0, w0)" "t0 - st_at e \<le> settlementTTL"
    and "Settle (logged_fac f) (logged_ctx ctx) payload req st (w, []) = (res, st', w', calls)"
  shows "\<exists>t1 w1 err w2 t2. fac_clock f w0 = (t1, w1) \<and>
    node_await_delivery (fac_node f) (deliveryDeadline ctx t1) (st_hash e) w1 = (err, w2) \<and>
    fac_clock f w2 = (t2, w') \<and> calls = [CallAwait (deliveryDeadline ctx t1) (st_hash e) err] \<and>
    res = (case err of
        None \<Rightarrow> Inr \<lparr>sr_success = True, sr_transaction = st_hash e, sr_network = network f, sr_payer = st_payer e,
          sr_reason = ''''\<rparr>
      | Some x \<Rightarrow> Inl (SettleError (if chainRefused x then ReasonBroadcastFailed else ErrSettlementPending)
          (st_payer e) (network f) (st_hash e) (error_text (fac_lib f) x))) \<and>
    entry_at st' (payment_key f raw) =
      (if \<exists>x. err = Some x \<and> \<not> chainRefused x then e
       else \<lparr>st_state = Settled, st_payer = '''', st_hash = st_hash e, st_at = t2\<rparr>)"
proof -
  let ?key = "payment_key f raw"
  have "\<not> expired t0 e" using assms(8) by (rule not_expired_within)
  from claim_live [OF assms(1,3) this] assms(4) obtain st1
    where c: "claim ?key t0 st = ((e, True), st1)" by simp
  have ok1: "gm_ok st1" using table_ok(2) [OF assms(1)] c by (metis snd_conv)
  obtain t1 w1 where t1: "fac_clock f w0 = (t1, w1)" by fastforce
  obtain err w2 where a: "node_await_delivery (fac_node f) (deliveryDeadline ctx t1) (st_hash e) w1 = (err, w2)"
    by fastforce
  obtain t2 w3 where t2: "fac_clock f w2 = (t2, w3)" by fastforce
  define ans where "ans = (case err of
      None \<Rightarrow> Inr \<lparr>sr_success = True, sr_transaction = st_hash e, sr_network = network f, sr_payer = st_payer e,
        sr_reason = ''''\<rparr>
    | Some x \<Rightarrow> Inl (SettleError (if chainRefused x then ReasonBroadcastFailed else ErrSettlementPending)
        (st_payer e) (network f) (st_hash e) (error_text (fac_lib f) x)))"
  have d: "delivery (logged_fac f) (logged_ctx ctx) (st_hash e) (st_payer e) (w0, []) =
      (ans, w2, [CallAwait (deliveryDeadline ctx t1) (st_hash e) err])"
    by (simp add: delivery_def t1 a ans_def split: option.split)
  have "Settle (logged_fac f) (logged_ctx ctx) payload req st (w, []) =
      (ans, recordOutcome ?key ans t2 st1, w3, [CallAwait (deliveryDeadline ctx t1) (st_hash e) err])"
    using Settle_accepted [of "logged_fac f" payload req tx raw payer "(w, [])" t0 "(w0, [])" st e st1 "logged_ctx ctx" ans]
      assms(2,4,7) c d t2 by simp
  with assms(9) have run: "res = ans" "st' = recordOutcome ?key ans t2 st1" "w' = w3"
    "calls = [CallAwait (deliveryDeadline ctx t1) (st_hash e) err]" by (metis prod.inject)+
  have e1: "entry_at st1 ?key = \<lparr>st_state = Settling, st_payer = '''', st_hash = st_hash e, st_at = st_at e\<rparr>"
    using entry_after_claim_granted [OF assms(1) c, of ?key] by simp
  have "e = \<lparr>st_state = Pending, st_payer = st_payer e, st_hash = st_hash e, st_at = st_at e\<rparr>"
    using assms(4) by (cases e) simp
  then have "entry_at st' ?key = (if \<exists>x. err = Some x \<and> \<not> chainRefused x then e
      else \<lparr>st_state = Settled, st_payer = '''', st_hash = st_hash e, st_at = t2\<rparr>)"
    using assms(5,6) e1 ok1 pending_not_failed unfolding run(2)
    by (cases err) (auto simp: ans_def recordOutcome_def entry_after)
  with run t1 a t2 show ?thesis unfolding ans_def by blast
qed

text \<open>The log changes nothing: the settle it is kept of is the facilitator's own.\<close>

lemma logged_settle:
  "fst (settle (logged_fac f) (logged_ctx ctx) tx raw payer (w, l)) = fst (settle f ctx tx raw payer w)"
  "fst (snd (settle (logged_fac f) (logged_ctx ctx) tx raw payer (w, l))) = snd (settle f ctx tx raw payer w)"
proof -
  obtain c w1 where c: "checkOnChain f tx raw payer w = (c, w1)" by fastforce
  with logged_checkOnChain [of f tx raw payer w l] obtain l1
    where c': "checkOnChain (logged_fac f) tx raw payer (w, l) = (c, w1, l1)"
    by (metis fst_conv snd_conv surj_pair)
  show "fst (settle (logged_fac f) (logged_ctx ctx) tx raw payer (w, l)) = fst (settle f ctx tx raw payer w)"
    "fst (snd (settle (logged_fac f) (logged_ctx ctx) tx raw payer (w, l))) = snd (settle f ctx tx raw payer w)"
    by (simp_all add: settle_def c c' logged_delivery case_prod_unfold
        split: payment_check.split option.split sum.split)
qed

lemma logged_Settle:
  "(let (res, st', w', calls) = Settle (logged_fac f) (logged_ctx ctx) payload req st (w, [])
    in (res, st', w')) = Settle f ctx payload req st w"
  by (simp add: Settle_def Let_def case_prod_unfold logged_settle logged_delivery logged_clock
      split: payment_check.split)

end
