(* ===== verification/Exact_Test.thy ===== *)
theory Exact_Test
  imports Facilitator_Settle
begin

text \<open>
  \<open>facilitator/exact/exacttest/exacttest.go\<close>: the scripted chain and the fixtures, which the
  properties of the facilitator are evaluated on. The scripted \<open>Node\<close> is its own world: each field
  sets what the matching call answers, and the counters record the calls. Its callbacks
  (\<open>OnAccount\<close>, \<open>OnBroadcast\<close>) are unset, and a \<open>Delivery\<close> reads its context's deadline only.

  \<open>test_lib\<close> is a small concrete instance of the linked libraries, over keys that are numbers: it
  knows one coin, one encoded transaction and one signature. It only shows that hypotheses about
  the libraries can hold; nothing is proved of the program from it.
\<close>

record 'pk test_node =
  tn_account :: "'pk std_account option"
  tn_account_err :: "go_error option"
  tn_simulate_err :: "go_error option"
  tn_hash :: string
  tn_broadcast_err :: "go_error option"
  tn_delivery :: "(instant \<Rightarrow> go_error option) option"
  tn_simulates :: nat
  tn_broadcasts :: nat
  tn_broadcasted :: bytes
  tn_awaits :: nat
  tn_awaited :: string

definition tn_SignerAccount :: "'pk std_tx \<Rightarrow> 'pk test_node \<Rightarrow> (go_error + 'pk std_account option) \<times> 'pk test_node" where
  "tn_SignerAccount tx n =
     ((case tn_account_err n of Some e \<Rightarrow> Inl e | None \<Rightarrow> Inr (tn_account n)), n)"

definition tn_Simulate :: "'pk std_tx \<Rightarrow> 'pk test_node \<Rightarrow> go_error option \<times> 'pk test_node" where
  "tn_Simulate tx n = (tn_simulate_err n, n\<lparr>tn_simulates := Suc (tn_simulates n)\<rparr>)"

definition tn_Broadcast :: "bytes \<Rightarrow> 'pk test_node \<Rightarrow> (go_error + string) \<times> 'pk test_node" where
  "tn_Broadcast tx n =
     ((case tn_broadcast_err n of Some e \<Rightarrow> Inl e | None \<Rightarrow> Inr (tn_hash n)),
      n\<lparr>tn_broadcasts := Suc (tn_broadcasts n), tn_broadcasted := tx\<rparr>)"

definition tn_AwaitDelivery :: "instant \<Rightarrow> string \<Rightarrow> 'pk test_node \<Rightarrow> go_error option \<times> 'pk test_node" where
  "tn_AwaitDelivery deadline hash n =
     ((case tn_delivery n of None \<Rightarrow> None | Some d \<Rightarrow> d deadline),
      n\<lparr>tn_awaits := Suc (tn_awaits n), tn_awaited := hash\<rparr>)"

definition test_chain :: "('pk, 'pk test_node) chain_node" where
  "test_chain = \<lparr>node_signer_account = tn_SignerAccount, node_simulate = tn_Simulate,
     node_broadcast = tn_Broadcast, node_await_delivery = tn_AwaitDelivery\<rparr>"

definition NeverDelivered :: "instant \<Rightarrow> go_error option" where
  "NeverDelivered deadline = Some (ErrorString ''context deadline exceeded'')"

definition ChainID :: string where "ChainID = ''dev''"
definition Payer :: string where "Payer = ''g1jg8mtutu9khhfwc4nxmuhcpftf0pajdhfvsqf5''"
definition PayTo :: string where "PayTo = ''g1u7y667z64x2h7vc6fmpcprgey4ck233jaww9zq''"

definition Requirements :: requirements where
  "Requirements = \<lparr>req_scheme = ''exact'', req_network = ''gno:'' @ ChainID, req_asset = ''ugnot'',
     req_amount = ''250000'', req_pay_to = PayTo, req_max_timeout = 0, req_extra = None\<rparr>"

definition PaymentPayload :: "requirements \<Rightarrow> string \<Rightarrow> payment_payload" where
  "PaymentPayload requirements transaction =
     \<lparr>pp_version = 2, pp_accepted = requirements,
      pp_payload = Some [(''transaction'', AnyString transaction)]\<rparr>"

definition AccountWithKey :: "'pk option \<Rightarrow> u64 \<Rightarrow> u64 \<Rightarrow> 'pk std_account option" where
  "AccountWithKey pub n s = Some \<lparr>acc_pub_key = pub, acc_number = n, acc_sequence = s\<rparr>"

lemmas test_node_defs = test_chain_def tn_SignerAccount_def tn_Simulate_def tn_Broadcast_def
  tn_AwaitDelivery_def AccountWithKey_def
lemmas fixture_defs = Requirements_def PaymentPayload_def ChainID_def

subsection \<open>A concrete instance\<close>

definition test_coin :: coin where
  "test_coin = \<lparr>coin_denom = ''ugnot'', coin_amount = 250000\<rparr>"

definition test_send :: msg_send where
  "test_send = \<lparr>from_address = Address Payer, to_address = Address PayTo, send_amount = [test_coin]\<rparr>"

definition test_tx :: "nat std_tx" where
  "test_tx = \<lparr>tx_msgs = [BankSend test_send],
     tx_fee = \<lparr>gas_wanted = 100000, gas_fee = \<lparr>coin_denom = ''ugnot'', coin_amount = 1000000\<rparr>\<rparr>,
     tx_signatures = [\<lparr>sig_pub_key = Some 11, sig_bytes = ''sig'', sig_session = zero_address\<rparr>],
     tx_memo = ''''\<rparr>"

definition test_lib :: "nat gno_lib" where
  "test_lib = \<lparr>
     parse_coins = (\<lambda>s. if s = ''250000ugnot'' then Inr [test_coin] else Inl (ErrorString ''invalid coin'')),
     is_positive = (\<lambda>c. 0 < sint (coin_amount c)),
     coin_text = (\<lambda>c. format_int (sint (coin_amount c)) @ coin_denom c),
     new_coin_safe = (\<lambda>d a. if sint a < 0 then Inl (ErrorString ''invalid coin'') else Inr \<lparr>coin_denom = d, coin_amount = a\<rparr>),
     address_string = address_bytes,
     address_from_bech32 = (\<lambda>s. Inr (Address s)),
     address_is_zero = (\<lambda>a. a = zero_address),
     unmarshal_tx = (\<lambda>b. if b = ''tx'' then Some test_tx else None),
     marshal_tx = (\<lambda>tx. if tx = test_tx then Inr ''tx'' else Inl (ErrorString ''amino'')),
     tx_hash = (\<lambda>b. b),
     get_signers = (\<lambda>tx. case tx_msgs tx of [BankSend s] \<Rightarrow> [from_address s] | _ \<Rightarrow> []),
     tx_validate = (\<lambda>_. None),
     send_validate = (\<lambda>_. None),
     get_sign_bytes = (\<lambda>tx c n s. Inr ''doc''),
     verify_payload = (\<lambda>k tx c n s sig. Inr (if k = 11 \<and> c = ''dev'' \<and> n = 7 \<and> s = 3 \<and> sig = ''sig''
       then PayloadRendering 1 else PayloadRenderingNone)),
     pk_address = (\<lambda>k. if k = 11 then Address Payer else zero_address),
     pk_equals = (=),
     pk_multisig = (\<lambda>_. False),
     err_text = (\<lambda>_. ''error'')\<rparr>"

definition test_fac :: "(nat, nat test_node) facilitator" where
  "test_fac = \<lparr>fac_lib = test_lib, fac_node = test_chain, fac_chain_id = ChainID,
     fac_clock = (\<lambda>w. (1000, w))\<rparr>"

definition test_world :: "nat test_node" where
  "test_world = \<lparr>tn_account = AccountWithKey (Some 11) 7 3, tn_account_err = None,
     tn_simulate_err = None, tn_hash = ''ab'', tn_broadcast_err = None, tn_delivery = None,
     tn_simulates = 0, tn_broadcasts = 0, tn_broadcasted = [], tn_awaits = 0, tn_awaited = []\<rparr>"

definition test_ctx :: "nat test_node go_context" where
  "test_ctx = \<lparr>ctx_deadline = None, ctx_err = (\<lambda>_. None)\<rparr>"

definition test_payload :: payment_payload where
  "test_payload = PaymentPayload Requirements (b64_encode ''tx'')"

lemmas test_defs = test_lib_def test_fac_def test_world_def test_ctx_def test_payload_def

lemma test_static: "verifyStatic test_lib Requirements ''tx'' = Inr (test_tx, Payer)"
  by (simp add: verifyStatic_def memo_def any_get_def test_lib_def test_tx_def test_send_def Requirements_def)

lemma test_offline: "checkOffline test_fac test_payload Requirements = PaymentAccepted test_tx ''tx'' Payer"
proof -
  have "network test_fac = req_network Requirements"
    by (simp add: network_def test_fac_def Requirements_def)
  moreover have "unsupportedTerms (req_extra Requirements) = None" "memo (req_extra Requirements) = Inr ''''"
    by (simp_all add: unsupportedTerms_def memo_def any_at_def any_get_def Requirements_def)
  moreover have "fac_lib test_fac = test_lib" by (simp add: test_fac_def)
  ultimately show ?thesis
    by (simp add: checkOffline_def test_payload_def PaymentPayload_def acceptsSameOffer_def
        transactionOf_def any_get_def b64_roundtrip test_static del: b64_encode.simps)
qed

text \<open>The fixture payment settles: account read, simulated, broadcast, delivered.\<close>

definition settled_world :: "nat test_node" where
  "settled_world = test_world\<lparr>tn_simulates := 1, tn_broadcasts := 1, tn_broadcasted := ''tx'',
     tn_awaits := 1, tn_awaited := ''ab''\<rparr>"

definition settled_response :: settle_response where
  "settled_response = \<lparr>sr_success = True, sr_transaction = ''ab'', sr_network = ''gno:dev'',
     sr_payer = Payer, sr_reason = ''''\<rparr>"

lemma test_signature:
  "txSigner test_lib test_tx = Inr (Address Payer)"
  "verifySignature test_lib test_tx (AccountWithKey (Some 11) 7 3) (Address Payer) ''dev'' = SignatureFresh"
  by (simp_all add: txSigner_def test_lib_def test_tx_def test_send_def verifySignature_def
      signingKey_def pubKey_def verifies_def number_def sequence_def AccountWithKey_def)

lemma test_fields:
  "fac_lib test_fac = test_lib" "fac_node test_fac = test_chain" "fac_chain_id test_fac = ''dev''"
  "fac_clock test_fac w = (1000, w)" "ctx_deadline test_ctx = None" "ctx_err test_ctx w = None"
  "network test_fac = ''gno:dev''"
  by (simp_all add: test_fac_def test_ctx_def ChainID_def network_def)

lemma test_onchain:
  "checkOnChain test_fac test_tx ''tx'' Payer test_world =
     (PaymentAccepted test_tx ''tx'' Payer, test_world\<lparr>tn_simulates := 1\<rparr>)"
  using test_signature
  by (simp add: checkOnChain_def verifyAccountChecks_def test_fields test_node_defs test_world_def)

lemma test_settle:
  "settle test_fac test_ctx test_tx ''tx'' Payer test_world = (Inr settled_response, settled_world)"
proof -
  have "node_broadcast test_chain ''tx'' (test_world\<lparr>tn_simulates := n\<rparr>) = (Inr ''ab'',
      test_world\<lparr>tn_simulates := n, tn_broadcasts := 1, tn_broadcasted := ''tx''\<rparr>)" for n
    by (simp add: test_node_defs test_world_def)
  moreover have "delivery test_fac test_ctx ''ab'' Payer
      (test_world\<lparr>tn_simulates := n, tn_broadcasts := 1, tn_broadcasted := ''tx''\<rparr>) =
      (Inr settled_response, settled_world\<lparr>tn_simulates := n\<rparr>)" for n
    by (simp add: delivery_def Let_def test_fields settled_response_def settled_world_def
        test_node_defs test_world_def)
  moreover have "settled_world\<lparr>tn_simulates := 1\<rparr> = settled_world"
    by (simp add: settled_world_def)
  ultimately show ?thesis
    by (simp add: settle_def test_onchain test_fields)
qed

lemma test_Settle:
  "Settle test_fac test_ctx test_payload Requirements [] test_world =
     (Inr settled_response,
      [(hex_encode ''tx'', \<lparr>st_state = Settled, st_payer = '''', st_hash = ''ab'', st_at = 1000\<rparr>)],
      settled_world)"
proof -
  have "tx_hash test_lib ''tx'' = ''tx''" by (simp add: test_lib_def)
  moreover have "claim k 1000 [] = ((unclaimed_entry, True),
      [(k, \<lparr>st_state = Settling, st_payer = '''', st_hash = '''', st_at = zero_time\<rparr>)])" for k
    by (simp add: claim_def Let_def gm_eval)
  ultimately show ?thesis
    by (simp add: Settle_def test_offline test_fields Let_def test_settle recordOutcome_def
        markSettled_def gm_put_def settled_response_def del: hex_encode.simps)
qed

subsection \<open>The facilitator's properties at the fixtures\<close>

theorem refusal_payer_signed_witness:
  "Verify test_fac test_payload Requirements (test_world\<lparr>tn_account := AccountWithKey (Some 11) 7 4\<rparr>) =
     (Inl (VerifyError ReasonSequenceMismatch Payer ''''), test_world\<lparr>tn_account := AccountWithKey (Some 11) 7 4\<rparr>) \<and>
   (\<exists>tx raw. checkOffline test_fac test_payload Requirements = PaymentAccepted tx raw Payer)"
proof -
  let ?w = "test_world\<lparr>tn_account := AccountWithKey (Some 11) 7 4\<rparr>"
  have "verifySignature test_lib test_tx (AccountWithKey (Some 11) 7 4) (Address Payer) ''dev'' = SignatureConsumed"
    by (simp add: test_lib_def test_tx_def verifySignature_def signingKey_def pubKey_def verifies_def
        number_def sequence_def AccountWithKey_def)
  moreover have "node_signer_account test_chain test_tx ?w = (Inr (AccountWithKey (Some 11) 7 4), ?w)"
    by (simp add: test_chain_def tn_SignerAccount_def test_world_def)
  ultimately have v: "Verify test_fac test_payload Requirements ?w =
      (Inl (VerifyError ReasonSequenceMismatch Payer ''''), ?w)"
    by (simp add: Verify_def check_def test_offline checkOnChain_def verifyAccountChecks_def
        test_fields test_signature refusePayment_def causeText_def)
  have "Payer \<noteq> ''''" by (simp add: Payer_def)
  from refusal_payer_signed [OF v this] v show ?thesis by blast
qed

theorem Settle_holds_nothing_witness:
  "gm_ok [(hex_encode ''tx'', \<lparr>st_state = Settled, st_payer = '''', st_hash = ''ab'', st_at = 1000\<rparr>)]"
  using Settle_holds_nothing [OF gm_ok_Nil test_Settle] by blast

theorem settled_then_duplicate_witness:
  "\<exists>st''. Settle test_fac test_ctx test_payload Requirements
     [(hex_encode ''tx'', \<lparr>st_state = Settled, st_payer = '''', st_hash = ''ab'', st_at = 1000\<rparr>)] settled_world =
     (Inl (SettleError ReasonDuplicateSettlement '''' ''gno:dev'' ''ab''
       ''this facilitator is settling or has settled this payment''), st'', settled_world)"
proof -
  have "1000 - st_at (entry_at
      [(hex_encode ''tx'', \<lparr>st_state = Settled, st_payer = '''', st_hash = ''ab'', st_at = 1000\<rparr>)]
      (payment_key test_fac ''tx'')) \<le> settlementTTL"
    by (simp add: entry_at_def zero_time_def settlementTTL_def time_simps unclaimed_entry_def del: hex_encode.simps)
  from settled_then_duplicate [OF gm_ok_Nil test_Settle test_offline test_offline test_fields(4) this,
      of test_ctx settled_world]
  show ?thesis by (simp add: test_fields settled_response_def del: hex_encode.simps)
qed

definition pending_table :: settlements where
  "pending_table =
     [(hex_encode ''tx'', \<lparr>st_state = Pending, st_payer = Payer, st_hash = ''ab'', st_at = 500\<rparr>)]"

theorem pending_is_reconciled_witness:
  "\<exists>st' w'. Settle (logged_fac test_fac) (logged_ctx test_ctx) test_payload Requirements pending_table (test_world, []) =
     (Inr settled_response, st', w', [CallAwait (1000 + deliveryWait) ''ab'' None])"
proof -
  obtain res st' w' calls where s: "Settle (logged_fac test_fac) (logged_ctx test_ctx) test_payload Requirements
      pending_table (test_world, []) = (res, st', w', calls)"
    by (metis surj_pair)
  have key: "payment_key test_fac ''tx'' = hex_encode ''tx''"
    by (simp add: payment_key_def test_fields test_lib_def)
  have ok: "gm_ok pending_table" by (simp add: pending_table_def gm_ok_def)
  have e: "gm_get pending_table (payment_key test_fac ''tx'') =
      Some \<lparr>st_state = Pending, st_payer = Payer, st_hash = ''ab'', st_at = 500\<rparr>"
    by (simp add: key pending_table_def del: hex_encode.simps)
  have "res = Inr settled_response \<and> calls = [CallAwait (1000 + deliveryWait) ''ab'' None]"
    using pending_is_reconciled [OF ok test_offline e _ _ _ test_fields(4) _ s]
    by (auto simp: zero_time_def settlementTTL_def time_simps test_fields test_node_defs test_world_def
        settled_response_def deliveryDeadline_def)
  with s show ?thesis by simp
qed

lemma test_logged_Settle:
  "\<exists>st' w' rest. Settle (logged_fac test_fac) (logged_ctx test_ctx) test_payload Requirements [] (test_world, []) =
     (Inr settled_response, st', w', [CallSignerAccount test_tx (Inr (AccountWithKey (Some 11) 7 3)),
        CallSimulate test_tx None, CallBroadcast ''tx'' (Inr ''ab'')] @ rest)"
proof -
  let ?l = "[CallSignerAccount test_tx (Inr (AccountWithKey (Some 11) 7 3)), CallSimulate test_tx None]"
  let ?w1 = "test_world\<lparr>tn_simulates := 1\<rparr>"
  have c: "checkOnChain (logged_fac test_fac) test_tx ''tx'' Payer (test_world, []) =
      (PaymentAccepted test_tx ''tx'' Payer, ?w1, ?l)"
    using test_signature
    by (simp add: checkOnChain_def verifyAccountChecks_def test_fields test_node_defs test_world_def)
  have b: "node_broadcast test_chain ''tx'' ?w1 = (Inr ''ab'', ?w1\<lparr>tn_broadcasts := 1, tn_broadcasted := ''tx''\<rparr>)"
    by (simp add: test_node_defs test_world_def)
  let ?w2 = "?w1\<lparr>tn_broadcasts := 1, tn_broadcasted := ''tx''\<rparr>"
  obtain rest where d: "snd (snd (delivery (logged_fac test_fac) (logged_ctx test_ctx) ''ab'' Payer
      (?w2, ?l @ [CallBroadcast ''tx'' (Inr ''ab'')]))) = ?l @ [CallBroadcast ''tx'' (Inr ''ab'')] @ rest"
    using delivery_log [of test_fac test_ctx "''ab''" Payer ?w2 "?l @ [CallBroadcast ''tx'' (Inr ''ab'')]"]
    by auto
  have "settle (logged_fac test_fac) (logged_ctx test_ctx) test_tx ''tx'' Payer (test_world, []) =
      delivery (logged_fac test_fac) (logged_ctx test_ctx) ''ab'' Payer (?w2, ?l @ [CallBroadcast ''tx'' (Inr ''ab'')])"
    using c b by (simp add: settle_def test_fields)
  with d have log: "snd (snd (settle (logged_fac test_fac) (logged_ctx test_ctx) test_tx ''tx'' Payer (test_world, []))) =
      ?l @ [CallBroadcast ''tx'' (Inr ''ab'')] @ rest" by simp
  have res: "fst (settle (logged_fac test_fac) (logged_ctx test_ctx) test_tx ''tx'' Payer (test_world, [])) =
      Inr settled_response"
    by (simp add: logged_settle test_settle)
  obtain w3 where s: "settle (logged_fac test_fac) (logged_ctx test_ctx) test_tx ''tx'' Payer (test_world, []) =
      (Inr settled_response, w3, ?l @ [CallBroadcast ''tx'' (Inr ''ab'')] @ rest)"
    using log res by (metis prod.collapse)
  have cl: "claim k t [] = ((unclaimed_entry, True),
      [(k, \<lparr>st_state = Settling, st_payer = '''', st_hash = '''', st_at = zero_time\<rparr>)])" for k t
    by (simp add: claim_def Let_def gm_eval)
  show ?thesis
    using s by (simp add: Settle_def test_offline test_fields Let_def cl logged_clock del: hex_encode.simps)
qed

theorem broadcast_only_verified_witness:
  "\<exists>tx send. offer_rules test_fac test_payload Requirements \<and>
     static_rules test_lib Requirements ''tx'' tx send"
proof -
  from test_logged_Settle obtain st' w' rest where s:
    "Settle (logged_fac test_fac) (logged_ctx test_ctx) test_payload Requirements [] (test_world, []) =
     (Inr settled_response, st', w', [CallSignerAccount test_tx (Inr (AccountWithKey (Some 11) 7 3)),
        CallSimulate test_tx None, CallBroadcast ''tx'' (Inr ''ab'')] @ rest)" by blast
  have "CallBroadcast ''tx'' (Inr ''ab'') \<in> set ([CallSignerAccount test_tx (Inr (AccountWithKey (Some 11) 7 3)),
      CallSimulate test_tx None, CallBroadcast ''tx'' (Inr ''ab'')] @ rest)" by simp
  from broadcast_only_verified [OF gm_ok_Nil s this] show ?thesis
    unfolding test_fields by blast
qed

end
