(* ===== verification/Client_Exact.thy ===== *)
theory Client_Exact
  imports Scheme_Rules
begin

text \<open>
  \<open>client/exact/scheme.go\<close>: the buyer's mechanism. An offer is read (\<open>readTerms\<close>), held to the spend
  cap and to the chain the buyer's node serves, and becomes an unsigned \<open>Payment\<close> (\<open>Prepare\<close>); a
  signature over it is verified before it becomes a payload (\<open>Payload\<close>); \<open>CreatePaymentPayload\<close> is
  the two with the signer between them.

  As for the facilitator, a call into the node or the signer takes the world \<open>'w\<close> and returns the
  one after it. A nil interface (\<open>node\<close>, \<open>pub\<close>, an account, a gas price) is \<open>None\<close>. The refusals
  that wrap a sentinel error keep it, so \<open>errors.Is\<close> is a value here.
\<close>

subsection \<open>Constants and errors\<close>

definition client_schemeExact :: string where "client_schemeExact = ''exact''"
definition namespace :: string where "namespace = ''gno''"
definition ugnot_Denom :: string where "ugnot_Denom = ''ugnot''"
definition gasWanted :: int where "gasWanted = 10000000"
definition gasPriceMargin :: int where "gasPriceMargin = 2"

definition unpricedGasFee :: coin where
  "unpricedGasFee = \<lparr>coin_denom = ugnot_Denom, coin_amount = 1000000\<rparr>"

definition maxGasFee :: coin where
  "maxGasFee = \<lparr>coin_denom = ugnot_Denom, coin_amount = 1000000\<rparr>"

definition ErrInvalidRequirements :: go_error where
  "ErrInvalidRequirements = ErrorString ''x402-gno: payment requirements refused''"

definition ErrExceedsSpendCap :: go_error where
  "ErrExceedsSpendCap = ErrorString ''x402-gno: price exceeds the spend cap''"

definition ErrExcessiveFee :: go_error where
  "ErrExcessiveFee = ErrorString ''x402-gno: network fee too high''"

definition refuse :: "string \<Rightarrow> go_error" where
  "refuse reason = DetailError ErrInvalidRequirements reason"

subsection \<open>Grammars\<close>

definition denomination :: "string \<Rightarrow> bool" where
  "denomination s = (case s of
     [] \<Rightarrow> False
   | c # cs \<Rightarrow> (is_lower c \<or> c = CHR ''/'') \<and> 2 \<le> length cs \<and> length cs \<le> 273 \<and>
       list_all (\<lambda>x. is_lower x \<or> is_digit x \<or> x \<in> set ''_.:/-'') cs)"

definition positiveAmount :: "string \<Rightarrow> bool" where
  "positiveAmount s = (case s of
     [] \<Rightarrow> False
   | c # cs \<Rightarrow> is_digit c \<and> c \<noteq> CHR ''0'' \<and> list_all is_digit cs)"

definition atomicAmount :: "string \<Rightarrow> bool" where
  "atomicAmount s = (s \<noteq> [] \<and> list_all is_digit s)"

text \<open>\<open>big.Int.SetString(s, 10)\<close> of a string of digits.\<close>

definition decimal :: "string \<Rightarrow> int" where
  "decimal s = foldl (\<lambda>n c. 10 * n + (int (of_char c) - 48)) 0 s"

subsection \<open>Reading an offer\<close>

definition chainIDOf :: "string \<Rightarrow> string option" where
  "chainIDOf net = (let (ns, chainID, _) = go_cut CHR '':'' net in
     if ns \<noteq> namespace \<or> ValidChainID chainID \<noteq> None then None else Some chainID)"

definition boundMemo :: "any_map \<Rightarrow> go_error + string" where
  "boundMemo extra =
     (case any_get extra ''memo'' of
        None \<Rightarrow> Inr ''''
      | Some v \<Rightarrow>
          (case v of
             AnyString m \<Rightarrow>
               if MaxMemoBytes < length m then Inl (refuse (''extra.memo is '' @ format_int (int (length m)) @
                 '' bytes, exceeding the '' @ format_int (int MaxMemoBytes) @ ''-byte maximum''))
               else Inr m
           | _ \<Rightarrow> Inl (refuse (''extra.memo is '' @ type_name v @ '', want string''))))"

record terms =
  t_chain_id :: string
  t_pay_to :: address
  t_price :: coin
  t_memo :: string

definition readTerms :: "'pk gno_lib \<Rightarrow> requirements \<Rightarrow> go_error + terms" where
  "readTerms lib req =
     (case chainIDOf (req_network req) of
        None \<Rightarrow> Inl (refuse (req_network req @ '' does not name a gno chain''))
      | Some chainID \<Rightarrow>
      if req_scheme req \<noteq> client_schemeExact then Inl (refuse (''scheme '' @ req_scheme req @ '' is not '' @ client_schemeExact))
      else if \<not> denomination (req_asset req) then Inl (refuse (''asset '' @ req_asset req @ '' is not a gno denomination''))
      else if \<not> positiveAmount (req_amount req) then Inl (refuse (''amount '' @ req_amount req @ '' is not a positive integer''))
      else if req_pay_to req = '''' then Inl (refuse ''requirements name no payTo'')
      else case address_from_bech32 lib (req_pay_to req) of
        Inl err \<Rightarrow> Inl (refuse (''payTo '' @ req_pay_to req @ '' is not a gno address''))
      | Inr payTo \<Rightarrow>
      if address_string lib payTo \<noteq> req_pay_to req \<or> address_is_zero lib payTo
      then Inl (refuse (''payTo '' @ req_pay_to req @ '' is not a gno address''))
      else if any_at (req_extra req) ''assetTransferMethod'' \<noteq> AnyNil \<and>
         any_at (req_extra req) ''assetTransferMethod'' \<noteq> AnyString AssetTransferMethod
      then Inl (refuse (''assetTransferMethod '' @ show_any (any_at (req_extra req) ''assetTransferMethod'') @
        '' is not '' @ AssetTransferMethod))
      else if any_at (req_extra req) ''paymentFlow'' \<noteq> AnyNil \<and>
         any_at (req_extra req) ''paymentFlow'' \<noteq> AnyString PaymentFlowAuthorization
      then Inl (refuse (''paymentFlow '' @ show_any (any_at (req_extra req) ''paymentFlow'') @
        '' is not '' @ PaymentFlowAuthorization))
      else case boundMemo (req_extra req) of
        Inl err \<Rightarrow> Inl err
      | Inr m \<Rightarrow>
      (case parse_coins lib (req_amount req @ req_asset req) of
        Inl err \<Rightarrow> Inl (refuse (req_amount req @ req_asset req @ '' is not one coin the chain can hold''))
      | Inr coins \<Rightarrow>
          if length coins \<noteq> 1 then Inl (refuse (req_amount req @ req_asset req @ '' is not one coin the chain can hold''))
          else Inr \<lparr>t_chain_id = chainID, t_pay_to = payTo, t_price = coins ! 0, t_memo = m\<rparr>))"

definition withinCap :: "'pk gno_lib \<Rightarrow> coin \<Rightarrow> string \<Rightarrow> go_error option" where
  "withinCap lib price limit =
     (if limit = '''' then None
      else if \<not> atomicAmount limit then Some (ErrorString (''x402-gno: spend cap '' @ strconv_quote limit @
        '' is not a whole number of '' @ coin_denom price))
      else if decimal limit < sint (coin_amount price)
      then Some (DetailError ErrExceedsSpendCap (coin_text lib price @ '' is more than the '' @ limit @
        coin_denom price @ '' one payment may cost''))
      else None)"

subsection \<open>The fee\<close>

text \<open>
  \<open>big.Int\<close> arithmetic is exact; \<open>Quo\<close> of a positive by a positive is \<open>div\<close>, and \<open>fee.Int64()\<close> of a
  number in range is the word that reads as it.
\<close>

text \<open>\<open>%s per %d gas\<close>, of a gas price.\<close>

definition named_gas_price :: "'pk gno_lib \<Rightarrow> gas_price \<Rightarrow> string" where
  "named_gas_price lib p = coin_text lib (price_coin p) @ '' per '' @ format_int (sint (price_gas p)) @ '' gas''"

definition gasFee :: "'pk gno_lib \<Rightarrow> gas_price option \<Rightarrow> go_error + coin" where
  "gasFee lib price =
     (case price of
        None \<Rightarrow> Inr unpricedGasFee
      | Some p \<Rightarrow>
          if price_gas p = 0 \<or> coin_amount (price_coin p) = 0 then Inr unpricedGasFee
          else if sint (price_gas p) < 0 \<or> sint (coin_amount (price_coin p)) < 0
          then Inl (ErrorString (''x402-gno: the chain reports a gas price of '' @ named_gas_price lib p))
          else let gas = sint (price_gas p);
                   fee = (gasWanted * gasPriceMargin * sint (coin_amount (price_coin p)) + gas - 1) div gas in
            if \<not> (- (2 ^ 63) \<le> fee \<and> fee < 2 ^ 63)
            then Inl (ErrorString (''x402-gno: at '' @ named_gas_price lib p @ '' the fee exceeds what one coin holds''))
            else case new_coin_safe lib (coin_denom (price_coin p)) (word_of_int fee) of
              Inl err \<Rightarrow> Inl (WrapError ''x402-gno: the chain's gas price names no coin a fee can be paid in'' err)
            | Inr c \<Rightarrow> Inr c)"

subsection \<open>Preparing a payment\<close>

record ('pk, 'w) buyer_node =
  bn_chain_id :: "'w \<Rightarrow> (go_error + string) \<times> 'w"
  bn_account :: "address \<Rightarrow> 'w \<Rightarrow> (go_error + 'pk std_account option) \<times> 'w"
  bn_session_account :: "address \<Rightarrow> address \<Rightarrow> 'w \<Rightarrow> (go_error + 'pk std_account option) \<times> 'w"
  bn_gas_price :: "'w \<Rightarrow> (go_error + gas_price option) \<times> 'w"

record ('pk, 'w) signer =
  sg_pub_key :: "'pk option"
  sg_sign :: "bytes \<Rightarrow> 'w \<Rightarrow> (go_error + bytes) \<times> 'w"

record 'pk payment =
  pay_tx :: "'pk std_tx"
  pay_chain_id :: string
  pay_number :: u64
  pay_sequence :: u64
  pay_pub_key :: "'pk option"
  pay_session :: address

definition readAccount ::
    "'pk gno_lib \<Rightarrow> ('pk, 'w) buyer_node \<Rightarrow> address \<Rightarrow> address \<Rightarrow> 'w \<Rightarrow> (go_error + 'pk std_account) \<times> 'w" where
  "readAccount lib node master key w =
     (let (answer, w') =
        (if address_is_zero lib master then
           (case bn_account node key w of
              (Inl err, w1) \<Rightarrow>
                (Inl (if as_type is_unknown_address err \<noteq> None
                      then WrapError (''x402-gno: the chain holds no account for '' @ address_string lib key @
                        ''; fund it before paying from it'') err
                      else WrapError (''x402-gno: read the account of '' @ address_string lib key) err), w1)
            | (Inr acc, w1) \<Rightarrow> (Inr acc, w1))
         else
           (case bn_session_account node master key w of
              (Inl err, w1) \<Rightarrow> (Inl (WrapError (''x402-gno: read session '' @ address_string lib key @ '' of '' @ address_string lib master) err), w1)
            | (Inr acc, w1) \<Rightarrow> (Inr acc, w1))) in
      case answer of
        Inl err \<Rightarrow> (Inl err, w')
      | Inr None \<Rightarrow> (Inl (ErrorString (''x402-gno: the node answered with no account for '' @ address_string lib key)), w')
      | Inr (Some acc) \<Rightarrow> (Inr acc, w'))"

text \<open>A fee that is refused was not \<open>unpricedGasFee\<close>, so a price was reported.\<close>

definition reported_price :: "'pk gno_lib \<Rightarrow> gas_price option \<Rightarrow> string" where
  "reported_price lib price = (case price of None \<Rightarrow> '''' | Some p \<Rightarrow> named_gas_price lib p)"

definition payment_fee :: "'pk gno_lib \<Rightarrow> gas_price option \<Rightarrow> go_error + coin" where
  "payment_fee lib price =
     (case gasFee lib price of
        Inl err \<Rightarrow> Inl err
      | Inr fee \<Rightarrow>
          if coin_denom fee \<noteq> coin_denom maxGasFee
          then Inl (DetailError ErrExcessiveFee (''the gas price the node reports, '' @ reported_price lib price @
            '', is not in '' @ coin_denom maxGasFee @ '', the coin a payment pays its fee in''))
          else if sint (coin_amount maxGasFee) < sint (coin_amount fee)
          then Inl (DetailError ErrExcessiveFee (''the gas price the node reports, '' @ reported_price lib price @
            '', makes the fee '' @ coin_text lib fee @ '', more than the '' @ coin_text lib maxGasFee @ '' a payment offers''))
          else Inr fee)"

definition Prepare ::
    "'pk gno_lib \<Rightarrow> ('pk, 'w) buyer_node option \<Rightarrow> 'pk option \<Rightarrow> address \<Rightarrow> requirements \<Rightarrow> string \<Rightarrow> 'w
      \<Rightarrow> (go_error + 'pk payment) \<times> 'w" where
  "Prepare lib nd pub master req maxAmount w =
     (case readTerms lib req of
        Inl err \<Rightarrow> (Inl err, w)
      | Inr t \<Rightarrow>
      (case withinCap lib (t_price t) maxAmount of
        Some err \<Rightarrow> (Inl err, w)
      | None \<Rightarrow>
      (case nd of
        None \<Rightarrow> (Inl (ErrorString ''x402-gno: a payment needs a node to read the chain from''), w)
      | Some node \<Rightarrow>
      (case pub of
        None \<Rightarrow> (Inl (ErrorString ''x402-gno: the signer has no public key''), w)
      | Some pk \<Rightarrow>
      if pk_multisig lib pk then (Inl (ErrorString ''x402-gno: a multisig key cannot pay: the facilitator takes one signature from one signer''), w)
      else
      (case bn_chain_id node w of
        (Inl err, w1) \<Rightarrow> (Inl (WrapError ''x402-gno: ask the node which chain it serves'' err), w1)
      | (Inr served, w1) \<Rightarrow>
      if served \<noteq> t_chain_id t
      then (Inl (ErrorString (''x402-gno: the offer is for chain '' @ t_chain_id t @ '' and the node serves '' @ served)), w1)
      else
      (case bn_gas_price node w1 of
        (Inl err, w2) \<Rightarrow> (Inl (WrapError ''x402-gno: read the chain's gas price'' err), w2)
      | (Inr price, w2) \<Rightarrow>
      (case payment_fee lib price of
        Inl err \<Rightarrow> (Inl err, w2)
      | Inr fee \<Rightarrow>
      (let key = pk_address lib pk;
           (payer, session) = (if \<not> address_is_zero lib master then (master, key) else (key, zero_address));
           send = \<lparr>from_address = payer, to_address = t_pay_to t, send_amount = [t_price t]\<rparr> in
      case send_validate lib send of
        Some err \<Rightarrow> (Inl (WrapError ''x402-gno: the payment is not a valid send'' err), w2)
      | None \<Rightarrow>
      (case readAccount lib node master key w2 of
        (Inl err, w3) \<Rightarrow> (Inl err, w3)
      | (Inr account, w3) \<Rightarrow>
          (Inr \<lparr>pay_tx = \<lparr>tx_msgs = [BankSend send],
                          tx_fee = \<lparr>gas_wanted = word_of_int gasWanted, gas_fee = fee\<rparr>,
                          tx_signatures = [], tx_memo = t_memo t\<rparr>,
                pay_chain_id = t_chain_id t, pay_number = acc_number account,
                pay_sequence = acc_sequence account, pay_pub_key = pub, pay_session = session\<rparr>, w3))))))))))"

subsection \<open>Signing it\<close>

definition SignBytes :: "'pk gno_lib \<Rightarrow> 'pk payment \<Rightarrow> go_error + bytes" where
  "SignBytes lib p =
     (case get_sign_bytes lib (pay_tx p) (pay_chain_id p) (pay_number p) (pay_sequence p) of
        Inl err \<Rightarrow> Inl (WrapError ''x402-gno: build the sign doc'' err)
      | Inr b \<Rightarrow> Inr b)"

text \<open>The account a payment is signed for.\<close>

definition payment_signer :: "'pk gno_lib \<Rightarrow> 'pk payment \<Rightarrow> address" where
  "payment_signer lib p =
     (if address_is_zero lib (pay_session p) \<and> length (tx_msgs (pay_tx p)) = 1
      then (case tx_msgs (pay_tx p) ! 0 of BankSend send \<Rightarrow> from_address send | OtherMsg t \<Rightarrow> pay_session p)
      else pay_session p)"

record scheme_payload =
  sp_version :: int
  sp_payload :: any_map

definition Payload :: "'pk gno_lib \<Rightarrow> 'pk payment \<Rightarrow> bytes \<Rightarrow> go_error + scheme_payload" where
  "Payload lib p signature =
     (case pay_pub_key p of
        None \<Rightarrow> Inl (ErrorString ''x402-gno: the payment names no key to verify its signature with'')
      | Some pk \<Rightarrow>
      if pk_address lib pk \<noteq> payment_signer lib p
      then Inl (ErrorString (''x402-gno: key '' @ address_string lib (pk_address lib pk) @ '' is not the key of '' @
        address_string lib (payment_signer lib p) @ '', the account the payment is signed for''))
      else
      (case verify_payload lib pk (pay_tx p) (pay_chain_id p) (pay_number p) (pay_sequence p) signature of
        Inl err \<Rightarrow> Inl (WrapError ''x402-gno: build the sign doc'' err)
      | Inr r \<Rightarrow>
      if r = PayloadRenderingNone then Inl (ErrorString (''x402-gno: the signature does not verify for key '' @
        address_string lib (pk_address lib pk) @ '' over this payment on chain '' @ pay_chain_id p))
      else
      (let tx = (pay_tx p)\<lparr>tx_signatures :=
             [\<lparr>sig_pub_key = Some pk, sig_bytes = signature, sig_session = pay_session p\<rparr>]\<rparr> in
      case tx_validate lib tx of
        Some err \<Rightarrow> Inl (WrapError ''x402-gno: the signed payment is not a valid transaction'' err)
      | None \<Rightarrow>
      (case marshal_tx lib tx of
        Inl err \<Rightarrow> Inl (WrapError ''x402-gno: encode the payment'' err)
      | Inr raw \<Rightarrow>
          Inr \<lparr>sp_version = 2, sp_payload = Some [(''transaction'', AnyString (b64_encode raw))]\<rparr>))))"

record ('pk, 'w) ExactGnoScheme =
  egs_lib :: "'pk gno_lib"
  egs_signer :: "('pk, 'w) signer option"
  egs_node :: "('pk, 'w) buyer_node option"
  egs_master :: address

definition CreatePaymentPayload ::
    "('pk, 'w) ExactGnoScheme \<Rightarrow> ('w \<Rightarrow> go_error option) \<Rightarrow> requirements \<Rightarrow> string \<Rightarrow> 'w
      \<Rightarrow> (go_error + scheme_payload) \<times> 'w" where
  "CreatePaymentPayload s ctx_error req maxAmount w =
     (case egs_signer s of
        None \<Rightarrow> (Inl (ErrorString ''x402-gno: the scheme needs both a signer and a node''), w)
      | Some signer \<Rightarrow>
      if egs_node s = None then (Inl (ErrorString ''x402-gno: the scheme needs both a signer and a node''), w)
      else
      (case Prepare (egs_lib s) (egs_node s) (sg_pub_key signer) (egs_master s) req maxAmount w of
        (Inl err, w1) \<Rightarrow> (Inl err, w1)
      | (Inr payment, w1) \<Rightarrow>
      (case ctx_error w1 of
        Some err \<Rightarrow> (Inl (WrapError ''x402-gno: the payment was given up before it was signed'' err), w1)
      | None \<Rightarrow>
      (case SignBytes (egs_lib s) payment of
        Inl err \<Rightarrow> (Inl err, w1)
      | Inr signBytes \<Rightarrow>
      (case sg_sign signer signBytes w1 of
        (Inl err, w2) \<Rightarrow> (Inl (WrapError ''x402-gno: sign the payment'' err), w2)
      | (Inr signature, w2) \<Rightarrow> (Payload (egs_lib s) payment signature, w2))))))"

definition WithMaster :: "address \<Rightarrow> ('pk, 'w) ExactGnoScheme \<Rightarrow> ('pk, 'w) ExactGnoScheme" where
  "WithMaster master s = s\<lparr>egs_master := master\<rparr>"

definition NewExactGnoScheme ::
    "'pk gno_lib \<Rightarrow> ('pk, 'w) signer option \<Rightarrow> ('pk, 'w) buyer_node option
      \<Rightarrow> (('pk, 'w) ExactGnoScheme \<Rightarrow> ('pk, 'w) ExactGnoScheme) list \<Rightarrow> ('pk, 'w) ExactGnoScheme" where
  "NewExactGnoScheme lib signer node opts =
     fold (\<lambda>opt s. opt s) opts
       \<lparr>egs_lib = lib, egs_signer = signer, egs_node = node, egs_master = zero_address\<rparr>"

subsection \<open>The chain an offer names\<close>

lemma go_cut_False: "go_cut c s = (a, b, False) \<Longrightarrow> b = [] \<and> a = s"
  by (auto simp: go_cut_def split: if_splits)

text \<open>
  An offer names a gno chain exactly when its network is \<open>gno:\<close> followed by a chain id CAIP-2 can
  name, and then it names that one.
\<close>

theorem chainIDOf_iff:
  "chainIDOf net = Some chainID \<longleftrightarrow> net = ''gno:'' @ chainID \<and> chainIDReference chainID"
proof
  assume "net = ''gno:'' @ chainID \<and> chainIDReference chainID"
  moreover have "go_cut CHR '':'' (''gno'' @ CHR '':'' # chainID) = (''gno'', chainID, True)"
    by (rule go_cut_fresh) simp
  ultimately show "chainIDOf net = Some chainID"
    by (simp add: chainIDOf_def namespace_def ValidChainID_None)
next
  assume L: "chainIDOf net = Some chainID"
  obtain ns rest found where cut: "go_cut CHR '':'' net = (ns, rest, found)" by (metis prod_cases3)
  with L have ok: "ns = ''gno''" "rest = chainID" "chainIDReference chainID"
    by (auto simp: chainIDOf_def namespace_def ValidChainID_None split: if_splits)
  have found
    using cut go_cut_False [of _ net ns rest] chainIDReference_not_Nil [OF ok(3)] ok(2) by (cases found) auto
  with cut have "net = ns @ CHR '':'' # rest" using go_cut_parts by simp
  with ok show "net = ''gno:'' @ chainID \<and> chainIDReference chainID" by simp
qed

subsection \<open>The fee\<close>

text \<open>\<open>std.NewCoinSafe\<close> returns the coin of the denomination and the amount, or an error.\<close>

definition coin_law :: "'pk gno_lib \<Rightarrow> bool" where
  "coin_law lib \<longleftrightarrow> (\<forall>d a c. new_coin_safe lib d a = Inr c \<longrightarrow> c = \<lparr>coin_denom = d, coin_amount = a\<rparr>)"

lemma ceiling_div:
  assumes "0 < (g::int)"
  shows "n \<le> ((n + g - 1) div g) * g \<and> ((n + g - 1) div g) * g < n + g"
proof -
  have "((n + g - 1) div g) * g + (n + g - 1) mod g = n + g - 1" by (rule div_mult_mod_eq)
  moreover have "0 \<le> (n + g - 1) mod g" "(n + g - 1) mod g < g" using assms by simp_all
  ultimately show ?thesis by linarith
qed

lemma sint_word_of_int: "- (2 ^ 63) \<le> n \<Longrightarrow> n < 2 ^ 63 \<Longrightarrow> sint (word_of_int n :: i64) = n"
  by transfer (simp add: signed_take_bit_int_eq_self)

text \<open>The fee of a chain that reports a price is that price, twice over, for \<open>gasWanted\<close>, rounded up.\<close>

lemma gasFee_priced:
  assumes law: "coin_law lib" and fee: "gasFee lib (Some p) = Inr fee"
    and priced: "price_gas p \<noteq> 0" "coin_amount (price_coin p) \<noteq> 0"
  shows "coin_denom fee = coin_denom (price_coin p) \<and> 0 < sint (price_gas p) \<and>
    20000000 * sint (coin_amount (price_coin p)) \<le> sint (coin_amount fee) * sint (price_gas p) \<and>
    sint (coin_amount fee) * sint (price_gas p) < 20000000 * sint (coin_amount (price_coin p)) + sint (price_gas p)"
proof -
  define g a where "g = sint (price_gas p)" and "a = sint (coin_amount (price_coin p))"
  define n where "n = (20000000 * a + g - 1) div g"
  have "\<not> g < 0" "\<not> a < 0"
    using fee priced by (auto simp: gasFee_def g_def a_def split: if_splits)
  moreover have "g \<noteq> 0" using priced(1) by (simp add: g_def signed_eq_0_iff)
  ultimately have g: "0 < g" by simp
  have "- (2 ^ 63) \<le> n \<and> n < 2 ^ 63" "new_coin_safe lib (coin_denom (price_coin p)) (word_of_int n) = Inr fee"
    using fee priced \<open>\<not> g < 0\<close> \<open>\<not> a < 0\<close>
    by (auto simp: gasFee_def Let_def gasWanted_def gasPriceMargin_def n_def g_def a_def
        split: if_splits sum.splits)
  moreover from this law have "fee = \<lparr>coin_denom = coin_denom (price_coin p), coin_amount = word_of_int n\<rparr>"
    by (simp add: coin_law_def)
  ultimately have "coin_denom fee = coin_denom (price_coin p)" "sint (coin_amount fee) = n"
    by (simp_all add: sint_word_of_int)
  with ceiling_div [OF g, of "20000000 * a"] g show ?thesis
    by (simp add: n_def g_def a_def)
qed

lemma payment_fee_positive:
  assumes "coin_law lib" "payment_fee lib price = Inr fee"
  shows "0 < sint (coin_amount fee)"
proof (cases "\<exists>p. price = Some p \<and> price_gas p \<noteq> 0 \<and> coin_amount (price_coin p) \<noteq> 0")
  case True
  then obtain p where p: "price = Some p" "price_gas p \<noteq> 0" "coin_amount (price_coin p) \<noteq> 0" by blast
  from assms(2) have "gasFee lib (Some p) = Inr fee"
    by (auto simp: payment_fee_def p split: sum.splits if_splits)
  moreover from this have "\<not> (sint (price_gas p) < 0 \<or> sint (coin_amount (price_coin p)) < 0)"
    using p by (auto simp: gasFee_def split: if_splits)
  moreover from p have "sint (price_gas p) \<noteq> 0" "sint (coin_amount (price_coin p)) \<noteq> 0"
    by (simp_all add: signed_eq_0_iff)
  ultimately show ?thesis
    using gasFee_priced [OF assms(1)] p by (smt (verit) mult_nonneg_nonneg mult_nonpos_nonneg)
next
  case False
  with assms(2) have "fee = unpricedGasFee"
    by (auto simp: payment_fee_def gasFee_def split: sum.splits if_splits option.splits)
  then show ?thesis by (simp add: unpricedGasFee_def)
qed

text \<open>
  C22. The fee a payment offers is in ugnot and at most 1 GNOT, whatever price the node reports; and
  when the node reports one, the fee is twice that price for \<open>gasWanted\<close> gas, rounded up to a whole
  unit and no further.
\<close>

theorem payment_fee_bounds:
  assumes "coin_law lib" "payment_fee lib price = Inr fee"
  shows "coin_denom fee = ugnot_Denom \<and> sint (coin_amount fee) \<le> 1000000 \<and>
    (\<forall>p. price = Some p \<and> price_gas p \<noteq> 0 \<and> coin_amount (price_coin p) \<noteq> 0 \<longrightarrow>
       20000000 * sint (coin_amount (price_coin p)) \<le> sint (coin_amount fee) * sint (price_gas p) \<and>
       sint (coin_amount fee) * sint (price_gas p) < 20000000 * sint (coin_amount (price_coin p)) + sint (price_gas p))"
proof -
  from assms(2) have fee: "gasFee lib price = Inr fee" "coin_denom fee = coin_denom maxGasFee"
    "sint (coin_amount fee) \<le> sint (coin_amount maxGasFee)"
    by (auto simp: payment_fee_def split: sum.splits if_splits)
  with gasFee_priced [OF assms(1)] show ?thesis by (auto simp: maxGasFee_def)
qed

subsection \<open>What a prepared payment pays\<close>

text \<open>
  The offers the mechanism signs payments for: this chain form of network, the scheme, the grammars,
  a payee written in its canonical form, terms the mechanism implements, a memo within the cap and a
  price that is one coin.
\<close>

definition acceptable_offer :: "'pk gno_lib \<Rightarrow> requirements \<Rightarrow> terms \<Rightarrow> bool" where
  "acceptable_offer lib req t \<longleftrightarrow>
     chainIDOf (req_network req) = Some (t_chain_id t) \<and> req_scheme req = ''exact'' \<and>
     denomination (req_asset req) \<and> positiveAmount (req_amount req) \<and> req_pay_to req \<noteq> '''' \<and>
     address_from_bech32 lib (req_pay_to req) = Inr (t_pay_to t) \<and>
     address_string lib (t_pay_to t) = req_pay_to req \<and> \<not> address_is_zero lib (t_pay_to t) \<and>
     any_at (req_extra req) ''assetTransferMethod'' \<in> {AnyNil, AnyString ''bank-send''} \<and>
     any_at (req_extra req) ''paymentFlow'' \<in> {AnyNil, AnyString ''authorization''} \<and>
     boundMemo (req_extra req) = Inr (t_memo t) \<and>
     parse_coins lib (req_amount req @ req_asset req) = Inr [t_price t]"

lemma readTerms_iff: "readTerms lib req = Inr t \<longleftrightarrow> acceptable_offer lib req t"
  unfolding readTerms_def acceptable_offer_def length1_iff
  by (cases t) (auto simp: client_schemeExact_def AssetTransferMethod_def PaymentFlowAuthorization_def
      split: option.splits sum.splits if_splits)

text \<open>What \<open>Prepare\<close> builds from the terms, the account, the fee and the key that will sign.\<close>

definition payment_for ::
    "'pk gno_lib \<Rightarrow> terms \<Rightarrow> coin \<Rightarrow> 'pk \<Rightarrow> address \<Rightarrow> 'pk std_account \<Rightarrow> 'pk payment" where
  "payment_for lib t fee pk master account =
     (let key = pk_address lib pk; own = address_is_zero lib master in
      \<lparr>pay_tx = \<lparr>tx_msgs = [BankSend \<lparr>from_address = (if own then key else master),
                                  to_address = t_pay_to t, send_amount = [t_price t]\<rparr>],
                tx_fee = \<lparr>gas_wanted = 10000000, gas_fee = fee\<rparr>, tx_signatures = [], tx_memo = t_memo t\<rparr>,
       pay_chain_id = t_chain_id t, pay_number = acc_number account, pay_sequence = acc_sequence account,
       pay_pub_key = Some pk, pay_session = (if own then zero_address else key)\<rparr>)"

lemma Prepare_spec:
  "Prepare lib nd pub master req maxAmount w = (Inr p, w3) \<longleftrightarrow>
     (\<exists>t node pk w1 price w2 fee account.
        acceptable_offer lib req t \<and> withinCap lib (t_price t) maxAmount = None \<and>
        nd = Some node \<and> pub = Some pk \<and> \<not> pk_multisig lib pk \<and>
        bn_chain_id node w = (Inr (t_chain_id t), w1) \<and>
        bn_gas_price node w1 = (Inr price, w2) \<and> payment_fee lib price = Inr fee \<and>
        send_validate lib \<lparr>from_address = (if address_is_zero lib master then pk_address lib pk else master),
          to_address = t_pay_to t, send_amount = [t_price t]\<rparr> = None \<and>
        readAccount lib node master (pk_address lib pk) w2 = (Inr account, w3) \<and>
        p = payment_for lib t fee pk master account)" (is "?L \<longleftrightarrow> ?R")
proof
  assume ?L
  then show ?R
    unfolding Prepare_def readTerms_iff [symmetric]
    by (auto simp: payment_for_def Let_def gasWanted_def split: sum.splits option.splits prod.splits if_splits)
next
  assume ?R
  then obtain t node pk w1 price w2 fee account where
    *: "readTerms lib req = Inr t" "withinCap lib (t_price t) maxAmount = None" "nd = Some node" "pub = Some pk"
      "\<not> pk_multisig lib pk" "bn_chain_id node w = (Inr (t_chain_id t), w1)"
      "bn_gas_price node w1 = (Inr price, w2)" "payment_fee lib price = Inr fee"
      "send_validate lib \<lparr>from_address = (if address_is_zero lib master then pk_address lib pk else master),
          to_address = t_pay_to t, send_amount = [t_price t]\<rparr> = None"
      "readAccount lib node master (pk_address lib pk) w2 = (Inr account, w3)"
      "p = payment_for lib t fee pk master account"
    unfolding readTerms_iff by blast
  show ?L
    using *(9) unfolding Prepare_def * (1-8)
    by (cases "address_is_zero lib master") (simp_all add: * Let_def payment_for_def gasWanted_def)
qed

text \<open>
  C10. \<open>Prepare\<close> returns a payment exactly when the offer is one the mechanism pays, its price is
  within the cap, a node and a key that is not a threshold key are given, the node serves the chain
  the offer names, its gas price gives a fee a payment offers, the send is valid, and the account the
  signature is verified against was read; and the payment is then one unsigned bank send of exactly
  the price to the payee, carrying the bound memo, over that account's number and sequence.
\<close>

theorem Prepare_iff:
  "Prepare lib nd pub master req maxAmount w = (Inr p, w3) \<longleftrightarrow>
     (\<exists>t node pk w1 price w2 fee account.
        acceptable_offer lib req t \<and> withinCap lib (t_price t) maxAmount = None \<and>
        nd = Some node \<and> pub = Some pk \<and> \<not> pk_multisig lib pk \<and>
        bn_chain_id node w = (Inr (t_chain_id t), w1) \<and>
        bn_gas_price node w1 = (Inr price, w2) \<and> payment_fee lib price = Inr fee \<and>
        send_validate lib \<lparr>from_address = (if address_is_zero lib master then pk_address lib pk else master),
          to_address = t_pay_to t, send_amount = [t_price t]\<rparr> = None \<and>
        readAccount lib node master (pk_address lib pk) w2 = (Inr account, w3) \<and>
        p = payment_for lib t fee pk master account)"
  by (rule Prepare_spec)

subsection \<open>What is asked, and what is signed\<close>

text \<open>The mechanism run over a world that keeps the log of its calls into the node and the signer.\<close>

datatype buyer_call =
    AskedChainID
  | AskedGasPrice
  | AskedAccount address
  | AskedSession address address
  | Signed bytes

definition logged_buyer_node :: "('pk, 'w) buyer_node \<Rightarrow> ('pk, 'w \<times> buyer_call list) buyer_node" where
  "logged_buyer_node n =
     \<lparr>bn_chain_id = logged (bn_chain_id n) (\<lambda>_. AskedChainID),
      bn_account = (\<lambda>a. logged (bn_account n a) (\<lambda>_. AskedAccount a)),
      bn_session_account = (\<lambda>m a. logged (bn_session_account n m a) (\<lambda>_. AskedSession m a)),
      bn_gas_price = logged (bn_gas_price n) (\<lambda>_. AskedGasPrice)\<rparr>"

definition logged_signer :: "('pk, 'w) signer \<Rightarrow> ('pk, 'w \<times> buyer_call list) signer" where
  "logged_signer sg =
     \<lparr>sg_pub_key = sg_pub_key sg, sg_sign = (\<lambda>b. logged (sg_sign sg b) (\<lambda>_. Signed b))\<rparr>"

definition logged_scheme :: "('pk, 'w) ExactGnoScheme \<Rightarrow> ('pk, 'w \<times> buyer_call list) ExactGnoScheme" where
  "logged_scheme s = \<lparr>egs_lib = egs_lib s, egs_signer = map_option logged_signer (egs_signer s),
     egs_node = map_option logged_buyer_node (egs_node s), egs_master = egs_master s\<rparr>"

text \<open>The reads a payment makes, in order.\<close>

definition chain_reads :: "'pk gno_lib \<Rightarrow> address \<Rightarrow> 'pk \<Rightarrow> buyer_call list" where
  "chain_reads lib master pk = [AskedChainID, AskedGasPrice,
     if address_is_zero lib master then AskedAccount (pk_address lib pk)
     else AskedSession master (pk_address lib pk)]"

lemma logged_readAccount:
  "readAccount lib (logged_buyer_node n) master key (w, l) =
     (fst (readAccount lib n master key w), snd (readAccount lib n master key w),
      l @ [if address_is_zero lib master then AskedAccount key else AskedSession master key])"
  by (cases "bn_account n key w"; cases "bn_session_account n master key w")
    (auto simp: readAccount_def logged_buyer_node_def logged_call split: sum.splits option.splits)

text \<open>Once the offer, the node and the key are in order, the chain is read, as far as it answers.\<close>

lemma logged_Prepare_reads:
  assumes t: "readTerms lib req = Inr t" "withinCap lib (t_price t) cap = None" "\<not> pk_multisig lib pk"
  shows "\<exists>pre rest. Prepare lib (Some (logged_buyer_node node)) (Some pk) master req cap (w, l) =
       (fst (Prepare lib (Some node) (Some pk) master req cap w),
        snd (Prepare lib (Some node) (Some pk) master req cap w), l @ pre) \<and>
     chain_reads lib master pk = pre @ rest \<and>
     (isl (fst (Prepare lib (Some node) (Some pk) master req cap w)) \<or> rest = [])"
proof -
  obtain c w1 where c: "bn_chain_id node w = (c, w1)" by (cases "bn_chain_id node w")
  obtain g w2 where g: "bn_gas_price node w1 = (g, w2)" by (cases "bn_gas_price node w1")
  obtain a w3 where a: "readAccount lib node master (pk_address lib pk) w2 = (a, w3)"
    by (cases "readAccount lib node master (pk_address lib pk) w2")
  have log: "bn_chain_id (logged_buyer_node node) (w, l) = (c, w1, l @ [AskedChainID])"
    "bn_gas_price (logged_buyer_node node) (w1, m) = (g, w2, m @ [AskedGasPrice])" for m
    using c g by (simp_all add: logged_buyer_node_def logged_call)
  consider "c \<noteq> Inr (t_chain_id t)"
    | "c = Inr (t_chain_id t)" "\<And>price. g = Inr price \<Longrightarrow> isl (payment_fee lib price)"
    | price fee where "c = Inr (t_chain_id t)" "g = Inr price" "payment_fee lib price = Inr fee"
    by (metis isl_def sum.exhaust)
  then show ?thesis
  proof cases
    case 1
    then show ?thesis
      using t c log by - (rule exI [of _ "[AskedChainID]"], cases c; simp add: Prepare_def chain_reads_def)
  next
    case 2
    then show ?thesis
      using t c g log
      by - (rule exI [of _ "[AskedChainID, AskedGasPrice]"],
         cases g; auto simp: Prepare_def chain_reads_def isl_def)
  next
    case (3 price fee)
    let ?valid = "send_validate lib \<lparr>from_address = (if address_is_zero lib master then pk_address lib pk else master),
      to_address = t_pay_to t, send_amount = [t_price t]\<rparr>"
    show ?thesis
    proof (cases ?valid)
      case None
      with t c g a log 3 show ?thesis
        by - (rule exI [of _ "chain_reads lib master pk"],
           cases "address_is_zero lib master"; cases a;
            simp add: Prepare_def Let_def logged_readAccount chain_reads_def)
    next
      case (Some e)
      with t c g log 3 show ?thesis
        by - (rule exI [of _ "[AskedChainID, AskedGasPrice]"],
           cases "address_is_zero lib master"; simp add: Prepare_def Let_def chain_reads_def)
    qed
  qed
qed

lemma logged_Prepare:
  "\<exists>pre. Prepare lib (map_option logged_buyer_node nd) pub master req cap (w, l) =
       (fst (Prepare lib nd pub master req cap w), snd (Prepare lib nd pub master req cap w), l @ pre) \<and>
     (pre = [] \<and> isl (fst (Prepare lib nd pub master req cap w)) \<or>
      (\<exists>t pk rest. acceptable_offer lib req t \<and> withinCap lib (t_price t) cap = None \<and>
        pub = Some pk \<and> chain_reads lib master pk = pre @ rest \<and>
        (isl (fst (Prepare lib nd pub master req cap w)) \<or> rest = [])))"
proof (cases "\<exists>t node pk. readTerms lib req = Inr t \<and> withinCap lib (t_price t) cap = None \<and> nd = Some node \<and>
    pub = Some pk \<and> \<not> pk_multisig lib pk")
  case False
  then have "Prepare lib (map_option logged_buyer_node nd) pub master req cap (w, l) =
      (fst (Prepare lib nd pub master req cap w), snd (Prepare lib nd pub master req cap w), l) \<and>
      isl (fst (Prepare lib nd pub master req cap w))"
    by (auto simp: Prepare_def split: sum.splits option.splits)
  then show ?thesis by (intro exI [of _ "[]"]) simp
next
  case True
  then obtain t node pk where t: "readTerms lib req = Inr t" "withinCap lib (t_price t) cap = None"
    "nd = Some node" "pub = Some pk" "\<not> pk_multisig lib pk" by blast
  from logged_Prepare_reads [OF t(1,2,5), of node master w l] t show ?thesis
    unfolding readTerms_iff by auto
qed

lemma logged_payload:
  assumes "CreatePaymentPayload (logged_scheme s) (\<lambda>(w, l). ctx_error w) req cap (w, []) = (res, w', calls)"
    and s: "egs_signer s = Some sg" "egs_node s = Some node"
    and pre: "Prepare (egs_lib s) (Some (logged_buyer_node node)) (sg_pub_key sg) (egs_master s) req cap (w, []) = (r, w1, pre)"
  shows "(\<forall>p b. \<not> (r = Inr p \<and> ctx_error w1 = None \<and> SignBytes (egs_lib s) p = Inr b)) \<and> calls = pre \<or>
    (\<exists>p b. r = Inr p \<and> ctx_error w1 = None \<and> SignBytes (egs_lib s) p = Inr b \<and> calls = pre @ [Signed b])"
proof (cases r)
  case (Inl e)
  with assms show ?thesis by (simp add: CreatePaymentPayload_def logged_scheme_def logged_signer_def)
next
  case (Inr p)
  with assms show ?thesis
    by (cases "ctx_error w1"; cases "SignBytes (egs_lib s) p")
      (auto simp: CreatePaymentPayload_def logged_scheme_def logged_signer_def logged_call split: sum.splits)
qed

lemma signed_in_reads: "Signed c \<in> set (chain_reads lib master pk @ [Signed b]) \<Longrightarrow> c = b"
  by (auto simp: chain_reads_def split: if_splits)

text \<open>
  C9. The node is asked nothing about an offer that is not acceptable or over the cap, and the signer
  is asked at most once, last of all, with the sign bytes of the payment \<open>Prepare\<close> built, after the
  chain id, the gas price and the account were read, and only while the caller still waits.
\<close>

theorem signed_only_after_checks:
  assumes "CreatePaymentPayload (logged_scheme s) (\<lambda>(w, l). ctx_error w) req cap (w, []) = (res, w', calls)"
  shows "(calls = [] \<or> (\<exists>t. acceptable_offer (egs_lib s) req t \<and> withinCap (egs_lib s) (t_price t) cap = None)) \<and>
    (\<forall>b. Signed b \<in> set calls \<longrightarrow>
      (\<exists>sg pk p w1. egs_signer s = Some sg \<and> sg_pub_key sg = Some pk \<and>
         Prepare (egs_lib s) (egs_node s) (Some pk) (egs_master s) req cap w = (Inr p, w1) \<and>
         ctx_error w1 = None \<and> SignBytes (egs_lib s) p = Inr b \<and>
         calls = chain_reads (egs_lib s) (egs_master s) pk @ [Signed b]))"
proof (cases "\<exists>sg node. egs_signer s = Some sg \<and> egs_node s = Some node")
  case False
  with assms have "calls = []"
    by (auto simp: CreatePaymentPayload_def logged_scheme_def split: option.splits)
  then show ?thesis by simp
next
  case True
  then obtain sg node where s: "egs_signer s = Some sg" "egs_node s = Some node" by blast
  obtain r w1 where r: "Prepare (egs_lib s) (Some node) (sg_pub_key sg) (egs_master s) req cap w = (r, w1)"
    by fastforce
  obtain pre where pre:
    "Prepare (egs_lib s) (Some (logged_buyer_node node)) (sg_pub_key sg) (egs_master s) req cap (w, []) = (r, w1, pre)"
    and asked: "pre = [] \<and> isl r \<or> (\<exists>t pk rest. acceptable_offer (egs_lib s) req t \<and> withinCap (egs_lib s) (t_price t) cap = None \<and>
        sg_pub_key sg = Some pk \<and> chain_reads (egs_lib s) (egs_master s) pk = pre @ rest \<and> (isl r \<or> rest = []))"
    using logged_Prepare [of "egs_lib s" "Some node" "sg_pub_key sg" "egs_master s" req cap w "[]"] r by auto
  have unsigned: "Signed b \<notin> set pre" for b
    using asked by (auto simp: chain_reads_def Cons_eq_append_conv split: if_splits)
  from logged_payload [OF assms s pre] show ?thesis
  proof (elim disjE conjE exE)
    assume "calls = pre"
    with asked unsigned show ?thesis by auto
  next
    fix p b assume p: "r = Inr p" "ctx_error w1 = None" "SignBytes (egs_lib s) p = Inr b" "calls = pre @ [Signed b]"
    then obtain t pk where t: "acceptable_offer (egs_lib s) req t" "withinCap (egs_lib s) (t_price t) cap = None"
      "sg_pub_key sg = Some pk" using r unfolding p(1) Prepare_spec by blast
    have calls: "calls = chain_reads (egs_lib s) (egs_master s) pk @ [Signed b]"
      using asked p(1,4) t(3) by auto
    show ?thesis
    proof (intro conjI allI impI)
      show "calls = [] \<or> (\<exists>t. acceptable_offer (egs_lib s) req t \<and> withinCap (egs_lib s) (t_price t) cap = None)"
        using t by blast
      fix c assume "Signed c \<in> set calls"
      then have "c = b" unfolding calls by (rule signed_in_reads)
      with s r p(1-3) t(3) calls show "\<exists>sg pk p w1. egs_signer s = Some sg \<and> sg_pub_key sg = Some pk \<and>
         Prepare (egs_lib s) (egs_node s) (Some pk) (egs_master s) req cap w = (Inr p, w1) \<and>
         ctx_error w1 = None \<and> SignBytes (egs_lib s) p = Inr c \<and>
         calls = chain_reads (egs_lib s) (egs_master s) pk @ [Signed c]"
        by simp
    qed
  qed
qed

end
