(* ===== verification/Go_Http.thy ===== *)
theory Go_Http
  imports X402_Types
begin

text \<open>
  What the program uses of \<open>net/http\<close>, \<open>net/url\<close>, \<open>io\<close> and \<open>strings\<close>: header maps, escaping a query, a
  body read up to a limit, and trimming. A body that is being received is the bytes that arrive and
  the error they end in, none at the end of the body.
\<close>

subsection \<open>Strings\<close>

definition go_contains :: "string \<Rightarrow> string \<Rightarrow> bool" where
  "go_contains s sub \<longleftrightarrow> list_ex (\<lambda>i. take (length sub) (drop i s) = sub) [0..<Suc (length s)]"

definition trim_suffix :: "string \<Rightarrow> string \<Rightarrow> string" where
  "trim_suffix s suf =
     (if length suf \<le> length s \<and> drop (length s - length suf) s = suf then take (length s - length suf) s else s)"

definition trim_prefix :: "string \<Rightarrow> string \<Rightarrow> string" where
  "trim_prefix s pre = (case go_cut_prefix pre s of Some r \<Rightarrow> r | None \<Rightarrow> s)"

text \<open>\<open>cmp.Or\<close> of strings: the first that is not empty.\<close>

definition cmp_Or :: "string list \<Rightarrow> string" where
  "cmp_Or ss = (case filter (\<lambda>s. s \<noteq> []) ss of [] \<Rightarrow> [] | s # _ \<Rightarrow> s)"

lemma trim_suffix_append [simp]: "trim_suffix (s @ suf) suf = s"
  by (simp add: trim_suffix_def)

lemma cmp_Or_Cons: "cmp_Or (s # ss) = (if s = [] then cmp_Or ss else s)"
  by (simp add: cmp_Or_def)

lemma cmp_Or_Nil [simp]: "cmp_Or [] = []"
  by (simp add: cmp_Or_def)

text \<open>The UTF-8 forms of the white space \<open>strings.TrimSpace\<close> removes.\<close>

definition white_space :: "string list" where
  "white_space =
     [[CHR '' ''], [CHR 0x09], [CHR 0x0A], [CHR 0x0B], [CHR 0x0C], [CHR 0x0D],
      [CHR 0xC2, CHR 0x85], [CHR 0xC2, CHR 0xA0], [CHR 0xE1, CHR 0x9A, CHR 0x80],
      [CHR 0xE2, CHR 0x80, CHR 0xA8], [CHR 0xE2, CHR 0x80, CHR 0xA9], [CHR 0xE2, CHR 0x80, CHR 0xAF],
      [CHR 0xE2, CHR 0x81, CHR 0x9F], [CHR 0xE3, CHR 0x80, CHR 0x80]] @
     map (\<lambda>n. [CHR 0xE2, CHR 0x80, char_of n]) [0x80..<0x8B]"

definition white_at :: "string \<Rightarrow> nat" where
  "white_at s = (case filter (\<lambda>w. take (length w) s = w) white_space of [] \<Rightarrow> 0 | w # _ \<Rightarrow> length w)"

function trim_left :: "string \<Rightarrow> string" where
  "trim_left s = (if s = [] \<or> white_at s = 0 then s else trim_left (drop (white_at s) s))"
  by pat_completeness auto

termination trim_left
  by (relation "measure length") auto

definition white_before :: "string \<Rightarrow> nat" where
  "white_before s =
     (case filter (\<lambda>w. length w \<le> length s \<and> drop (length s - length w) s = w) white_space of
        [] \<Rightarrow> 0 | w # _ \<Rightarrow> length w)"

function trim_right :: "string \<Rightarrow> string" where
  "trim_right s = (if s = [] \<or> white_before s = 0 then s else trim_right (take (length s - white_before s) s))"
  by pat_completeness auto

termination trim_right
  by (relation "measure length") auto

definition trim_space :: "string \<Rightarrow> string" where
  "trim_space s = trim_right (trim_left s)"

declare trim_left.simps [simp del] trim_right.simps [simp del]

subsection \<open>URLs\<close>

text \<open>What a parsed URL is asked for: \<open>url.Parse\<close> is the library's, its answer a record.\<close>

record parsed_url =
  u_scheme :: string
  u_host :: string
  u_hostname :: string
  u_has_user :: bool
  u_raw_query :: string
  u_force_query :: bool
  u_fragment :: string
  u_string :: string
  u_redacted :: string

text \<open>\<open>url.QueryEscape\<close>, and \<open>Values.Encode\<close> of values with one key.\<close>

definition upper_hex :: "nat \<Rightarrow> char" where
  "upper_hex n = char_of (if n < 10 then 48 + n else 55 + n)"

definition escape_byte :: "char \<Rightarrow> string" where
  "escape_byte c =
     (if is_lower c \<or> is_upper c \<or> is_digit c \<or> c \<in> set ''-_.~'' then [c]
      else if c = CHR '' '' then ''+''
      else [CHR ''%'', upper_hex (of_char c div 16), upper_hex (of_char c mod 16)])"

definition query_escape :: "string \<Rightarrow> string" where
  "query_escape s = concat (map escape_byte s)"

definition encode_value :: "string \<Rightarrow> string \<Rightarrow> string" where
  "encode_value k v = query_escape k @ ''='' @ query_escape v"

subsection \<open>Headers\<close>

type_synonym http_header = "(string, string list) gomap"

definition token_char :: "char \<Rightarrow> bool" where
  "token_char c \<longleftrightarrow> is_lower c \<or> is_upper c \<or> is_digit c \<or> c \<in> set ''!#$%&*+-.^_`|~'' \<or> c = CHR 0x27"

definition to_upper :: "char \<Rightarrow> char" where
  "to_upper c = (if is_lower c then char_of (of_char c - 32 :: nat) else c)"

definition to_lower :: "char \<Rightarrow> char" where
  "to_lower c = (if is_upper c then char_of (of_char c + 32 :: nat) else c)"

primrec canonical_from :: "bool \<Rightarrow> string \<Rightarrow> string" where
  "canonical_from up [] = []"
| "canonical_from up (c # s) = (if up then to_upper c else to_lower c) # canonical_from (c = CHR ''-'') s"

definition canonical_key :: "string \<Rightarrow> string" where
  "canonical_key k = (if list_all token_char k then canonical_from True k else k)"

definition header_get :: "http_header \<Rightarrow> string \<Rightarrow> string" where
  "header_get h k = (case gm_get h (canonical_key k) of Some (v # vs) \<Rightarrow> v | _ \<Rightarrow> [])"

subsection \<open>Bodies\<close>

type_synonym incoming = "bytes \<times> go_error option"

text \<open>\<open>io.ReadAll(io.LimitReader(r, n + 1))\<close>: what is past the first \<open>n + 1\<close> bytes is not looked at.\<close>

definition read_limited :: "nat \<Rightarrow> incoming \<Rightarrow> bytes \<times> go_error option" where
  "read_limited n src = (if n < length (fst src) then (take (Suc n) (fst src), None) else src)"

lemma read_limited_whole: "read_limited n src = (b, None) \<Longrightarrow> length b \<le> n \<Longrightarrow> src = (b, None)"
  by (auto simp: read_limited_def split: if_splits)

end
