(* ===== verification/Go_Handler.thy ===== *)
theory Go_Handler
  imports Go_Http Go_Encoding
begin

text \<open>
  What the program uses of an \<open>http.Handler\<close>. A handler is what it does to its \<open>ResponseWriter\<close>, call
  by call: what it does next may depend on what a call answered. A \<open>ResponseWriter\<close> is an interface, so
  it is a record of functions on the writer's own state, and a writer that wraps another is a function
  from such records to such records.
\<close>

type_synonym write_result = "int \<times> go_error option"

datatype handler_run =
    Served
  | SetHeader string string handler_run
  | DelHeader string handler_run
  | WriteHeader int handler_run
  | Write bytes "write_result \<Rightarrow> handler_run"

record 'w response_writer =
  rw_Header :: "'w \<Rightarrow> http_header"
  rw_PutHeader :: "http_header \<Rightarrow> 'w \<Rightarrow> 'w"
  rw_WriteHeader :: "int \<Rightarrow> 'w \<Rightarrow> 'w"
  rw_Write :: "bytes \<Rightarrow> 'w \<Rightarrow> write_result \<times> 'w"

text \<open>\<open>Header().Set\<close> and \<open>Header().Del\<close>.\<close>

definition header_set :: "string \<Rightarrow> string \<Rightarrow> http_header \<Rightarrow> http_header" where
  "header_set k v h = gm_put (canonical_key k) [v] h"

definition header_del :: "string \<Rightarrow> http_header \<Rightarrow> http_header" where
  "header_del k h = gm_del (canonical_key k) h"

primrec serve_on :: "'w response_writer \<Rightarrow> handler_run \<Rightarrow> 'w \<Rightarrow> 'w" where
  "serve_on rw Served w = w"
| "serve_on rw (SetHeader k v h) w = serve_on rw h (rw_PutHeader rw (header_set k v (rw_Header rw w)) w)"
| "serve_on rw (DelHeader k h) w = serve_on rw h (rw_PutHeader rw (header_del k (rw_Header rw w)) w)"
| "serve_on rw (WriteHeader status h) w = serve_on rw h (rw_WriteHeader rw status w)"
| "serve_on rw (Write p h) w = (let (r, w') = rw_Write rw p w in serve_on rw (h r) w')"

text \<open>The calls of a run that send something: a status or a part of the body.\<close>

datatype sent = Status int | Part bytes

primrec sent_on :: "'w response_writer \<Rightarrow> handler_run \<Rightarrow> 'w \<Rightarrow> sent list" where
  "sent_on rw Served w = []"
| "sent_on rw (SetHeader k v h) w = sent_on rw h (rw_PutHeader rw (header_set k v (rw_Header rw w)) w)"
| "sent_on rw (DelHeader k h) w = sent_on rw h (rw_PutHeader rw (header_del k (rw_Header rw w)) w)"
| "sent_on rw (WriteHeader status h) w = Status status # sent_on rw h (rw_WriteHeader rw status w)"
| "sent_on rw (Write p h) w = (let (r, w') = rw_Write rw p w in Part p # sent_on rw (h r) w')"

text \<open>The status those calls give a response, 200 unless one was named first, and its body.\<close>

fun sent_status :: "sent list \<Rightarrow> int" where
  "sent_status [] = 0"
| "sent_status (Status s # cs) = (if s = 0 then sent_status cs else s)"
| "sent_status (Part p # cs) = 200"

fun sent_body :: "sent list \<Rightarrow> bytes" where
  "sent_body [] = []"
| "sent_body (Status s # cs) = sent_body cs"
| "sent_body (Part p # cs) = p @ sent_body cs"

text \<open>\<open>http.Error\<close>, and \<open>http.NotFound\<close>.\<close>

definition http_error :: "string \<Rightarrow> int \<Rightarrow> handler_run" where
  "http_error message status =
     DelHeader ''Content-Length''
      (SetHeader ''Content-Type'' ''text/plain; charset=utf-8''
        (SetHeader ''X-Content-Type-Options'' ''nosniff''
          (WriteHeader status (Write (message @ [CHR 0x0A]) (\<lambda>r. Served)))))"

definition http_not_found :: handler_run where
  "http_not_found = http_error ''404 page not found'' 404"

text \<open>A writer that keeps what it is given: the response as the client would read it.\<close>

record kept_response =
  kr_header :: http_header
  kr_status :: int
  kr_body :: bytes

definition keeping :: "kept_response response_writer" where
  "keeping =
     \<lparr>rw_Header = kr_header, rw_PutHeader = (\<lambda>h w. w\<lparr>kr_header := h\<rparr>),
      rw_WriteHeader = (\<lambda>s w. if kr_status w = 0 then w\<lparr>kr_status := s\<rparr> else w),
      rw_Write = (\<lambda>p w. ((int (length p), None),
        w\<lparr>kr_status := (if kr_status w = 0 then 200 else kr_status w), kr_body := kr_body w @ p\<rparr>))\<rparr>"

definition no_response :: kept_response where
  "no_response = \<lparr>kr_header = [], kr_status = 0, kr_body = []\<rparr>"

subsection \<open>Queries\<close>

text \<open>\<open>url.QueryUnescape\<close>, and \<open>Get\<close> of the values \<open>url.ParseQuery\<close> reads, the broken pairs left out.\<close>

fun query_unescape :: "string \<Rightarrow> string option" where
  "query_unescape [] = Some []"
| "query_unescape (c # s) =
     (if c = CHR ''%'' then
        (case s of a # b # s' \<Rightarrow>
           (case (hex_val a, hex_val b) of
              (Some m, Some n) \<Rightarrow> map_option (\<lambda>t. char_of (16 * m + n) # t) (query_unescape s')
            | _ \<Rightarrow> None)
         | _ \<Rightarrow> None)
      else map_option (\<lambda>t. (if c = CHR ''+'' then CHR '' '' else c) # t) (query_unescape s))"

fun split_char :: "char \<Rightarrow> string \<Rightarrow> string list" where
  "split_char c [] = [[]]"
| "split_char c (x # xs) =
     (if x = c then [] # split_char c xs
      else (case split_char c xs of [] \<Rightarrow> [[x]] | p # ps \<Rightarrow> (x # p) # ps))"

definition query_pair :: "string \<Rightarrow> (string \<times> string) list" where
  "query_pair p =
     (if CHR '';'' \<in> set p \<or> p = [] then []
      else (let (k, v, _) = go_cut (CHR ''='') p in
        case (query_unescape k, query_unescape v) of (Some k', Some v') \<Rightarrow> [(k', v')] | _ \<Rightarrow> []))"

definition query_get :: "string \<Rightarrow> string \<Rightarrow> string" where
  "query_get raw key =
     (case map_of (concat (map query_pair (split_char (CHR ''&'') raw))) key of Some v \<Rightarrow> v | None \<Rightarrow> [])"

end
