(* ===== verification/Peer_Address.thy ===== *)
theory Peer_Address
  imports Go_Handler
begin

text \<open>
  \<open>peerAddress\<close> of \<open>facilitator/ratelimit.go\<close>, the key a request is throttled under, and what it uses of
  \<open>net\<close>: splitting a host from its port, reading an IP address, and writing an IPv6 one. An address is
  its eight 16-bit groups, as \<open>net.IP\<close> keeps both kinds in 16 bytes: an IPv4 one is
  \<open>0:0:0:0:0:ffff\<close> and its four bytes.
\<close>

type_synonym ip_groups = "nat list"

subsection \<open>Reading\<close>

definition last_part :: "char \<Rightarrow> string \<Rightarrow> string" where
  "last_part c s = rev (takeWhile (\<lambda>x. x \<noteq> c) (rev s))"

text \<open>\<open>net.SplitHostPort\<close>: the port is after the last colon; brackets are around the host and nowhere else.\<close>

definition split_host_port :: "string \<Rightarrow> (string \<times> string) option" where
  "split_host_port s =
     (if CHR '':'' \<notin> set s then None
      else
        (let port = last_part (CHR '':'') s; front = take (length s - length port - 1) s in
         if hd s = CHR ''['' then
           (if front = [] \<or> CHR '']'' \<notin> set s \<or> last front \<noteq> CHR '']'' then None
            else
              (let host = butlast (tl front) in
               if CHR '']'' \<in> set host \<or> CHR ''['' \<in> set (tl s) \<or> CHR '']'' \<in> set port then None
               else Some (host, port)))
         else if CHR '':'' \<in> set front \<or> CHR ''['' \<in> set s \<or> CHR '']'' \<in> set s then None
         else Some (front, port)))"

definition octet :: "string \<Rightarrow> nat option" where
  "octet s =
     (if s = [] \<or> \<not> list_all is_digit s \<or> (hd s = CHR ''0'' \<and> length s \<noteq> 1) \<or> 3 < length s then None
      else (let n = foldl (\<lambda>n c. 10 * n + (of_char c - 48)) 0 s in if 255 < n then None else Some n))"

definition parse_ip4 :: "string \<Rightarrow> nat list option" where
  "parse_ip4 s =
     (case map octet (split_char (CHR ''.'') s) of
        [Some a, Some b, Some c, Some d] \<Rightarrow> Some [a, b, c, d]
      | _ \<Rightarrow> None)"

definition hex_group :: "string \<Rightarrow> nat" where
  "hex_group s = foldl (\<lambda>n c. 16 * n + (case hex_val c of Some d \<Rightarrow> d | None \<Rightarrow> 0)) 0 s"

text \<open>
  The fields of an IPv6 address: the groups so far, where the two colons stood, and the text left. At
  most \<open>k\<close> more groups are read.
\<close>

fun parse_fields :: "nat \<Rightarrow> nat list \<Rightarrow> nat option \<Rightarrow> string \<Rightarrow> (nat list \<times> nat option \<times> string) option" where
  "parse_fields 0 gs e s = Some (gs, e, s)"
| "parse_fields (Suc k) gs e s =
     (let ds = takeWhile (\<lambda>c. hex_val c \<noteq> None) s; r = drop (length ds) s in
      if ds = [] \<or> 4 < length ds then None
      else if r \<noteq> [] \<and> hd r = CHR ''.'' then
        (if e = None \<and> length gs \<noteq> 6 \<or> k = 0 then None
         else (case parse_ip4 s of
             Some [a, b, c, d] \<Rightarrow> Some (gs @ [256 * a + b, 256 * c + d], e, [])
           | _ \<Rightarrow> None))
      else
        (let gs' = gs @ [hex_group ds] in
         if r = [] then Some (gs', e, [])
         else if hd r \<noteq> CHR '':'' \<or> tl r = [] then None
         else if hd (tl r) = CHR '':'' then
           (if e \<noteq> None then None
            else if tl (tl r) = [] then Some (gs', Some (length gs'), [])
            else parse_fields k gs' (Some (length gs')) (tl (tl r)))
         else parse_fields k gs' e (tl r)))"

definition parse_ip6 :: "string \<Rightarrow> ip_groups option" where
  "parse_ip6 s =
     (let lead = (take 2 s = ''::''); s' = (if lead then drop 2 s else s) in
      if lead \<and> s' = [] then Some (replicate 8 0)
      else
        (case parse_fields 8 [] (if lead then Some 0 else None) s' of
           Some (gs, e, []) \<Rightarrow>
             (case e of
                Some i \<Rightarrow> if length gs < 8 then Some (take i gs @ replicate (8 - length gs) 0 @ drop i gs) else None
              | None \<Rightarrow> if length gs < 8 then None else Some gs)
         | _ \<Rightarrow> None))"

text \<open>\<open>net.ParseIP\<close>: an address with a zone is none; the first dot or colon says which kind it is.\<close>

definition parse_ip :: "string \<Rightarrow> ip_groups option" where
  "parse_ip s =
     (if CHR ''%'' \<in> set s then None
      else (case filter (\<lambda>c. c = CHR ''.'' \<or> c = CHR '':'') s of
          [] \<Rightarrow> None
        | c # _ \<Rightarrow>
            if c = CHR ''.''
            then (case parse_ip4 s of
                Some [a, b, c, d] \<Rightarrow> Some (replicate 5 0 @ [0xFFFF, 256 * a + b, 256 * c + d])
              | _ \<Rightarrow> None)
            else parse_ip6 s))"

text \<open>\<open>ip.To4() != nil\<close>\<close>

definition is_ip4 :: "ip_groups \<Rightarrow> bool" where
  "is_ip4 gs \<longleftrightarrow> take 6 gs = replicate 5 0 @ [0xFFFF]"

subsection \<open>Writing\<close>

fun hex_digits :: "nat \<Rightarrow> string" where
  "hex_digits n = (if n < 16 then [hex_digit n] else hex_digits (n div 16) @ [hex_digit (n mod 16)])"

declare hex_digits.simps [simp del]

fun join_colons :: "string list \<Rightarrow> string" where
  "join_colons [] = []"
| "join_colons [s] = s"
| "join_colons (s # t # ts) = s @ CHR '':'' # join_colons (t # ts)"

text \<open>The first longest run of at least two zero groups: where it starts, and how long it is.\<close>

definition zero_run :: "ip_groups \<Rightarrow> nat \<times> nat" where
  "zero_run gs =
     fold (\<lambda>i (start, len).
       let l = length (takeWhile (\<lambda>g. g = 0) (drop i gs)) in
       if 2 \<le> l \<and> len < l then (i, l) else (start, len)) [0..<8] (8, 0)"

definition ip_string :: "ip_groups \<Rightarrow> string" where
  "ip_string gs =
     (let (start, len) = zero_run gs in
      if len = 0 then join_colons (map hex_digits gs)
      else join_colons (map hex_digits (take start gs)) @ ''::'' @ join_colons (map hex_digits (drop (start + len) gs)))"

subsection \<open>The key\<close>

definition ipv6PrefixBits :: nat where "ipv6PrefixBits = 64"

text \<open>\<open>ip.Mask\<close> with a mask of whole groups.\<close>

definition mask_groups :: "nat \<Rightarrow> ip_groups \<Rightarrow> ip_groups" where
  "mask_groups bits gs = take (bits div 16) gs @ replicate (length gs - bits div 16) 0"

definition peerAddress :: "string \<Rightarrow> string" where
  "peerAddress remote =
     (case split_host_port remote of
        None \<Rightarrow> remote
      | Some (host, port) \<Rightarrow>
          (case parse_ip host of
             None \<Rightarrow> host
           | Some ip \<Rightarrow> if is_ip4 ip then host else ip_string (mask_groups ipv6PrefixBits ip) @ ''/64''))"

subsection \<open>What keys the same\<close>

lemma parse_fields_length:
  "parse_fields k gs e s = Some (gs', e', s') \<Longrightarrow> length gs' \<le> length gs + k"
proof (induction k gs e s rule: parse_fields.induct)
  case (2 k gs e s)
  show ?case
    using "2.prems" "2.IH"
    by (fastforce simp: Let_def split: if_splits option.splits list.splits)
qed simp

lemma parse_ip6_length: "parse_ip6 s = Some gs \<Longrightarrow> length gs = 8"
  by (auto simp: parse_ip6_def Let_def dest!: parse_fields_length split: if_splits option.splits list.splits)

lemma parse_ip_length: "parse_ip s = Some gs \<Longrightarrow> length gs = 8"
  by (auto simp: parse_ip_def parse_ip6_length split: if_splits option.splits list.splits)

lemma hex_group_digits: "hex_group (hex_digits n) = n" "list_all (\<lambda>c. hex_val c \<noteq> None) (hex_digits n)" "hex_digits n \<noteq> []"
proof (induction n rule: hex_digits.induct)
  case (1 n)
  {
    case 1
    show ?case using "1.IH"(1)
      by (cases "n < 16") (simp_all add: hex_digits.simps [of n] hex_group_def hex_val_digit)
  next
    case 2
    show ?case using "1.IH"(2) by (cases "n < 16") (simp_all add: hex_digits.simps [of n] hex_val_digit)
  next
    case 3
    show ?case by (simp add: hex_digits.simps [of n])
  }
qed

lemma hex_digits_no_colon: "CHR '':'' \<notin> set (hex_digits n)"
proof -
  have "hex_val (CHR '':'') = None" by (simp add: hex_val_def)
  then show ?thesis using hex_group_digits(2) [of n] by (auto simp: list_all_iff)
qed

lemma split_char_fresh: "c \<notin> set s \<Longrightarrow> split_char c s = [s]"
  by (induction s) auto

lemma split_char_append: "c \<notin> set s \<Longrightarrow> split_char c (s @ c # t) = s # split_char c t"
  by (induction s) auto

lemma split_join: "ss \<noteq> [] \<Longrightarrow> \<forall>s \<in> set ss. CHR '':'' \<notin> set s \<Longrightarrow> split_char (CHR '':'') (join_colons ss) = ss"
  by (induction ss rule: join_colons.induct) (simp_all add: split_char_fresh split_char_append)

lemma join_groups_inj:
  assumes "join_colons (map hex_digits xs) = join_colons (map hex_digits ys)"
  shows "xs = ys"
proof -
  have split: "split_char (CHR '':'') (join_colons (map hex_digits zs)) = map hex_digits zs" if "zs \<noteq> []" for zs
    using that by (intro split_join) (auto simp: hex_digits_no_colon)
  have nil: "join_colons (map hex_digits zs) = [] \<longleftrightarrow> zs = []" for zs
  proof (cases zs)
    case (Cons z zs')
    then show ?thesis by (cases zs') (simp_all add: hex_group_digits(3))
  qed simp
  have "map hex_digits xs = map hex_digits ys"
  proof (cases "xs = [] \<or> ys = []")
    case True
    then show ?thesis using nil [of xs] nil [of ys] assms by metis
  next
    case False
    then have "xs \<noteq> []" "ys \<noteq> []" by simp_all
    then show ?thesis using split assms by metis
  qed
  moreover have "inj hex_digits" by (rule injI) (metis hex_group_digits(1))
  ultimately show ?thesis by simp
qed

definition strip_zeros :: "nat list \<Rightarrow> nat list" where
  "strip_zeros gs = rev (dropWhile (\<lambda>g. g = 0) (rev gs))"

lemma strip_zeros_inj: "strip_zeros [a, b, c, d] = strip_zeros [a', b', c', d'] \<Longrightarrow> [a, b, c, d] = [a', b', c', d']"
  by (auto simp: strip_zeros_def split: if_splits)

lemma zero_run_masked:
  "zero_run [a, b, c, d, 0, 0, 0, 0] = (length (strip_zeros [a, b, c, d]), 8 - length (strip_zeros [a, b, c, d]))"
proof -
  have upt: "[0..<8] = [0, 1, 2, 3, 4, 5, 6, 7]" by code_simp
  show ?thesis
    unfolding zero_run_def upt
    by (cases "a = 0"; cases "b = 0"; cases "c = 0"; cases "d = 0")
      (simp_all add: strip_zeros_def numeral_eq_Suc)
qed

lemma strip_zeros_take: "take (length (strip_zeros [a, b, c, d])) [a, b, c, d, 0, 0, 0, 0] = strip_zeros [a, b, c, d]"
  by (simp add: strip_zeros_def)

lemma masked_string: "ip_string [a, b, c, d, 0, 0, 0, 0] = join_colons (map hex_digits (strip_zeros [a, b, c, d])) @ ''::''"
proof -
  have "length (strip_zeros [a, b, c, d]) \<le> 4" by (simp add: strip_zeros_def)
  then have "8 - length (strip_zeros [a, b, c, d]) \<noteq> 0"
    "drop (length (strip_zeros [a, b, c, d]) + (8 - length (strip_zeros [a, b, c, d]))) [a, b, c, d, 0, 0, 0, 0] = []"
    by simp_all
  then show ?thesis by (simp add: ip_string_def zero_run_masked strip_zeros_take)
qed

lemma mask_64:
  assumes "length gs = 8"
  shows "\<exists>a b c d. take 4 gs = [a, b, c, d] \<and> mask_groups ipv6PrefixBits gs = [a, b, c, d, 0, 0, 0, 0]"
proof -
  have "length (take 4 gs) = Suc (Suc (Suc (Suc 0)))" using assms by simp
  then obtain a b c d where g: "take 4 gs = [a, b, c, d]" unfolding length_Suc_conv by auto
  have "replicate 4 (0 :: nat) = [0, 0, 0, 0]" by (simp add: numeral_eq_Suc)
  then have "mask_groups ipv6PrefixBits gs = [a, b, c, d, 0, 0, 0, 0]"
    using assms by (simp add: mask_groups_def ipv6PrefixBits_def g)
  with g show ?thesis by blast
qed

text \<open>
  Rotating addresses buys nothing: two IPv6 peers, whatever ports they call from, are throttled
  under one key exactly when their addresses agree in the first 64 bits.
\<close>

theorem same_key_iff_same_64:
  assumes "split_host_port r = Some (h, p)" "parse_ip h = Some g" "\<not> is_ip4 g"
    and "split_host_port r' = Some (h', p')" "parse_ip h' = Some g'" "\<not> is_ip4 g'"
  shows "peerAddress r = peerAddress r' \<longleftrightarrow> take 4 g = take 4 g'"
proof -
  obtain a b c d where g: "take 4 g = [a, b, c, d]" "mask_groups ipv6PrefixBits g = [a, b, c, d, 0, 0, 0, 0]"
    using mask_64 parse_ip_length [OF assms(2)] by blast
  obtain a' b' c' d' where g': "take 4 g' = [a', b', c', d']" "mask_groups ipv6PrefixBits g' = [a', b', c', d', 0, 0, 0, 0]"
    using mask_64 parse_ip_length [OF assms(5)] by blast
  have "peerAddress r = peerAddress r' \<longleftrightarrow> strip_zeros [a, b, c, d] = strip_zeros [a', b', c', d']"
    using assms join_groups_inj by (auto simp: peerAddress_def g(2) g'(2) masked_string)
  then show ?thesis using strip_zeros_inj [of a b c d a' b' c' d'] g(1) g'(1) by auto
qed

text \<open>
  A peer is keyed by its host, so that another connection of it never starts at a full burst, but
  an address with a zone, as a link-local peer has, is keyed in full: two of one /64 are two peers.
\<close>

theorem zoned_keys_in_full:
  assumes "split_host_port r = Some (h, p)" "CHR ''%'' \<in> set h"
  shows "peerAddress r = h"
  using assms by (simp add: peerAddress_def parse_ip_def)

lemma sample_peers:
  "split_host_port ''[1::2]:8'' = Some (''1::2'', ''8'')" "split_host_port ''[1::3:0]:9'' = Some (''1::3:0'', ''9'')"
  "parse_ip ''1::2'' = Some [1, 0, 0, 0, 0, 0, 0, 2]" "parse_ip ''1::3:0'' = Some [1, 0, 0, 0, 0, 0, 3, 0]"
proof -
  have hex: "hex_val (CHR ''0'') = Some 0" "hex_val (CHR ''1'') = Some 1" "hex_val (CHR ''2'') = Some 2"
    "hex_val (CHR ''3'') = Some 3" "hex_val (CHR '':'') = None"
    by (simp_all add: hex_val_def)
  have eight: "(8 :: nat) = Suc (Suc (Suc 5))" by simp
  show "split_host_port ''[1::2]:8'' = Some (''1::2'', ''8'')" "split_host_port ''[1::3:0]:9'' = Some (''1::3:0'', ''9'')"
    by (simp_all add: split_host_port_def last_part_def)
  show "parse_ip ''1::2'' = Some [1, 0, 0, 0, 0, 0, 0, 2]" "parse_ip ''1::3:0'' = Some [1, 0, 0, 0, 0, 0, 3, 0]"
    by (simp_all add: parse_ip_def parse_ip6_def eight Let_def hex hex_group_def numeral_eq_Suc)
qed

theorem same_key_iff_same_64_witness: "peerAddress ''[1::2]:8'' = peerAddress ''[1::3:0]:9''"
  using same_key_iff_same_64 [OF sample_peers(1,3) _ sample_peers(2,4)] by (simp add: is_ip4_def)

theorem zoned_keys_in_full_witness:
  "peerAddress ''[fe80::1%eth0]:80'' = ''fe80::1%eth0'' \<and> peerAddress ''[fe80::2%eth0]:80'' = ''fe80::2%eth0''"
proof -
  have "split_host_port ''[fe80::1%eth0]:80'' = Some (''fe80::1%eth0'', ''80'')"
    "split_host_port ''[fe80::2%eth0]:80'' = Some (''fe80::2%eth0'', ''80'')"
    by (simp_all add: split_host_port_def last_part_def)
  then show ?thesis using zoned_keys_in_full by simp
qed

end
