(* ===== verification/Wire_Codec.thy ===== *)
theory Wire_Codec
  imports X402_Types Go_Fmt Peer_Address
begin

text \<open>
  A concrete encoding of transactions, which stands for amino where the examples need one. It writes every
  transaction of one send of one coin under one keyed signature as its fields between colons, and reads
  each of them back. As amino does, it writes the empty transaction as no bytes at all, and reads it from
  none.
\<close>

definition word_text :: "'a::len word \<Rightarrow> string" where
  "word_text w = nat_digits (unat w)"

definition wire :: "nat std_tx \<Rightarrow> bytes" where
  "wire tx =
     (case (tx_msgs tx, tx_signatures tx) of
        ([BankSend s], [g]) \<Rightarrow>
          (case (send_amount s, sig_pub_key g) of
             ([c], Some k) \<Rightarrow> join_colons
               [hex_encode (address_bytes (from_address s)), hex_encode (address_bytes (to_address s)),
                hex_encode (coin_denom c), word_text (coin_amount c), word_text (gas_wanted (tx_fee tx)),
                hex_encode (coin_denom (gas_fee (tx_fee tx))), word_text (coin_amount (gas_fee (tx_fee tx))),
                nat_digits k, hex_encode (sig_bytes g), hex_encode (address_bytes (sig_session g)),
                hex_encode (tx_memo tx)]
           | _ \<Rightarrow> [])
      | _ \<Rightarrow> [])"

definition empty_tx :: "nat std_tx" where
  "empty_tx = \<lparr>tx_msgs = [], tx_fee = \<lparr>gas_wanted = 0, gas_fee = \<lparr>coin_denom = [], coin_amount = 0\<rparr>\<rparr>,
     tx_signatures = [], tx_memo = []\<rparr>"

definition unhex :: "string \<Rightarrow> bytes" where
  "unhex s = (case hex_decode s of Some b \<Rightarrow> b | None \<Rightarrow> [])"

definition unword :: "string \<Rightarrow> 'a::len word" where
  "unword s = word_of_int (digits_value s)"

definition unwire :: "bytes \<Rightarrow> nat std_tx option" where
  "unwire raw =
     (if raw = [] then Some empty_tx
      else
        (case split_char (CHR '':'') raw of
           [src, dst, denom, amount, gas, fee_denom, fee_amount, k, sig, session, m] \<Rightarrow>
             Some \<lparr>tx_msgs = [BankSend \<lparr>from_address = Address (unhex src), to_address = Address (unhex dst),
                 send_amount = [\<lparr>coin_denom = unhex denom, coin_amount = unword amount\<rparr>]\<rparr>],
               tx_fee = \<lparr>gas_wanted = unword gas, gas_fee = \<lparr>coin_denom = unhex fee_denom, coin_amount = unword fee_amount\<rparr>\<rparr>,
               tx_signatures = [\<lparr>sig_pub_key = Some (nat (digits_value k)), sig_bytes = unhex sig,
                 sig_session = Address (unhex session)\<rparr>],
               tx_memo = unhex m\<rparr>
         | _ \<Rightarrow> None))"

lemma unhex_hex: "unhex (hex_encode b) = b"
  by (simp add: unhex_def hex_roundtrip del: hex_encode.simps)

lemma unword_text: "unword (word_text w) = w"
  by (simp add: unword_def word_text_def nat_digits_props(1))

lemma nat_digits_no_colon: "CHR '':'' \<notin> set (nat_digits n)"
proof -
  have "\<not> is_digit (CHR '':'')" by (simp add: is_digit_def)
  then show ?thesis using nat_digits_props(2) [of n] by (auto simp: list_all_iff)
qed

lemma hex_digit_not_colon:
  assumes "n < 16"
  shows "CHR '':'' \<noteq> hex_digit n"
proof
  assume "CHR '':'' = hex_digit n"
  then have "hex_val (CHR '':'') = Some n" using hex_val_digit [OF assms] by simp
  then show False by (simp add: hex_val_def)
qed

lemma hex_no_colon: "CHR '':'' \<notin> set (hex_encode b)"
proof (induction b)
  case (Cons c b)
  have "(of_char c :: nat) div 16 < 16" by (rule less_mult_imp_div_less) (simp add: of_char_less)
  moreover have "(of_char c :: nat) mod 16 < 16" by simp
  ultimately show ?case using Cons hex_digit_not_colon by (simp add: Let_def)
qed simp

text \<open>
  What the examples assume of amino holds of it: every payment, a transaction of one send of one coin
  under one keyed signature, is written as some bytes, and is what they read back as.
\<close>

lemma wire_roundtrip:
  assumes "tx_msgs tx = [BankSend s]" "send_amount s = [c]" "tx_signatures tx = [g]" "sig_pub_key g = Some k"
  shows "wire tx \<noteq> [] \<and> unwire (wire tx) = Some tx"
proof -
  let ?fs = "[hex_encode (address_bytes (from_address s)), hex_encode (address_bytes (to_address s)),
                hex_encode (coin_denom c), word_text (coin_amount c), word_text (gas_wanted (tx_fee tx)),
                hex_encode (coin_denom (gas_fee (tx_fee tx))), word_text (coin_amount (gas_fee (tx_fee tx))),
                nat_digits k, hex_encode (sig_bytes g), hex_encode (address_bytes (sig_session g)),
                hex_encode (tx_memo tx)]"
  have wire: "wire tx = join_colons ?fs" using assms by (simp add: wire_def del: hex_encode.simps)
  have "split_char (CHR '':'') (join_colons ?fs) = ?fs"
    by (rule split_join) (simp_all add: hex_no_colon nat_digits_no_colon word_text_def del: hex_encode.simps)
  moreover have "join_colons ?fs \<noteq> []" by simp
  moreover have "\<lparr>tx_msgs = [BankSend \<lparr>from_address = from_address s, to_address = to_address s,
        send_amount = [\<lparr>coin_denom = coin_denom c, coin_amount = coin_amount c\<rparr>]\<rparr>],
      tx_fee = \<lparr>gas_wanted = gas_wanted (tx_fee tx),
        gas_fee = \<lparr>coin_denom = coin_denom (gas_fee (tx_fee tx)), coin_amount = coin_amount (gas_fee (tx_fee tx))\<rparr>\<rparr>,
      tx_signatures = [\<lparr>sig_pub_key = Some k, sig_bytes = sig_bytes g, sig_session = sig_session g\<rparr>],
      tx_memo = tx_memo tx\<rparr> = tx"
    using assms by (cases tx; cases s; cases g) simp
  ultimately show ?thesis
    unfolding wire
    by (simp add: unwire_def unhex_hex unword_text nat_digits_props(1) del: join_colons.simps hex_encode.simps)
qed

lemma wire_empty: "wire empty_tx = [] \<and> unwire [] = Some empty_tx"
  by (simp add: wire_def unwire_def empty_tx_def)

end
