(* ===== verification/Buyer_Example.thy ===== *)
theory Buyer_Example
  imports Exact_Test Client_Exact Wire_Codec
begin

text \<open>
  A buyer on concrete inputs, next to the scripted chain of \<open>Exact_Test\<close>: a library, whose transactions
  are encoded as \<open>Wire_Codec\<close> has it, a node and a key that pay the test offer. The witnesses of the buyer's properties run on it.
\<close>

definition buyer_tx :: "nat std_tx" where
  "buyer_tx = \<lparr>tx_msgs = [BankSend test_send],
     tx_fee = \<lparr>gas_wanted = 10000000, gas_fee = \<lparr>coin_denom = ''ugnot'', coin_amount = 1000000\<rparr>\<rparr>,
     tx_signatures = [\<lparr>sig_pub_key = Some 11, sig_bytes = ''sig'', sig_session = zero_address\<rparr>],
     tx_memo = ''''\<rparr>"

definition buyer_lib :: "nat gno_lib" where
  "buyer_lib = test_lib\<lparr>unmarshal_tx := unwire, marshal_tx := (\<lambda>tx. Inr (wire tx))\<rparr>"

definition pay_raw :: bytes where
  "pay_raw = wire buyer_tx"

lemma pay_raw: "pay_raw \<noteq> []" "unwire pay_raw = Some buyer_tx"
  using wire_roundtrip [of buyer_tx] by (simp_all add: pay_raw_def buyer_tx_def test_send_def)

definition buyer_chain :: "(nat, unit) buyer_node" where
  "buyer_chain = \<lparr>bn_chain_id = (\<lambda>w. (Inr ''dev'', w)),
     bn_account = (\<lambda>a w. (Inr (AccountWithKey (Some 11) 7 3), w)),
     bn_session_account = (\<lambda>m a w. (Inr None, w)), bn_gas_price = (\<lambda>w. (Inr None, w))\<rparr>"

definition buyer_signer :: "(nat, unit) signer" where
  "buyer_signer = \<lparr>sg_pub_key = Some 11, sg_sign = (\<lambda>b w. (Inr ''sig'', w))\<rparr>"

definition buyer_scheme :: "(nat, unit) ExactGnoScheme" where
  "buyer_scheme = NewExactGnoScheme buyer_lib (Some buyer_signer) (Some buyer_chain) []"

definition buyer_fac :: "(nat, nat test_node) facilitator" where
  "buyer_fac = test_fac\<lparr>fac_lib := buyer_lib\<rparr>"

definition buyer_payload :: payment_payload where
  "buyer_payload = PaymentPayload Requirements (b64_encode pay_raw)"

definition buyer_terms :: terms where
  "buyer_terms = \<lparr>t_chain_id = ''dev'', t_pay_to = Address PayTo, t_price = test_coin, t_memo = ''''\<rparr>"

definition buyer_payment :: "nat payment" where
  "buyer_payment = payment_for buyer_lib buyer_terms \<lparr>coin_denom = ''ugnot'', coin_amount = 1000000\<rparr> 11
     zero_address \<lparr>acc_pub_key = Some 11, acc_number = 7, acc_sequence = 3\<rparr>"

lemma buyer_offer: "acceptable_offer buyer_lib Requirements buyer_terms"
proof -
  have "chainIDOf (req_network Requirements) = Some ''dev''"
    by (simp add: chainIDOf_iff Requirements_def ChainID_def chainIDReference_def char_class_defs)
  moreover have "denomination ''ugnot''" "positiveAmount ''250000''"
    by (simp_all add: denomination_def positiveAmount_def char_class_defs)
  moreover have "length PayTo = 40" by (simp add: PayTo_def)
  then have "PayTo \<noteq> ''''" "Address PayTo \<noteq> zero_address"
    by (auto simp: zero_address_def dest: arg_cong [of _ _ length])
  ultimately show ?thesis
    by (simp add: acceptable_offer_def Requirements_def buyer_terms_def buyer_lib_def test_lib_def
        boundMemo_def any_at_def any_get_def)
qed

lemma buyer_prepares:
  "Prepare buyer_lib (Some buyer_chain) (Some 11) zero_address Requirements '''' w = (Inr buyer_payment, w)"
  unfolding Prepare_spec
  by (intro exI [of _ buyer_terms] exI conjI buyer_offer)
    (auto simp: withinCap_def buyer_lib_def test_lib_def buyer_chain_def buyer_terms_def payment_fee_def gasFee_def
      unpricedGasFee_def maxGasFee_def ugnot_Denom_def readAccount_def AccountWithKey_def buyer_payment_def)

lemma buyer_lib_simps:
  "address_is_zero buyer_lib zero_address" "pk_address buyer_lib 11 = Address Payer"
  "address_string buyer_lib = address_bytes"
  by (simp_all add: buyer_lib_def test_lib_def)

lemma buyer_fields:
  "egs_lib buyer_scheme = buyer_lib" "egs_signer buyer_scheme = Some buyer_signer"
  "egs_node buyer_scheme = Some buyer_chain" "egs_master buyer_scheme = zero_address"
  "sg_pub_key buyer_signer = Some 11" "fac_lib buyer_fac = buyer_lib"
  "fac_node buyer_fac = test_chain"
  by (simp_all add: buyer_scheme_def NewExactGnoScheme_def buyer_signer_def buyer_fac_def test_fac_def)

lemma buyer_signs:
  "SignBytes buyer_lib buyer_payment = Inr ''doc''"
  "Payload buyer_lib buyer_payment ''sig'' =
     Inr \<lparr>sp_version = 2, sp_payload = Some [(''transaction'', AnyString (b64_encode pay_raw))]\<rparr>"
  by (simp_all add: SignBytes_def Payload_def payment_signer_def buyer_payment_def payment_for_def Let_def buyer_lib_def
      test_lib_def buyer_terms_def pay_raw_def buyer_tx_def test_send_def test_coin_def del: b64_encode.simps)

lemma buyer_creates:
  "CreatePaymentPayload buyer_scheme (\<lambda>_. None) Requirements '''' () =
     (Inr \<lparr>sp_version = 2, sp_payload = Some [(''transaction'', AnyString (b64_encode pay_raw))]\<rparr>, ())"
  by (simp add: CreatePaymentPayload_def buyer_fields buyer_signer_def buyer_prepares buyer_signs
      del: b64_encode.simps)

end
