(* ===== verification/Exact_Fixtures.thy ===== *)
theory Exact_Fixtures
  imports Exact_Test
begin

text \<open>
  \<open>facilitator/exact/exacttest/exacttest.go\<close>, the payments the tests of the repository sign: \<open>Payment\<close> and
  its \<open>Tx\<close>, the payment signed for real, and the placeholder. What a test fails on, an error under
  \<open>require.NoError\<close> or a panic of a \<open>Must\<close> function, is \<open>None\<close>. The key is a record of its public half and
  what it signs, and \<open>std.MustParseCoin\<close> is an argument.
\<close>

record 'pk priv_key =
  sk_pub :: 'pk
  sk_sign :: "bytes \<Rightarrow> go_error + bytes"

record 'pk fixture_payment =
  fx_key :: "'pk priv_key"
  fx_chain_id :: string
  fx_number :: u64
  fx_sequence :: u64
  fx_session :: address
  fx_from :: address

definition fixture_send :: "'pk gno_lib \<Rightarrow> address \<Rightarrow> string \<Rightarrow> string \<Rightarrow> msg_send option" where
  "fixture_send lib from to coins =
     (case address_from_bech32 lib to of
        Inl err \<Rightarrow> None
      | Inr payee \<Rightarrow>
          (case parse_coins lib coins of
             Inl err \<Rightarrow> None
           | Inr cs \<Rightarrow> Some \<lparr>from_address = from, to_address = payee, send_amount = cs\<rparr>))"

definition Payment_Tx :: "'pk gno_lib \<Rightarrow> (string \<Rightarrow> coin option) \<Rightarrow> 'pk fixture_payment \<Rightarrow> 'pk std_tx option" where
  "Payment_Tx lib parse_coin p =
     (let from = (if address_is_zero lib (fx_from p) then pk_address lib (sk_pub (fx_key p)) else fx_from p);
          req = Requirements in
      case fixture_send lib from (req_pay_to req) (req_amount req @ req_asset req) of
        None \<Rightarrow> None
      | Some send \<Rightarrow>
      (case parse_coin ''1000000ugnot'' of
        None \<Rightarrow> None
      | Some fee \<Rightarrow>
          (let tx = \<lparr>tx_msgs = [BankSend send], tx_fee = \<lparr>gas_wanted = 100000, gas_fee = fee\<rparr>,
                 tx_signatures = [], tx_memo = ''''\<rparr> in
           case get_sign_bytes lib tx (fx_chain_id p) (fx_number p) (fx_sequence p) of
             Inl err \<Rightarrow> None
           | Inr signBytes \<Rightarrow>
               (case sk_sign (fx_key p) signBytes of
                  Inl err \<Rightarrow> None
                | Inr sig \<Rightarrow> Some (tx\<lparr>tx_signatures := [\<lparr>sig_pub_key = Some (sk_pub (fx_key p)), sig_bytes = sig,
                    sig_session = fx_session p\<rparr>]\<rparr>)))))"

definition AccountAt :: "'pk priv_key \<Rightarrow> u64 \<Rightarrow> u64 \<Rightarrow> 'pk std_account option" where
  "AccountAt key n s = AccountWithKey (Some (sk_pub key)) n s"

definition Encode :: "'pk gno_lib \<Rightarrow> 'pk std_tx \<Rightarrow> string option" where
  "Encode lib tx = (case marshal_tx lib tx of Inl err \<Rightarrow> None | Inr raw \<Rightarrow> Some (b64_encode raw))"

text \<open>\<open>mutate\<close> is the identity when the test passes nil; \<open>master\<close> is \<open>MasterKey\<close>.\<close>

definition SignedTx ::
    "'pk gno_lib \<Rightarrow> (string \<Rightarrow> coin option) \<Rightarrow> 'pk priv_key \<Rightarrow> ('pk std_tx \<Rightarrow> 'pk std_tx) \<Rightarrow>
     (string \<times> 'pk std_account option) option" where
  "SignedTx lib parse_coin master mutate =
     (case address_from_bech32 lib Payer of
        Inl err \<Rightarrow> None
      | Inr from \<Rightarrow>
      (case Payment_Tx lib parse_coin \<lparr>fx_key = master, fx_chain_id = ChainID, fx_number = 7, fx_sequence = 3,
          fx_session = zero_address, fx_from = from\<rparr> of
        None \<Rightarrow> None
      | Some tx \<Rightarrow>
      (case Encode lib (mutate tx) of
        None \<Rightarrow> None
      | Some b64 \<Rightarrow> Some (b64, AccountAt master 7 3))))"

definition PlaceholderTx ::
    "'pk gno_lib \<Rightarrow> (string \<Rightarrow> coin option) \<Rightarrow> ('pk std_tx \<Rightarrow> 'pk std_tx) \<Rightarrow> string option" where
  "PlaceholderTx lib parse_coin mutate =
     (case address_from_bech32 lib Payer of
        Inl err \<Rightarrow> None
      | Inr from \<Rightarrow>
      (case fixture_send lib from PayTo ''250000ugnot'' of
        None \<Rightarrow> None
      | Some send \<Rightarrow>
      (case parse_coin ''1000000ugnot'' of
        None \<Rightarrow> None
      | Some fee \<Rightarrow>
          Encode lib (mutate \<lparr>tx_msgs = [BankSend send], tx_fee = \<lparr>gas_wanted = 100000, gas_fee = fee\<rparr>,
            tx_signatures = [\<lparr>sig_pub_key = None, sig_bytes = ''sig'', sig_session = zero_address\<rparr>], tx_memo = ''''\<rparr>))))"

subsection \<open>What the fixtures show\<close>

text \<open>
  What the tests rely on of the linked libraries: encodings are decoded again, an address reads back
  as its text, the payer's is not zero, the fixture's price is one coin, and a signature the key makes
  verifies.
\<close>

definition fixture_laws :: "'pk gno_lib \<Rightarrow> 'pk priv_key \<Rightarrow> bool" where
  "fixture_laws lib key \<longleftrightarrow>
     (\<forall>tx raw. marshal_tx lib tx = Inr raw \<longrightarrow> raw \<noteq> [] \<and> unmarshal_tx lib raw = Some tx) \<and>
     (\<forall>s a. address_from_bech32 lib s = Inr a \<longrightarrow> address_string lib a = s) \<and>
     (\<forall>a. address_from_bech32 lib Payer = Inr a \<longrightarrow> \<not> address_is_zero lib a) \<and>
     (\<forall>cs. parse_coins lib ''250000ugnot'' = Inr cs \<longrightarrow> length cs = 1) \<and>
     \<not> pk_multisig lib (sk_pub key) \<and> pk_equals lib (sk_pub key) (sk_pub key) \<and>
     (\<forall>tx sigs c n s doc sig. get_sign_bytes lib tx c n s = Inr doc \<and> sk_sign key doc = Inr sig \<longrightarrow>
        (\<exists>r. r \<noteq> PayloadRenderingNone \<and> verify_payload lib (sk_pub key) (tx\<lparr>tx_signatures := sigs\<rparr>) c n s sig = Inr r))"

lemma fixture_send_parts:
  assumes "fixture_laws lib key" "fixture_send lib src PayTo ''250000ugnot'' = Some send"
  shows "from_address send = src" "address_string lib (to_address send) = PayTo"
    "\<exists>c. parse_coins lib ''250000ugnot'' = Inr [c] \<and> send_amount send = [c]"
  using assms by (auto simp: fixture_send_def fixture_laws_def length_Suc_conv split: option.splits sum.splits)

lemma fixture_requirements:
  "req_pay_to Requirements = PayTo" "req_amount Requirements @ req_asset Requirements = ''250000ugnot''"
  "memo (req_extra Requirements) = Inr ''''"
  by (simp_all add: Requirements_def memo_def any_get_def)

text \<open>
  The placeholder passes the static rules, naming the payer, and nothing after them when the account
  stores no key: there is none to verify its signature with.
\<close>

theorem placeholder_passes_static_alone:
  assumes "fixture_laws lib key" "PlaceholderTx lib parse_coin (\<lambda>tx. tx) = Some b64"
  shows "\<exists>tx. VerifyStatic lib Requirements b64 = Inr (tx, Payer) \<and>
    verifySignature lib tx (AccountWithKey None n s) signer ChainID = SignatureUnverifiable"
proof -
  from assms(2) obtain src send fee raw where f: "address_from_bech32 lib Payer = Inr src"
    "fixture_send lib src PayTo ''250000ugnot'' = Some send"
    and raw: "marshal_tx lib \<lparr>tx_msgs = [BankSend send], tx_fee = \<lparr>gas_wanted = 100000, gas_fee = fee\<rparr>,
      tx_signatures = [\<lparr>sig_pub_key = None, sig_bytes = ''sig'', sig_session = zero_address\<rparr>], tx_memo = ''''\<rparr> = Inr raw"
      "b64 = b64_encode raw"
    by (auto simp: PlaceholderTx_def Encode_def split: option.splits sum.splits)
  from assms(1) raw(1) have "raw \<noteq> []" "unmarshal_tx lib raw = Some \<lparr>tx_msgs = [BankSend send],
      tx_fee = \<lparr>gas_wanted = 100000, gas_fee = fee\<rparr>,
      tx_signatures = [\<lparr>sig_pub_key = None, sig_bytes = ''sig'', sig_session = zero_address\<rparr>], tx_memo = ''''\<rparr>"
    unfolding fixture_laws_def by blast+
  moreover have "address_string lib (from_address send) = Payer"
    using assms(1) f(1) fixture_send_parts(1) [OF assms(1) f(2)] by (simp add: fixture_laws_def)
  ultimately show ?thesis
    using fixture_send_parts(2,3) [OF assms(1) f(2)]
    by (auto simp: VerifyStatic_def raw(2) b64_roundtrip verifyStatic_def fixture_requirements verifySignature_def
        AccountWithKey_def signingKey_def pubKey_def simp del: b64_encode.simps)
qed

text \<open>
  The signed fixture passes both: the static rules, naming the payer, and the signature check, at the
  account that comes with it.
\<close>

theorem signed_fixture_is_fresh:
  assumes "fixture_laws lib key" "SignedTx lib parse_coin key (\<lambda>tx. tx) = Some (b64, acc)"
  shows "\<exists>tx. VerifyStatic lib Requirements b64 = Inr (tx, Payer) \<and>
    verifySignature lib tx acc signer ChainID = SignatureFresh"
proof -
  from assms(2) obtain src tx raw where f: "address_from_bech32 lib Payer = Inr src" "acc = AccountAt key 7 3"
    "Payment_Tx lib parse_coin \<lparr>fx_key = key, fx_chain_id = ChainID, fx_number = 7, fx_sequence = 3,
      fx_session = zero_address, fx_from = src\<rparr> = Some tx"
    and raw: "marshal_tx lib tx = Inr raw" "b64 = b64_encode raw"
    by (auto simp: SignedTx_def Encode_def split: option.splits sum.splits)
  have src: "\<not> address_is_zero lib src" "address_string lib src = Payer"
    using assms(1) f(1) by (auto simp: fixture_laws_def)
  from f(3) src(1) obtain send fee doc sig tx0 where send: "fixture_send lib src PayTo ''250000ugnot'' = Some send"
    and tx0: "tx0 = \<lparr>tx_msgs = [BankSend send], tx_fee = \<lparr>gas_wanted = 100000, gas_fee = fee\<rparr>, tx_signatures = [], tx_memo = ''''\<rparr>"
    and doc: "get_sign_bytes lib tx0 ChainID 7 3 = Inr doc" "sk_sign key doc = Inr sig"
    and tx: "tx = tx0\<lparr>tx_signatures := [\<lparr>sig_pub_key = Some (sk_pub key), sig_bytes = sig, sig_session = zero_address\<rparr>]\<rparr>"
    by (auto simp: Payment_Tx_def Let_def fixture_requirements split: option.splits sum.splits)
  from assms(1) raw(1) have "raw \<noteq> []" "unmarshal_tx lib raw = Some tx" unfolding fixture_laws_def by blast+
  then have "VerifyStatic lib Requirements b64 = Inr (tx, Payer)"
    using fixture_send_parts [OF assms(1) send] assms(1) src(2)
    by (auto simp: VerifyStatic_def raw(2) b64_roundtrip verifyStatic_def fixture_requirements tx tx0 fixture_laws_def
        simp del: b64_encode.simps)
  moreover have "\<exists>r. r \<noteq> PayloadRenderingNone \<and> verify_payload lib (sk_pub key) tx ChainID 7 3 sig = Inr r"
    using assms(1) doc unfolding fixture_laws_def tx by blast
  then have "verifySignature lib tx acc signer ChainID = SignatureFresh"
    using assms(1)
    by (auto simp: verifySignature_def f(2) AccountAt_def AccountWithKey_def signingKey_def pubKey_def tx tx0 fixture_laws_def
        verifies_def Signer_Account.number_def Signer_Account.sequence_def)
  ultimately show ?thesis by blast
qed

end
