(* ===== verification/Server_Exact.thy ===== *)
theory Server_Exact
  imports Verify_Static
begin

text \<open>
  \<open>server/exact/scheme.go\<close>: the seller's mechanism. It resolves a route's price into the denomination
  and amount the offer publishes, refusing one no payment can satisfy, and states the terms only gno
  knows. The arguments the methods ignore (the network, the supported kind, the extensions) are
  left out.
\<close>

record asset_amount =
  aa_asset :: string
  aa_amount :: string
  aa_extra :: any_map

text \<open>The types a price is told apart by: an \<open>AssetAmount\<close>, a map decoded from JSON, anything else.\<close>

datatype price = PriceAssetAmount asset_amount | PriceMap "(string, any_value) gomap" | PriceOther any_value

record payment_flow_config =
  pf_supported :: "string list"
  pf_default :: string

definition server_Scheme :: string where "server_Scheme = ''exact''"

definition DefaultAssetTransferMethod :: string where
  "DefaultAssetTransferMethod = AssetTransferMethod"

definition PaymentFlows :: "(string, payment_flow_config) gomap" where
  "PaymentFlows = [(AssetTransferMethod,
     \<lparr>pf_supported = [PaymentFlowAuthorization], pf_default = PaymentFlowAuthorization\<rparr>)]"

text \<open>A failed type assertion with a blank second result yields the zero value.\<close>

definition assetAmountFromMap :: "(string, any_value) gomap \<Rightarrow> go_error + asset_amount" where
  "assetAmountFromMap m =
     (case gm_get m ''amount'' of
        None \<Rightarrow> Inl (ErrorString ''x402: gno price names no amount'')
      | Some raw \<Rightarrow>
          (case raw of
             AnyString amount \<Rightarrow>
               (let asset = (case any_at (Some m) ''asset'' of AnyString s \<Rightarrow> s | _ \<Rightarrow> '''');
                    extra = (case any_at (Some m) ''extra'' of AnyMap e \<Rightarrow> Some e | _ \<Rightarrow> None) in
                Inr \<lparr>aa_asset = asset, aa_amount = amount, aa_extra = extra\<rparr>)
           | _ \<Rightarrow> Inl (ErrorString (''x402: gno price amount is '' @ type_name raw @
               '', want a string: a JSON number cannot carry the chain's whole range of amounts exactly''))))"

text \<open>\<open>x402: gno price %q %s\<close>, of the amount and the denomination.\<close>

definition named_price :: "asset_amount \<Rightarrow> string" where
  "named_price a = ''x402: gno price '' @ strconv_quote (aa_amount a) @ '' '' @ aa_asset a"

definition checkPayable :: "'pk gno_lib \<Rightarrow> asset_amount \<Rightarrow> go_error option" where
  "checkPayable lib amount =
     (if aa_asset amount = '''' then Some (ErrorString (''x402: gno price names no asset; a gno price names its denomination, such as '' @ strconv_quote ''ugnot''))
      else if aa_amount amount = '''' then Some (ErrorString ''x402: gno price names no amount'')
      else case parse_coins lib (aa_amount amount @ aa_asset amount) of
        Inl err \<Rightarrow> Some (WrapError (named_price amount @ '' is not a coin the chain can charge'') err)
      | Inr coins \<Rightarrow>
          if length coins \<noteq> 1 then Some (ErrorString (named_price amount @ '' names '' @ format_int (int (length coins)) @ '' coins, want one''))
          else if \<not> is_positive lib (coins ! 0)
          then Some (ErrorString (named_price amount @ '' is not something a buyer can pay''))
          else None)"

definition ParsePrice :: "'pk gno_lib \<Rightarrow> price \<Rightarrow> go_error + asset_amount" where
  "ParsePrice lib price =
     (case (case price of
              PriceAssetAmount p \<Rightarrow> Inr p
            | PriceMap p \<Rightarrow> assetAmountFromMap p
            | PriceOther v \<Rightarrow> Inl (ErrorString (''x402: gno price is '' @ type_name v @
                '', want an x402.AssetAmount naming the denomination, such as {Asset: '' @ strconv_quote ''ugnot'' @
                '', Amount: '' @ strconv_quote ''250000'' @ ''}: gno has no default asset, so a bare or dollar amount names nothing to charge''))) of
        Inl err \<Rightarrow> Inl err
      | Inr amount \<Rightarrow>
          (case checkPayable lib amount of
             Some err \<Rightarrow> Inl err
           | None \<Rightarrow> Inr amount))"

definition checkMemo :: "any_map \<Rightarrow> go_error option" where
  "checkMemo extra =
     (case any_get extra ''memo'' of
        None \<Rightarrow> None
      | Some raw \<Rightarrow>
          (case raw of
             AnyString m \<Rightarrow>
               if MaxMemoBytes < length m
               then Some (ErrorString (''x402: gno extra.memo is '' @ format_int (int (length m)) @ '' bytes, over the '' @
                 format_int (int MaxMemoBytes) @ ''-byte maximum a payment can carry''))
               else None
           | _ \<Rightarrow> Some (ErrorString (''x402: gno extra.memo is '' @ type_name raw @ '', want string''))))"

text \<open>
  A nil \<open>Extra\<close> becomes an empty map first. Go writes into the map the caller passed; the model
  returns the map written.
\<close>

definition EnhancePaymentRequirements :: "requirements \<Rightarrow> go_error + requirements" where
  "EnhancePaymentRequirements req =
     (case checkMemo (req_extra req) of
        Some err \<Rightarrow> Inl err
      | None \<Rightarrow>
          (let extra = (case req_extra req of None \<Rightarrow> [] | Some m \<Rightarrow> m) in
           Inr (req\<lparr>req_extra := Some (gm_put ''areFeesSponsored'' (AnyBool False) extra)\<rparr>)))"

subsection \<open>Prices\<close>

text \<open>A price as a Go value and the map a document decodes into name the same amount.\<close>

definition priced_map :: "asset_amount \<Rightarrow> (string, any_value) gomap" where
  "priced_map a = [(''asset'', AnyString (aa_asset a)), (''amount'', AnyString (aa_amount a))] @
     (case aa_extra a of None \<Rightarrow> [] | Some e \<Rightarrow> [(''extra'', AnyMap e)])"

text \<open>
  \<open>ParsePrice\<close> publishes a price exactly when it is an amount and a denomination, in either form,
  that the chain's own parse reads together as one positive coin; it publishes it unchanged; and the
  two forms of one price resolve alike.
\<close>

theorem ParsePrice_iff:
  "(ParsePrice lib price = Inr a \<longleftrightarrow>
     (price = PriceAssetAmount a \<or> (\<exists>m. price = PriceMap m \<and> assetAmountFromMap m = Inr a)) \<and>
     aa_asset a \<noteq> '''' \<and> aa_amount a \<noteq> '''' \<and>
     (\<exists>c. parse_coins lib (aa_amount a @ aa_asset a) = Inr [c] \<and> is_positive lib c)) \<and>
   ParsePrice lib (PriceMap (priced_map b)) = ParsePrice lib (PriceAssetAmount b)"
proof
  have payable: "checkPayable lib x = None \<longleftrightarrow> aa_asset x \<noteq> '''' \<and> aa_amount x \<noteq> '''' \<and>
     (\<exists>c. parse_coins lib (aa_amount x @ aa_asset x) = Inr [c] \<and> is_positive lib c)" for x
    unfolding checkPayable_def length1_iff by (auto split: sum.splits)
  show "ParsePrice lib price = Inr a \<longleftrightarrow>
     (price = PriceAssetAmount a \<or> (\<exists>m. price = PriceMap m \<and> assetAmountFromMap m = Inr a)) \<and>
     aa_asset a \<noteq> '''' \<and> aa_amount a \<noteq> '''' \<and>
     (\<exists>c. parse_coins lib (aa_amount a @ aa_asset a) = Inr [c] \<and> is_positive lib c)"
    unfolding ParsePrice_def payable [symmetric]
    by (auto split: price.splits sum.splits option.splits)
  have "assetAmountFromMap (priced_map b) = Inr b"
    by (cases b) (auto simp: assetAmountFromMap_def priced_map_def any_at_def any_get_def Let_def
        split: option.splits)
  then show "ParsePrice lib (PriceMap (priced_map b)) = ParsePrice lib (PriceAssetAmount b)"
    by (simp add: ParsePrice_def)
qed

text \<open>What the seller states is stated: the flag is set, and every other term is the route's own.\<close>

lemma EnhancePaymentRequirements_extra:
  assumes "EnhancePaymentRequirements req = Inr req'"
  shows "any_get (req_extra req') k =
    (if k = ''areFeesSponsored'' then Some (AnyBool False) else any_get (req_extra req) k)"
  using assms by (auto simp: EnhancePaymentRequirements_def any_get_def Let_def gm_simps split: option.splits)

end
