(* ===== verification/Gnoclient_Node.thy ===== *)
theory Gnoclient_Node
  imports Facilitator_Checks
begin

text \<open>
  \<open>facilitator/exact/node.go\<close>: the chain access of the facilitator, over upstream's \<open>gnoclient.Client\<close>
  and its RPC client, which are the records of parameters below. A method that wraps an error with
  \<open>%w\<close> keeps it, which is what \<open>chainRefused\<close> reads.

  \<open>AwaitDelivery\<close> polls until a block holds the transaction or the context ends, and may do neither:
  it is a partial function, and not returning is \<open>None\<close>. The \<open>select\<close> between the context's end and the
  next tick of the poll is a call into the world, true when the context ended.
\<close>

record broadcast_result =
  br_error :: "abci_error option"
  br_log :: string
  br_hash :: bytes

record 'w rpc_client =
  \<comment> \<open>\<open>Status\<close>; no result is \<open>None\<close>, and a result is its \<open>NodeInfo.Network\<close>\<close>
  rpc_status :: "'w \<Rightarrow> (go_error + string option) \<times> 'w"
  rpc_broadcast_sync :: "bytes \<Rightarrow> 'w \<Rightarrow> (go_error + broadcast_result) \<times> 'w"
  \<comment> \<open>\<open>Tx\<close>: the log and the error of the result of a transaction a block executed, if it has one\<close>
  rpc_tx :: "bytes \<Rightarrow> 'w \<Rightarrow> (go_error + (string \<times> abci_error) option) \<times> 'w"

record ('pk, 'w) gno_client =
  cli_rpc :: "'w rpc_client option"
  cli_query_account :: "address \<Rightarrow> 'w \<Rightarrow> (go_error + 'pk std_account option) \<times> 'w"
  cli_query_session_account :: "address \<Rightarrow> address \<Rightarrow> 'w \<Rightarrow> (go_error + 'pk std_account option) \<times> 'w"
  cli_simulate :: "'pk std_tx \<Rightarrow> 'w \<Rightarrow> go_error option \<times> 'w"

definition ErrMissingRPCClient :: go_error where
  "ErrMissingRPCClient = ErrorString ''missing RPCClient''"

definition signerAccountOf :: "'pk std_account option \<Rightarrow> 'pk std_account option" where
  "signerAccountOf acc = acc"

definition gn_SignerAccount ::
    "'pk gno_lib \<Rightarrow> ('pk, 'w) gno_client \<Rightarrow> 'pk std_tx \<Rightarrow> 'w \<Rightarrow> (go_error + 'pk std_account option) \<times> 'w" where
  "gn_SignerAccount lib cli tx w =
     (case txSigner lib tx of
        Inl err \<Rightarrow> (Inl err, w)
      | Inr signer \<Rightarrow>
          (let sessionAddr = sig_session (tx_signatures tx ! 0) in
           if \<not> address_is_zero lib sessionAddr then
             (case cli_query_session_account cli signer sessionAddr w of
                (Inl err, w') \<Rightarrow> (Inl (WrapError ''query session account'' err), w')
              | (Inr acc, w') \<Rightarrow> (Inr (signerAccountOf acc), w'))
           else
             (case cli_query_account cli signer w of
                (Inl err, w') \<Rightarrow> (Inl (WrapError ''query account'' err), w')
              | (Inr acc, w') \<Rightarrow> (Inr (signerAccountOf acc), w'))))"

definition gn_Simulate :: "('pk, 'w) gno_client \<Rightarrow> 'pk std_tx \<Rightarrow> 'w \<Rightarrow> go_error option \<times> 'w" where
  "gn_Simulate cli tx w = cli_simulate cli tx w"

definition gn_NodeChainID :: "('pk, 'w) gno_client \<Rightarrow> 'w \<Rightarrow> (go_error + string) \<times> 'w" where
  "gn_NodeChainID cli w =
     (case cli_rpc cli of
        None \<Rightarrow> (Inl ErrMissingRPCClient, w)
      | Some rpc \<Rightarrow>
          (case rpc_status rpc w of
             (Inl err, w') \<Rightarrow> (Inl (WrapError ''query node status'' err), w')
           | (Inr None, w') \<Rightarrow> (Inl (ErrorString ''query node status: the node returned no result''), w')
           | (Inr (Some net), w') \<Rightarrow> (Inr net, w')))"

definition gn_Broadcast :: "('pk, 'w) gno_client \<Rightarrow> bytes \<Rightarrow> 'w \<Rightarrow> (go_error + string) \<times> 'w" where
  "gn_Broadcast cli tx w =
     (case cli_rpc cli of
        None \<Rightarrow> (Inl ErrMissingRPCClient, w)
      | Some rpc \<Rightarrow>
          (case rpc_broadcast_sync rpc tx w of
             (Inl err, w') \<Rightarrow> (Inl (WrapError ''broadcast'' err), w')
           | (Inr res, w') \<Rightarrow>
               (case br_error res of
                  Some e \<Rightarrow> (Inl (WrapError (''check transaction failed: log:'' @ br_log res) (AbciError e)), w')
                | None \<Rightarrow> (Inr (hex_encode (br_hash res)), w'))))"

definition deliveryPoll :: duration where
  "deliveryPoll = 500 * millisecond"

text \<open>The loop of \<open>AwaitDelivery\<close> for the transaction \<open>hash\<close> writes; \<open>ended\<close> is its \<open>select\<close>.\<close>

partial_function (option) await_loop ::
    "'w rpc_client \<Rightarrow> ('w \<Rightarrow> bool \<times> 'w) \<Rightarrow> string \<Rightarrow> bytes \<Rightarrow> 'w \<Rightarrow> (go_error option \<times> 'w) option" where
  "await_loop rpc ended hash raw w =
     (case rpc_tx rpc raw w of
        (Inr None, w1) \<Rightarrow> Some (None, w1)
      | (Inr (Some (txlog, e)), w1) \<Rightarrow> Some (Some (WrapError (''deliver transaction failed: log:'' @ txlog) (AbciError e)), w1)
      | (Inl err, w1) \<Rightarrow>
          (case ended w1 of
             (stop, w2) \<Rightarrow>
               if stop then Some (Some (WrapError (''look up transaction '' @ hash) err), w2)
               else await_loop rpc ended hash raw w2))"

definition gn_AwaitDelivery ::
    "('pk, 'w) gno_client \<Rightarrow> ('w \<Rightarrow> bool \<times> 'w) \<Rightarrow> string \<Rightarrow> 'w \<Rightarrow> (go_error option \<times> 'w) option" where
  "gn_AwaitDelivery cli ended hash w =
     (case cli_rpc cli of
        None \<Rightarrow> Some (Some ErrMissingRPCClient, w)
      | Some rpc \<Rightarrow>
          (case hex_decode hash of
             None \<Rightarrow> Some (Some (WrapError (''transaction hash '' @ strconv_quote hash) (hex_error hash)), w)
           | Some raw \<Rightarrow> await_loop rpc ended hash raw w))"

subsection \<open>A verdict stays a verdict\<close>

lemma chainRefused_simps [simp]:
  "chainRefused (WrapError m e) = chainRefused e" "chainRefused (AbciError a)" "\<not> chainRefused (ErrorString m)"
  by (simp_all add: chainRefused_def)

text \<open>
  The adapter tells the chain's refusals from its own failures the way they happened: a broadcast
  is refused exactly when the node's CheckTx reported an error or the call itself was a refusal, an
  account read exactly when the query was, and an admitted broadcast is reported under the node's own
  hash in hex.
\<close>

theorem adapter_keeps_verdicts:
  "((\<exists>err. fst (gn_Broadcast cli tx w) = Inl err \<and> chainRefused err) \<longleftrightarrow>
     (\<exists>rpc. cli_rpc cli = Some rpc \<and>
        ((\<exists>err. fst (rpc_broadcast_sync rpc tx w) = Inl err \<and> chainRefused err) \<or>
         (\<exists>res e. fst (rpc_broadcast_sync rpc tx w) = Inr res \<and> br_error res = Some e)))) \<and>
   (fst (gn_Broadcast cli tx w) = Inr hash \<longleftrightarrow>
     (\<exists>rpc res. cli_rpc cli = Some rpc \<and> fst (rpc_broadcast_sync rpc tx w) = Inr res \<and> br_error res = None \<and>
        hash = hex_encode (br_hash res))) \<and>
   ((\<exists>err. fst (gn_SignerAccount lib cli stx w) = Inl err \<and> chainRefused err) \<longleftrightarrow>
     (\<exists>signer err. txSigner lib stx = Inr signer \<and> chainRefused err \<and>
        fst (if address_is_zero lib (sig_session (tx_signatures stx ! 0)) then cli_query_account cli signer w
             else cli_query_session_account cli signer (sig_session (tx_signatures stx ! 0)) w) = Inl err))"
proof (intro conjI)
  show "(\<exists>err. fst (gn_Broadcast cli tx w) = Inl err \<and> chainRefused err) \<longleftrightarrow>
     (\<exists>rpc. cli_rpc cli = Some rpc \<and>
        ((\<exists>err. fst (rpc_broadcast_sync rpc tx w) = Inl err \<and> chainRefused err) \<or>
         (\<exists>res e. fst (rpc_broadcast_sync rpc tx w) = Inr res \<and> br_error res = Some e)))"
    by (auto simp: gn_Broadcast_def ErrMissingRPCClient_def split: option.splits prod.splits sum.splits)
  show "fst (gn_Broadcast cli tx w) = Inr hash \<longleftrightarrow>
     (\<exists>rpc res. cli_rpc cli = Some rpc \<and> fst (rpc_broadcast_sync rpc tx w) = Inr res \<and> br_error res = None \<and>
        hash = hex_encode (br_hash res))"
    by (auto simp: gn_Broadcast_def split: option.splits prod.splits sum.splits)
  have "txSigner lib stx = Inl e \<Longrightarrow> \<not> chainRefused e" for e
    by (auto simp: txSigner_def Let_def split: if_splits)
  then show "(\<exists>err. fst (gn_SignerAccount lib cli stx w) = Inl err \<and> chainRefused err) \<longleftrightarrow>
     (\<exists>signer err. txSigner lib stx = Inr signer \<and> chainRefused err \<and>
        fst (if address_is_zero lib (sig_session (tx_signatures stx ! 0)) then cli_query_account cli signer w
             else cli_query_session_account cli signer (sig_session (tx_signatures stx ! 0)) w) = Inl err)"
    by (auto simp: gn_SignerAccount_def Let_def split: sum.splits prod.splits)
qed

subsection \<open>The wait for a block\<close>

text \<open>The world at the \<open>k\<close>-th lookup, if none before it ended the wait.\<close>

primrec poll_world :: "'w rpc_client \<Rightarrow> ('w \<Rightarrow> bool \<times> 'w) \<Rightarrow> bytes \<Rightarrow> nat \<Rightarrow> 'w \<Rightarrow> 'w" where
  "poll_world rpc ended raw 0 w = w"
| "poll_world rpc ended raw (Suc k) w = poll_world rpc ended raw k (snd (ended (snd (rpc_tx rpc raw w))))"

definition poll_ends :: "'w rpc_client \<Rightarrow> ('w \<Rightarrow> bool \<times> 'w) \<Rightarrow> bytes \<Rightarrow> nat \<Rightarrow> 'w \<Rightarrow> bool" where
  "poll_ends rpc ended raw k w \<longleftrightarrow>
     (let (r, w1) = rpc_tx rpc raw (poll_world rpc ended raw k w) in \<not> isl r \<or> fst (ended w1))"

lemma poll_ends_0: "poll_ends rpc ended raw 0 w \<longleftrightarrow>
    \<not> isl (fst (rpc_tx rpc raw w)) \<or> fst (ended (snd (rpc_tx rpc raw w)))"
  by (simp add: poll_ends_def split_beta)

lemma poll_ends_Suc: "poll_ends rpc ended raw (Suc k) w \<longleftrightarrow>
    poll_ends rpc ended raw k (snd (ended (snd (rpc_tx rpc raw w))))"
  by (simp add: poll_ends_def)

text \<open>What the lookup that ends the wait makes of it.\<close>

definition poll_result ::
    "'w rpc_client \<Rightarrow> ('w \<Rightarrow> bool \<times> 'w) \<Rightarrow> string \<Rightarrow> bytes \<Rightarrow> nat \<Rightarrow> 'w \<Rightarrow> go_error option \<times> 'w" where
  "poll_result rpc ended hash raw k w =
     (case rpc_tx rpc raw (poll_world rpc ended raw k w) of
        (Inr None, w1) \<Rightarrow> (None, w1)
      | (Inr (Some (txlog, e)), w1) \<Rightarrow> (Some (WrapError (''deliver transaction failed: log:'' @ txlog) (AbciError e)), w1)
      | (Inl err, w1) \<Rightarrow> (Some (WrapError (''look up transaction '' @ hash) err), snd (ended w1)))"

lemma poll_result_Suc: "poll_result rpc ended hash raw (Suc k) w =
    poll_result rpc ended hash raw k (snd (ended (snd (rpc_tx rpc raw w))))"
  by (simp add: poll_result_def)

definition poll_stops :: "'w rpc_client \<Rightarrow> ('w \<Rightarrow> bool \<times> 'w) \<Rightarrow> bytes \<Rightarrow> nat \<Rightarrow> 'w \<Rightarrow> bool" where
  "poll_stops rpc ended raw k w \<longleftrightarrow>
     poll_ends rpc ended raw k w \<and> list_all (\<lambda>j. \<not> poll_ends rpc ended raw j w) [0..<k]"

lemma poll_stops_0: "poll_stops rpc ended raw 0 w \<longleftrightarrow> poll_ends rpc ended raw 0 w"
  by (simp add: poll_stops_def)

lemma poll_stops_Suc: "poll_stops rpc ended raw (Suc k) w \<longleftrightarrow> \<not> poll_ends rpc ended raw 0 w \<and>
    poll_stops rpc ended raw k (snd (ended (snd (rpc_tx rpc raw w))))"
proof -
  have "[0..<Suc k] = 0 # map Suc [0..<k]" by (simp add: upt_conv_Cons map_Suc_upt)
  then show ?thesis
    unfolding poll_stops_def poll_ends_Suc [symmetric] by (auto simp: list.pred_map comp_def simp del: upt_Suc)
qed

lemma await_loop_step:
  "await_loop rpc ended hash raw w = (if poll_ends rpc ended raw 0 w then Some (poll_result rpc ended hash raw 0 w)
     else await_loop rpc ended hash raw (snd (ended (snd (rpc_tx rpc raw w)))))"
  by (subst await_loop.simps)
    (auto simp: poll_ends_0 poll_result_def isl_def split: prod.splits sum.splits option.splits)

lemma await_loop_stops: "poll_stops rpc ended raw k w \<Longrightarrow> await_loop rpc ended hash raw w = Some (poll_result rpc ended hash raw k w)"
proof (induction k arbitrary: w)
  case 0
  then show ?case by (subst await_loop_step) (simp add: poll_stops_0)
next
  case (Suc k)
  then show ?case by (subst await_loop_step) (simp add: poll_stops_Suc poll_result_Suc)
qed

lemma await_loop_returned:
  "await_loop rpc ended hash raw w = Some r \<Longrightarrow> \<exists>k. poll_stops rpc ended raw k w"
proof (induction rule: await_loop.raw_induct [rotated, consumes 1, case_names step])
  case (step await rpc ended hash raw w r)
  show ?case
  proof (cases "poll_ends rpc ended raw 0 w")
    case True
    then have "poll_stops rpc ended raw 0 w" by (simp add: poll_stops_0)
    then show ?thesis ..
  next
    case False
    with step.hyps have "await rpc ended hash raw (snd (ended (snd (rpc_tx rpc raw w)))) = Some r"
      by (auto simp: poll_ends_0 isl_def split: prod.splits sum.splits option.splits if_splits)
    from step.IH [OF this] obtain k where
      "poll_stops rpc ended raw k (snd (ended (snd (rpc_tx rpc raw w))))" by blast
    with False have "poll_stops rpc ended raw (Suc k) w" by (simp add: poll_stops_Suc)
    then show ?thesis ..
  qed
qed

text \<open>
  C36. The wait for a delivery returns exactly when some lookup finds the transaction in a block or the
  context ends after one, and it answers at the first: no error for a transaction that was executed,
  the chain's own error for one that failed, and the last lookup's error when the context ended first.
\<close>

theorem await_delivery_iff:
  "await_loop rpc ended hash raw w = Some r \<longleftrightarrow>
     (\<exists>k. poll_stops rpc ended raw k w \<and> r = poll_result rpc ended hash raw k w)"
proof
  assume r: "await_loop rpc ended hash raw w = Some r"
  from await_loop_returned [OF this] obtain k where k: "poll_stops rpc ended raw k w" by blast
  with r await_loop_stops [OF k] show "\<exists>k. poll_stops rpc ended raw k w \<and> r = poll_result rpc ended hash raw k w"
    by auto
next
  assume "\<exists>k. poll_stops rpc ended raw k w \<and> r = poll_result rpc ended hash raw k w"
  then show "await_loop rpc ended hash raw w = Some r" by (auto simp: await_loop_stops)
qed

end
