(* ===== verification/Float_Bounds.thy ===== *)
theory Float_Bounds
  imports Go_Float64
begin

text \<open>
  How far binary64 rounding is from exact arithmetic: half a unit in the last place for one rounding,
  and from there for a duration's seconds and for the refill of a token bucket. The bounds are what a
  rate limiter's sustained rate rests on.
\<close>

subsection \<open>One rounding\<close>

lemma rne_error: "\<bar>of_int (rne z) - z\<bar> \<le> 1 / 2"
  by (auto simp: rne_def Let_def abs_if) linarith+

lemma round_pos_error:
  assumes "0 < x"
  shows "\<bar>round_pos x - x\<bar> \<le> x / 2 ^ 53 + 2 powi (- 1075)"
proof -
  let ?u = "(2::rat) powi ulp_exp x"
  have u: "0 < ?u" by simp
  have "x * 2 powi (- ulp_exp x) * ?u = x" by (simp add: power_int_minus)
  then have "round_pos x - x = (of_int (rne (x * 2 powi (- ulp_exp x))) - x * 2 powi (- ulp_exp x)) * ?u"
    by (simp add: round_pos_def left_diff_distrib)
  then have "\<bar>round_pos x - x\<bar> = \<bar>of_int (rne (x * 2 powi (- ulp_exp x))) - x * 2 powi (- ulp_exp x)\<bar> * ?u"
    using u by (simp add: abs_mult)
  also have "\<dots> \<le> 1 / 2 * ?u"
    by (intro mult_right_mono rne_error less_imp_le u)
  also have "\<dots> \<le> x / 2 ^ 53 + 2 powi (- 1075)"
  proof (cases "ulp_exp x = - 1074")
    case True
    have "1 / 2 * (2::rat) powi (- 1074) = 2 powi (- 1075)"
      using power_int_add_1 [of "2::rat" "- 1075"] by simp
    with True assms show ?thesis by simp
  next
    case False
    then have e: "ulp_exp x = binade x - 52" by (auto simp: ulp_exp_def max_def split: if_splits)
    have "1 / 2 * ?u = 2 powi binade x / 2 ^ 53"
      by (simp add: e power_int_diff)
    also have "\<dots> \<le> x / 2 ^ 53"
      using binade_bounds [OF assms] by (simp add: divide_right_mono)
    finally show ?thesis by (simp add: add_increasing2)
  qed
  finally show ?thesis .
qed

text \<open>Half the least subnormal, kept as a name.\<close>

definition half_tiny :: rat where "half_tiny = 2 powi (- 1075)"

lemma half_tiny_pos: "0 < half_tiny"
  unfolding half_tiny_def by (rule zero_less_power_int) simp

lemma half_tiny_le: "- 1074 \<le> k \<Longrightarrow> 2 * half_tiny \<le> 2 powi k"
proof -
  assume "- 1074 \<le> k"
  then have "(2::rat) powi (- 1074) \<le> 2 powi k" by (intro power_int_increasing) auto
  moreover have "2 * half_tiny = 2 powi (- 1074)"
    unfolding half_tiny_def using power_int_add_1 [of "2::rat" "- 1075"] by (simp only: mult.commute) simp
  ultimately show ?thesis by simp
qed

lemma f_round_error:
  assumes "0 \<le> x" "f_round x = Fin y"
  shows "\<bar>y - x\<bar> \<le> x / 2 ^ 53 + half_tiny"
  using assms round_pos_error [of x, folded half_tiny_def] by (auto simp: f_round_def Let_def sgn_if less_imp_le [OF half_tiny_pos] split: if_splits)

text \<open>Away from the subnormals the error is relative.\<close>

lemma tiny: "half_tiny \<le> 2 powi (- 900) / 2 ^ 53"
proof -
  have "(2::rat) powi (- 900) / 2 ^ 53 = 2 powi (- 953)"
    using power_int_diff [of "2::rat" "- 900" 53] by simp
  with half_tiny_le [of "- 953"] half_tiny_pos show ?thesis by simp
qed

lemma f_round_relative:
  assumes "2 powi (- 900) \<le> x" "f_round x = Fin y"
  shows "\<bar>y - x\<bar> \<le> x / 2 ^ 52"
proof -
  have "0 \<le> x" using assms(1) by (meson order_trans zero_le_power_int zero_le_numeral)
  from f_round_error [OF this assms(2)] tiny assms(1) show ?thesis
    by (auto simp: field_simps)
qed

lemma f_round_large:
  assumes "f_round x = Inf False" "N \<le> 2 ^ 53" "0 \<le> N"
  shows "of_int N < x"
proof (rule ccontr)
  assume "\<not> of_int N < x"
  then have "f_le (f_round x) (f_round (of_int N))" by (intro f_round_mono) simp
  with assms show False by (simp add: f_round_of_int)
qed

subsection \<open>The seconds of a duration\<close>

lemma dur_seconds_error:
  assumes "0 \<le> d" "d \<le> 2 ^ 63" "dur_seconds d = Fin s"
  shows "\<bar>s - of_int d / 1000000000\<bar> \<le> of_int d / 1000000000 / 2 ^ 50"
proof (cases "d = 0")
  case True
  with assms(3) show ?thesis by (simp add: dur_seconds_def f_of_int_def)
next
  case False
  define a n where "a = d div second" and "n = d mod second"
  have ad: "d = 1000000000 * a + n" "0 \<le> a" "0 \<le> n" "n < 1000000000" "a \<le> 2 ^ 34"
    using assms False zdiv_mono1 [of d "2 ^ 63" second]
    by (simp_all add: a_def n_def second_def pos_imp_zdiv_nonneg_iff)
  have dr: "of_int d / 1000000000 = of_int a + (of_int n / 1000000000 :: rat)"
    by (simp add: ad(1) add_divide_distrib)
  have fin: "f_of_int a = Fin (of_int a)" "f_of_int n = Fin (of_int n)" using ad by simp_all
  have parts: "sgn d * (\<bar>d\<bar> div second) = a" "sgn d * (\<bar>d\<bar> mod second) = n"
    using assms(1) False by (simp_all add: a_def n_def)
  have s: "f_add (Fin (of_int a)) (f_round (of_int n / 1000000000)) = Fin s"
    using assms(3) by (simp add: dur_seconds_def parts fin)
  then obtain q where q: "f_round (of_int n / 1000000000) = Fin q"
    by (cases "f_round (of_int n / 1000000000)") auto
  have small: "(2::rat) powi (- 900) \<le> 1 / 1000000000"
  proof -
    have "(2::rat) powi (- 900) \<le> 2 powi (- 30)" by (rule power_int_increasing) auto
    also have "\<dots> \<le> 1 / 1000000000" by (simp add: power_int_minus field_simps)
    finally show ?thesis .
  qed
  have frac: "\<bar>q - of_int n / 1000000000\<bar> \<le> of_int n / 1000000000 / 2 ^ 52"
  proof (cases "n = 0")
    case True
    with q show ?thesis by simp
  next
    case False
    with ad(3) have "(1::rat) \<le> of_int n" by simp
    then have "1 / 1000000000 \<le> (of_int n / 1000000000 :: rat)" by (simp add: divide_right_mono)
    with small f_round_relative [OF _ q] show ?thesis by linarith
  qed
  let ?z = "of_int a + q" and ?D = "of_int d / 1000000000 :: rat"
  have z: "\<bar>?z - ?D\<bar> \<le> ?D / 2 ^ 52"
  proof -
    have "of_int n / 1000000000 \<le> ?D" using ad(2) by (simp add: dr)
    then have "of_int n / 1000000000 / 2 ^ 52 \<le> ?D / 2 ^ 52" by (rule divide_right_mono) simp
    with frac show ?thesis by (simp add: dr)
  qed
  have D: "1 / 1000000000 \<le> ?D"
  proof -
    have "(1::rat) \<le> of_int d" using assms(1) False by simp
    then show ?thesis by (simp add: divide_right_mono)
  qed
  have "2 powi (- 900) \<le> ?z"
  proof -
    have "(2::rat) powi (- 900) \<le> 2 powi (- 31)" by (rule power_int_increasing) auto
    also have "\<dots> \<le> 1 / 1000000000 - 1 / 1000000000 / 2 ^ 52" by (simp add: power_int_minus field_simps)
    also have "\<dots> \<le> ?D - ?D / 2 ^ 52" using D by (simp add: field_simps)
    finally show ?thesis using z by linarith
  qed
  moreover have "f_round ?z = Fin s" using s q by simp
  ultimately have "\<bar>s - ?z\<bar> \<le> ?z / 2 ^ 52" by (rule f_round_relative)
  moreover have "?z \<le> 2 * ?D"
  proof -
    have "?D / 2 ^ 52 \<le> ?D" using D by (simp add: field_simps)
    with z show ?thesis by linarith
  qed
  then have "?z / 2 ^ 52 \<le> 2 * ?D / 2 ^ 52" by (rule divide_right_mono) simp
  moreover have "2 * ?D / 2 ^ 52 + ?D / 2 ^ 52 \<le> ?D / 2 ^ 50" using D by simp
  ultimately show ?thesis using z by linarith
qed

subsection \<open>The refill of a token bucket\<close>

text \<open>
  A bucket of size \<open>N\<close> at level \<open>x\<close>, refilled at \<open>r\<close> tokens a second for a duration and capped. \<open>inflow\<close>
  bounds what it gains, per second: the rate, and an allowance for rounding of a part in \<open>2 ^ 48\<close> of
  the rate and in \<open>2 ^ 21\<close> of the size.
\<close>

definition inflow :: "rat \<Rightarrow> int \<Rightarrow> rat" where
  "inflow r N = r * (1 + 1 / 2 ^ 48) + of_int N / 2 ^ 21"

lemma inflow_pos: "0 \<le> r \<Longrightarrow> 1 \<le> N \<Longrightarrow> 0 < inflow r N"
  by (simp add: inflow_def add_nonneg_pos)

lemma refill_product:
  assumes "0 \<le> r" "0 < d" "d \<le> 2 ^ 63" "dur_seconds d = Fin s"
  shows "s * r \<le> of_int d / 1000000000 * (r * (1 + 1 / 2 ^ 50))"
    and "f_round (s * r) = Fin p \<Longrightarrow>
      p \<le> of_int d / 1000000000 * (r * (1 + 1 / 2 ^ 48)) + half_tiny"
proof -
  let ?D = "of_int d / 1000000000 :: rat"
  have D: "0 \<le> ?D" using assms(2) by simp
  have "s \<le> ?D * (1 + 1 / 2 ^ 50)"
  proof -
    have "s \<le> ?D + ?D / 2 ^ 50" using dur_seconds_error [of d s] assms by linarith
    then show ?thesis by (simp add: distrib_left)
  qed
  from mult_right_mono [OF this assms(1)] show le: "s * r \<le> ?D * (r * (1 + 1 / 2 ^ 50))"
    by (simp add: ac_simps)
  assume p: "f_round (s * r) = Fin p"
  have "0 \<le> s" using dur_seconds_finite [of d] assms by (metis abs_of_pos float64.inject(1) less_imp_le)
  then have "p \<le> s * r + s * r / 2 ^ 53 + half_tiny"
  proof -
    have "0 \<le> s * r" using \<open>0 \<le> s\<close> assms(1) by simp
    from f_round_error [OF this p] show ?thesis by linarith
  qed
  moreover have "s * r + s * r / 2 ^ 53 \<le> ?D * (r * (1 + 1 / 2 ^ 50)) * (1 + 1 / 2 ^ 53)"
    using mult_right_mono [OF le, of "1 + 1 / 2 ^ 53"] by (simp add: field_simps)
  moreover have "?D * (r * (1 + 1 / 2 ^ 50)) * (1 + 1 / 2 ^ 53) \<le> ?D * (r * (1 + 1 / 2 ^ 48))"
  proof -
    have "(1 + 1 / 2 ^ 50) * (1 + 1 / 2 ^ 53) \<le> (1 + 1 / 2 ^ 48 :: rat)" by (simp add: field_simps)
    from mult_left_mono [OF this, of "?D * r"] D assms(1) show ?thesis by (simp add: ac_simps)
  qed
  ultimately show "p \<le> ?D * (r * (1 + 1 / 2 ^ 48)) + half_tiny" by linarith
qed

lemma refill_bounds:
  assumes level: "0 \<le> x" "x \<le> of_int N" "f_round x = Fin x" and N: "1 \<le> N" "N \<le> 2 ^ 53"
    and r: "0 \<le> r" and d: "0 \<le> d" "d \<le> 2 ^ 63"
  obtains y where "f_min (f_add (Fin x) (f_mul (dur_seconds d) (Fin r))) (Fin (of_int N)) = Fin y"
    "0 \<le> y" "y \<le> of_int N" "f_round y = Fin y" "y \<le> x + of_int d / 1000000000 * inflow r N"
proof -
  let ?D = "of_int d / 1000000000 :: rat" and ?N = "of_int N :: rat"
  obtain s where s: "dur_seconds d = Fin s" "0 \<le> s" using dur_seconds_finite [of d] d by force
  have NN: "f_round ?N = Fin ?N" "0 \<le> ?N" using f_round_of_int [of N] N by simp_all
  have gain: "0 \<le> ?D * inflow r N" using inflow_pos [OF r N(1)] d(1) by simp
  show thesis
  proof (cases "d = 0")
    case True
    then have "dur_seconds d = Fin 0" by (simp add: dur_seconds_def f_of_int_def)
    with that [of x] level gain show thesis by (simp add: f_min_def)
  next
    case False
    with d have d0: "0 < d" by simp
    define D G S A t where "D = (of_int d / 1000000000 :: rat)" and "G = D * (r * (1 + 1 / 2 ^ 48))"
      and "S = D * (of_int N / 2 ^ 21)" and "A = (of_int N / 2 ^ 53 :: rat)" and "t = half_tiny"
    note prod = refill_product [OF r d0 d(2) s(1), folded D_def, folded G_def t_def]
    have D: "1 / 2 ^ 30 \<le> D"
    proof -
      have "(1::rat) \<le> of_int d" using d0 by simp
      then have "1 / 1000000000 \<le> D" by (simp add: D_def divide_right_mono)
      then show ?thesis by simp
    qed
    have slack: "2 * A \<le> S"
      using mult_right_mono [OF D, of "?N / 2 ^ 21"] NN(2) by (simp add: S_def A_def)
    have nonneg: "0 \<le> A" "0 \<le> t" using NN(2) half_tiny_pos by (simp_all add: A_def t_def)
    have tiny_N: "2 * t \<le> A"
    proof -
      have "2 * half_tiny \<le> 2 powi (- 53)" by (rule half_tiny_le) simp
      also have "\<dots> = 1 / 2 ^ 53" by (simp add: power_int_def power_divide)
      also have "\<dots> \<le> ?N / 2 ^ 53" using N(1) by (intro divide_right_mono) simp_all
      finally show ?thesis unfolding A_def t_def .
    qed
    have flow: "of_int d / 1000000000 * inflow r N = G + S"
      by (simp add: inflow_def distrib_left G_def S_def D_def)
    have sr: "0 \<le> s * r" using s(2) r by simp
    have "0 \<le> D" using D by (rule order_trans [rotated]) simp
    then have "D * (r * (1 + 1 / 2 ^ 50)) \<le> G"
      unfolding G_def by (intro mult_left_mono r) simp_all
    with prod(1) have sr_le: "s * r \<le> G" by linarith
    have err: "q \<le> x + p + A + t" if "f_round (x + p) = Fin q" "0 \<le> p" "x + p \<le> ?N" for p q
    proof -
      have "(x + p) / 2 ^ 53 \<le> A" unfolding A_def using that(3) by (intro divide_right_mono) simp_all
      moreover have "0 \<le> x + p" using level(1) that(2) by simp
      from f_round_error [OF this that(1)] have "\<bar>q - (x + p)\<bar> \<le> (x + p) / 2 ^ 53 + t" unfolding t_def .
      ultimately show ?thesis by linarith
    qed
    show thesis
    proof (cases "f_round (s * r)")
      case NaN
      then show thesis by simp
    next
      case (Inf neg)
      with f_round_pos [OF sr] have inf: "f_round (s * r) = Inf False" by auto
      then have "?N \<le> x + (G + S)"
        using f_round_large [OF inf N(2)] sr_le level(1) N(1) slack nonneg by linarith
      with that [of ?N] NN inf s(1) flow show thesis by (simp add: f_min_def)
    next
      case (Fin p)
      with f_round_pos [OF sr] have p: "0 \<le> p" by auto
      have v: "f_add (Fin x) (f_mul (dur_seconds d) (Fin r)) = f_round (x + p)" using s(1) Fin by simp
      have p_le: "p \<le> G + t" using prod(2) [OF Fin] .
      show thesis
      proof (cases "f_le (Fin ?N) (f_round (x + p))")
        case True
        have big: "?N \<le> x + p + A + t"
        proof (rule ccontr)
          assume less: "\<not> ?thesis"
          then have xp: "x + p \<le> ?N" using nonneg by linarith
          show False
          proof (cases "f_round (x + p)")
            case (Fin q)
            with True err [OF Fin p xp] less show False by simp
          next
            case (Inf b)
            with f_round_pos [of "x + p"] level(1) p have "f_round (x + p) = Inf False" by auto
            from f_round_large [OF this N(2)] N(1) xp show False by simp
          qed simp
        qed
        have "f_min (f_round (x + p)) (Fin ?N) = Fin ?N"
          using True by (cases "f_round (x + p)") (auto simp: f_min_def)
        moreover have "?N \<le> x + (G + S)" using big p_le slack tiny_N by linarith
        ultimately show thesis using that [of ?N] NN v flow by simp
      next
        case False
        then obtain q where q: "f_round (x + p) = Fin q" "q < ?N"
          using f_round_pos [of "x + p"] level(1) p by (cases "f_round (x + p)") auto
        have "x + p \<le> ?N"
        proof (rule ccontr)
          assume "\<not> x + p \<le> ?N"
          then have "f_le (f_round ?N) (f_round (x + p))" by (intro f_round_mono) simp
          with NN q show False by simp
        qed
        with err [OF q(1) p] p_le slack tiny_N have "q \<le> x + (G + S)" by linarith
        moreover have "0 \<le> q" using f_round_pos [of "x + p"] level(1) p q(1) by auto
        ultimately show thesis using that [of q] q v f_round_idem [OF q(1)] flow by (simp add: f_min_def)
      qed
    qed
  qed
qed

text \<open>One token taken from a level of one or more leaves the level exactly one lower.\<close>

lemma take_one_exact:
  assumes "1 \<le> x" "x \<le> 2 ^ 53" "f_round x = Fin x"
  shows "f_round (x - 1) = Fin (x - 1)"
proof (cases "x = 1")
  case False
  with assms(1) have x: "0 < x - 1" "0 < x" by simp_all
  let ?e = "ulp_exp x"
  have rx: "round_pos x = x" using assms(3) x(2) by (simp add: f_round_def Let_def split: if_splits)
  have "binade x \<le> 52 \<or> x = 2 ^ 53"
    using binade_bounds [OF x(2)] assms(2) power_int_increasing [of 53 "binade x" "2::rat"] by force
  show ?thesis
  proof (cases "x = 2 ^ 53")
    case True
    then have "x - 1 = of_int (2 ^ 53 - 1)" by simp
    then show ?thesis using f_round_of_int [of "2 ^ 53 - 1"] by simp
  next
    case False
    with \<open>binade x \<le> 52 \<or> x = 2 ^ 53\<close> have b: "binade x \<le> 52" by simp
    have "binade 1 \<le> binade x" using assms(1) by (intro binade_mono) auto
    then have e: "- 52 \<le> ?e" "?e \<le> 0" using b by (auto simp: ulp_exp_def binade.simps)
    obtain k where k: "1 = of_int k * (2::rat) powi ?e"
    proof
      have "(2::rat) powi (- ?e) = of_int (2 ^ nat (- ?e))"
        using e(2) by (simp add: power_int_def)
      then show "1 = of_int (2 ^ nat (- ?e)) * (2::rat) powi ?e"
        by (metis add.left_inverse power_int_0_right power_int_add zero_neq_numeral)
    qed
    have "x = of_int (rne (x * 2 powi (- ?e))) * 2 powi ?e" using rx by (simp add: round_pos_def)
    with k have "x - 1 = of_int (rne (x * 2 powi (- ?e)) - k) * 2 powi ?e"
      by (metis left_diff_distrib of_int_diff)
    moreover have "ulp_exp (x - 1) \<le> ?e" using x by (intro ulp_exp_mono) auto
    ultimately have "round_pos (x - 1) = x - 1" by (rule round_pos_exact)
    moreover have "(2::rat) ^ 53 \<le> 2 ^ 1024" by (rule power_increasing) auto
    then have "x - 1 < 2 ^ 1024" using assms(2) by linarith
    ultimately show ?thesis using x by (simp add: f_round_def Let_def)
  qed
qed simp

text \<open>After a wait in which the rate, less that allowance, comes to a token, there is a token.\<close>

lemma refill_grants:
  assumes "0 \<le> x" "1 \<le> N" "0 \<le> r" "0 < d" "d \<le> 2 ^ 63"
    and waited: "1 \<le> of_int d / 1000000000 * (r * (1 - 1 / 2 ^ 48))"
  shows "f_le (Fin 1) (f_min (f_add (Fin x) (f_mul (dur_seconds d) (Fin r))) (Fin (of_int N)))"
proof -
  let ?D = "of_int d / 1000000000 :: rat"
  obtain s where s: "dur_seconds d = Fin s" using dur_seconds_finite [of d] assms(4,5) by (metis abs_of_pos)
  have "?D - ?D / 2 ^ 50 \<le> s" using dur_seconds_error [OF _ assms(5) s] assms(4) by linarith
  then have "(?D - ?D / 2 ^ 50) * r \<le> s * r" using assms(3) by (rule mult_right_mono)
  moreover have "1 \<le> (?D - ?D / 2 ^ 50) * r"
  proof -
    have "?D * (r * (1 - 1 / 2 ^ 48)) \<le> ?D * (r * (1 - 1 / 2 ^ 50))"
      using assms(3,4) by (intro mult_left_mono) simp_all
    also have "\<dots> = (?D - ?D / 2 ^ 50) * r" by (simp add: algebra_simps)
    finally show ?thesis using waited by linarith
  qed
  ultimately have "f_le (f_round 1) (f_round (s * r))" by (intro f_round_mono) linarith
  then have p: "f_le (Fin 1) (f_round (s * r))" using f_round_of_int [of 1] by simp
  have "f_le (Fin 1) (f_add (Fin x) (f_round (s * r)))"
  proof (cases "f_round (s * r)")
    case (Fin p)
    with \<open>f_le (Fin 1) (f_round (s * r))\<close> assms(1) have "f_le (f_round 1) (f_round (x + p))"
      by (intro f_round_mono) simp
    then show ?thesis using Fin f_round_of_int [of 1] by simp
  qed (use p in auto)
  then show ?thesis
    using assms(2) s by (cases "f_add (Fin x) (f_round (s * r))") (auto simp: f_min_def)
qed

end
