(* ===== verification/Throttle.thy ===== *)
theory Throttle
  imports Float_Bounds
begin

text \<open>
  What bounds the grants of a throttle, stated once for the limiters of the program. A throttle is a
  step that answers a request and moves to its next state.

  \<open>throttle\<close> is an allowance each grant uses up: it bounds what is granted while nothing is refilled.
  \<open>metered\<close> is a level that each grant lowers by one and that time raises at a rate: it bounds what is
  granted over any stretch of time.
\<close>

text \<open>Of the requests served in order, how many of the ones in question were granted.\<close>

primrec granted :: "('e \<Rightarrow> 's \<Rightarrow> bool \<times> 's) \<Rightarrow> ('e \<Rightarrow> bool) \<Rightarrow> 'e list \<Rightarrow> 's \<Rightarrow> nat" where
  "granted step mine [] s = 0"
| "granted step mine (e # es) s =
     (if mine e \<and> fst (step e s) then 1 else 0) + granted step mine es (snd (step e s))"

locale throttle =
  fixes step :: "'e \<Rightarrow> 's \<Rightarrow> bool \<times> 's"
    and mine :: "'e \<Rightarrow> bool"
    and allowance :: "nat \<Rightarrow> 's \<Rightarrow> bool"
  assumes grant: "allowance n s \<Longrightarrow> mine e \<Longrightarrow> fst (step e s) \<Longrightarrow>
      0 < n \<and> allowance (n - 1) (snd (step e s))"
    and no_grant: "allowance n s \<Longrightarrow> \<not> (mine e \<and> fst (step e s)) \<Longrightarrow> allowance n (snd (step e s))"
begin

lemma granted_le: "allowance n s \<Longrightarrow> granted step mine es s \<le> n"
proof (induction es arbitrary: n s)
  case (Cons e es)
  show ?case
  proof (cases "mine e \<and> fst (step e s)")
    case True
    with grant [OF Cons.prems] have "0 < n" "allowance (n - 1) (snd (step e s))" by auto
    with Cons.IH [OF this(2)] True show ?thesis by simp
  next
    case False
    from Cons.IH [OF no_grant [OF Cons.prems False]] False show ?thesis by auto
  qed
qed simp

lemma refused_after: "allowance 0 s \<Longrightarrow> mine e \<Longrightarrow> \<not> fst (step e s)"
  using grant by blast

end

text \<open>
  Requests at instants. \<open>ok t s\<close> is the state's invariant as of \<open>t\<close>, \<open>level t s\<close> what could be granted
  at \<open>t\<close>, and \<open>rate\<close> what a nanosecond adds to it.
\<close>

locale metered =
  fixes step :: "instant \<times> 'e \<Rightarrow> 's \<Rightarrow> bool \<times> 's"
    and mine :: "'e \<Rightarrow> bool"
    and ok :: "instant \<Rightarrow> 's \<Rightarrow> bool"
    and level :: "instant \<Rightarrow> 's \<Rightarrow> rat"
    and rate :: rat
  assumes ok_step: "ok t s \<Longrightarrow> t \<le> now \<Longrightarrow> ok now (snd (step (now, e) s))"
    and level_nonneg: "ok t s \<Longrightarrow> 0 \<le> level t s"
    and spent: "ok t s \<Longrightarrow> t \<le> now \<Longrightarrow>
      level now (snd (step (now, e) s)) + (if mine e \<and> fst (step (now, e) s) then 1 else 0)
        \<le> level t s + rate * of_int (now - t)"
    and rate_nonneg: "0 \<le> rate"
begin

lemma granted_over:
  assumes "ok t s" "sorted_wrt (\<le>) (t # map fst es @ [u])"
  shows "of_nat (granted step (\<lambda>(now, e). mine e) es s) \<le> level t s + rate * of_int (u - t)"
  using assms
proof (induction es arbitrary: t s)
  case Nil
  then show ?case using level_nonneg rate_nonneg by simp
next
  case (Cons e es)
  obtain now x where e: "e = (now, x)" by (cases e)
  let ?s = "snd (step (now, x) s)" and ?g = "if mine x \<and> fst (step (now, x) s) then 1 else 0 :: rat"
  have t: "t \<le> now" using Cons.prems(2) by (simp add: e)
  have "of_nat (granted step (\<lambda>(now, e). mine e) es ?s) \<le> level now ?s + rate * of_int (u - now)"
    using Cons.prems by (intro Cons.IH ok_step [OF Cons.prems(1) t]) (auto simp: e)
  moreover have "rate * of_int (now - t) + rate * of_int (u - now) = rate * of_int (u - t)"
    by (simp add: right_diff_distrib)
  ultimately have "of_nat (granted step (\<lambda>(now, e). mine e) es ?s) + ?g \<le> level t s + rate * of_int (u - t)"
    using spent [OF Cons.prems(1) t, of x] by linarith
  then show ?case by (cases "mine x \<and> fst (step (now, x) s)") (auto simp: e)
qed

end

end
