(* ===== verification/Rate_Limiter.thy ===== *)
theory Rate_Limiter
  imports Throttle
begin

text \<open>
  \<open>facilitator/ratelimit.go\<close>: one token bucket per peer. The tokens are \<open>float64\<close>s and are
  computed as the code computes them, rounding and infinities included. An operation runs under
  the limiter's mutex, so one call is one step; the clock's reading is an argument.

  \<open>allow\<close> is \<open>sweepFull\<close> followed by \<open>spend\<close>, the rest of its body. The limiter at one instant is
  a \<open>throttle\<close>.
\<close>

subsection \<open>The limiter\<close>

definition DefaultRatePerSecond :: rat where "DefaultRatePerSecond = 10"
definition DefaultRateBurst :: int where "DefaultRateBurst = 20"
definition sweepInterval :: duration where "sweepInterval = minute"
definition defaultMaxBuckets :: nat where "defaultMaxBuckets = 65536"

record RateLimit =
  PerSecond :: float64
  Burst :: int

record bucket =
  bk_tokens :: float64
  bk_last :: instant

record rateLimiter =
  rl_rate :: float64
  rl_burst :: float64
  rl_max :: nat
  rl_buckets :: "(string, bucket) gomap"
  rl_swept :: instant

definition newRateLimiter :: "RateLimit \<Rightarrow> rateLimiter" where
  "newRateLimiter cfg =
     (let rate = (if f_le (PerSecond cfg) (Fin 0) then Fin DefaultRatePerSecond else PerSecond cfg);
          size = (if Burst cfg \<le> 0 then DefaultRateBurst else Burst cfg) in
      \<lparr>rl_rate = rate, rl_burst = f_of_int size, rl_max = defaultMaxBuckets, rl_buckets = [],
       rl_swept = zero_time\<rparr>)"

text \<open>What a bucket holds at \<open>now\<close>, before \<open>min\<close> caps it; both \<open>allow\<close> and \<open>sweepFull\<close> compute it.\<close>

definition refilled :: "rateLimiter \<Rightarrow> instant \<Rightarrow> bucket \<Rightarrow> float64" where
  "refilled l now b = f_add (bk_tokens b) (f_mul (dur_seconds (dur_sub now (bk_last b))) (rl_rate l))"

definition sweepFull :: "instant \<Rightarrow> rateLimiter \<Rightarrow> rateLimiter" where
  "sweepFull now l =
     (if \<not> (sweepInterval \<le> dur_sub now (rl_swept l) \<or> now < rl_swept l \<or> rl_max l \<le> gm_len (rl_buckets l))
      then l
      else l\<lparr>rl_swept := now,
             rl_buckets := gm_keep (\<lambda>key b. f_less (refilled l now b) (rl_burst l)) (rl_buckets l)\<rparr>)"

definition take_token :: "string \<Rightarrow> bucket \<Rightarrow> rateLimiter \<Rightarrow> bool \<times> rateLimiter" where
  "take_token key b l =
     (let granted = f_le (Fin 1) (bk_tokens b);
          b' = (if granted then b\<lparr>bk_tokens := f_sub (bk_tokens b) (Fin 1)\<rparr> else b) in
      (granted, l\<lparr>rl_buckets := gm_put key b' (rl_buckets l)\<rparr>))"

definition spend :: "instant \<Rightarrow> string \<Rightarrow> rateLimiter \<Rightarrow> bool \<times> rateLimiter" where
  "spend now key l =
     (case gm_get (rl_buckets l) key of
        None \<Rightarrow>
          if rl_max l \<le> gm_len (rl_buckets l) then (False, l)
          else take_token key \<lparr>bk_tokens = rl_burst l, bk_last = now\<rparr> l
      | Some b \<Rightarrow>
          if now < bk_last b then take_token key (b\<lparr>bk_last := now\<rparr>) l
          else take_token key \<lparr>bk_tokens = f_min (refilled l now b) (rl_burst l), bk_last = now\<rparr> l)"

definition allow :: "instant \<Rightarrow> string \<Rightarrow> rateLimiter \<Rightarrow> bool \<times> rateLimiter" where
  "allow now key l = spend now key (sweepFull now l)"

text \<open>A sequence of requests, each at its instant, and what each was answered.\<close>

fun serve_all :: "(instant \<times> string) list \<Rightarrow> rateLimiter \<Rightarrow> bool list \<times> rateLimiter" where
  "serve_all [] l = ([], l)"
| "serve_all ((now, key) # reqs) l =
     (let (granted, l') = allow now key l; (rest, l'') = serve_all reqs l' in (granted # rest, l''))"

lemmas limiter_defs = allow_def spend_def take_token_def sweepFull_def Let_def

lemma limiter_const [simp]:
  "rl_rate (sweepFull now l) = rl_rate l" "rl_burst (sweepFull now l) = rl_burst l"
  "rl_max (sweepFull now l) = rl_max l"
  "rl_rate (snd (spend now key l)) = rl_rate l" "rl_burst (snd (spend now key l)) = rl_burst l"
  "rl_max (snd (spend now key l)) = rl_max l"
  by (auto simp: limiter_defs split: option.splits)

lemma refilled_sweep [simp]: "refilled (sweepFull now l) t b = refilled l t b"
  by (simp add: refilled_def)

subsection \<open>The size of the table\<close>

definition table_ok :: "rateLimiter \<Rightarrow> bool" where
  "table_ok l \<longleftrightarrow> gm_ok (rl_buckets l) \<and> gm_len (rl_buckets l) \<le> rl_max l"

lemma sweepFull_ok: "table_ok l \<Longrightarrow> table_ok (sweepFull now l)"
  using gmap.len_keep_le [of "rl_buckets l"]
  by (auto simp: sweepFull_def table_ok_def gm_simps intro: order_trans)

lemma take_token_ok:
  "gm_ok (rl_buckets l) \<Longrightarrow> gm_len (rl_buckets l) \<le> rl_max l \<Longrightarrow>
   gm_get (rl_buckets l) key = None \<longrightarrow> gm_len (rl_buckets l) < rl_max l \<Longrightarrow>
   table_ok (snd (take_token key b l))"
  by (cases "gm_get (rl_buckets l) key")
    (auto simp: take_token_def Let_def table_ok_def gm_simps gmap.len_put_new gmap.len_put_old)

lemma spend_ok: "table_ok l \<Longrightarrow> table_ok (snd (spend now key l))"
  by (auto simp: spend_def table_ok_def [of l] take_token_ok split: option.splits)

lemma allow_ok: "table_ok l \<Longrightarrow> table_ok (snd (allow now key l))"
  by (simp add: allow_def sweepFull_ok spend_ok)

lemma serve_all_Cons:
  "fst (serve_all ((now, key) # reqs) l) =
     fst (allow now key l) # fst (serve_all reqs (snd (allow now key l)))"
  "snd (serve_all ((now, key) # reqs) l) = snd (serve_all reqs (snd (allow now key l)))"
  by (simp_all add: split_beta Let_def)

declare serve_all.simps(2) [simp del]

lemma allow_max: "rl_max (snd (allow now key l)) = rl_max l"
  by (simp add: allow_def)

lemma serve_all_ok: "table_ok l \<Longrightarrow> table_ok (snd (serve_all reqs l)) \<and> rl_max (snd (serve_all reqs l)) = rl_max l"
  by (induction reqs arbitrary: l) (auto simp: serve_all_Cons allow_ok allow_max)

text \<open>
  C28. Whatever the configuration and whatever requests arrive, from whichever peers and at whichever
  instants, the table never tracks more than \<open>defaultMaxBuckets\<close> peers.
\<close>

theorem buckets_bounded:
  "gm_len (rl_buckets (snd (serve_all reqs (newRateLimiter cfg)))) \<le> defaultMaxBuckets"
proof -
  have "table_ok (newRateLimiter cfg)"
    by (simp add: newRateLimiter_def table_ok_def Let_def gm_len_def)
  from serve_all_ok [OF this, of reqs] show ?thesis
    by (simp add: table_ok_def newRateLimiter_def Let_def)
qed

subsection \<open>Levels\<close>

text \<open>
  A limiter configured with a finite rate and a burst of at most \<open>2 ^ 53\<close> keeps every level between
  zero and the burst \<open>N\<close>.
\<close>

definition level_ok :: "int \<Rightarrow> bucket \<Rightarrow> bool" where
  "level_ok N b \<longleftrightarrow> (\<exists>x. bk_tokens b = Fin x \<and> 0 \<le> x \<and> x \<le> of_int N \<and> f_round x = Fin x)"

definition limiter_ok :: "int \<Rightarrow> rateLimiter \<Rightarrow> bool" where
  "limiter_ok N l \<longleftrightarrow> (\<exists>r. rl_rate l = Fin r \<and> 0 \<le> r) \<and> rl_burst l = Fin (of_int N) \<and> 0 \<le> N \<and> N \<le> 2 ^ 53 \<and>
     gm_ok (rl_buckets l) \<and> (\<forall>key b. gm_get (rl_buckets l) key = Some b \<longrightarrow> level_ok N b)"

definition plain_config :: "RateLimit \<Rightarrow> bool" where
  "plain_config cfg \<longleftrightarrow> (\<exists>r. PerSecond cfg = Fin r) \<and> Burst cfg \<le> 2 ^ 53"

definition effective_burst :: "RateLimit \<Rightarrow> int" where
  "effective_burst cfg = (if Burst cfg \<le> 0 then DefaultRateBurst else Burst cfg)"

lemma new_limiter_ok: "plain_config cfg \<Longrightarrow> limiter_ok (effective_burst cfg) (newRateLimiter cfg)"
  by (auto simp: plain_config_def limiter_ok_def newRateLimiter_def Let_def effective_burst_def
      DefaultRateBurst_def DefaultRatePerSecond_def)

lemma limiter_okD:
  assumes "limiter_ok N l"
  shows "rl_burst l = Fin (of_int N)" "0 \<le> N" "N \<le> 2 ^ 53" "gm_ok (rl_buckets l)"
    "gm_get (rl_buckets l) key = Some b \<Longrightarrow> level_ok N b"
  using assms by (auto simp: limiter_ok_def)

text \<open>What a refill comes to: with time passed it only adds, and with none it changes nothing.\<close>

lemma refilled_forward:
  assumes "limiter_ok N l" "level_ok N b" "bk_last b \<le> now"
  shows "\<exists>x. f_min (refilled l now b) (rl_burst l) = Fin x \<and> 0 \<le> x \<and> x \<le> of_int N \<and> f_round x = Fin x"
proof -
  obtain r where r: "rl_rate l = Fin r" "0 \<le> r" using assms(1) by (auto simp: limiter_ok_def)
  obtain x where x: "bk_tokens b = Fin x" "0 \<le> x" using assms(2) by (auto simp: level_ok_def)
  obtain s where s: "dur_seconds (dur_sub now (bk_last b)) = Fin s" "0 \<le> s"
    using dur_seconds_finite [OF dur_sub_small] assms(3) by (metis dur_sub_nonneg_iff)
  have "refilled l now b = f_add (Fin x) (f_round (s * r))"
    by (simp add: refilled_def r x s)
  moreover have "f_round (s * r) = Inf False \<or> (\<exists>y \<ge> 0. f_round (s * r) = Fin y)"
    using s r by (intro f_round_pos) simp
  ultimately consider "refilled l now b = Inf False"
    | y where "refilled l now b = f_round (x + y)" "0 \<le> y"
    by auto
  then have "refilled l now b = Inf False \<or> (\<exists>y \<ge> 0. refilled l now b = Fin y \<and> f_round y = Fin y)"
  proof cases
    case 2
    with x(2) have "0 \<le> x + y" by simp
    from f_round_pos [OF this] 2(1) f_round_idem [of "x + y"] show ?thesis by auto
  qed simp
  moreover have "f_round (of_int N) = Fin (of_int N)"
    using limiter_okD(2,3) [OF assms(1)] by (intro f_round_of_int) simp
  ultimately show ?thesis
    using limiter_okD(1,2) [OF assms(1)] by (auto simp: f_min_def)
qed



lemma refilled_backward:
  assumes "limiter_ok N l" "level_ok N b" "now \<le> bk_last b" "bk_tokens b = Fin x"
  shows "f_le (refilled l now b) (f_round x)"
proof -
  obtain r where r: "rl_rate l = Fin r" "0 \<le> r" using assms(1) by (auto simp: limiter_ok_def)
  have "dur_sub now (bk_last b) \<le> 0" using assms(3) by (simp add: dur_sub_def)
  then obtain s where s: "dur_seconds (dur_sub now (bk_last b)) = Fin s" "s \<le> 0"
    using dur_seconds_finite [OF dur_sub_small] by metis
  have "s * r \<le> 0" using s r by (simp add: mult_nonpos_nonneg)
  with f_round_neg [of "s * r"] show ?thesis
    by (auto simp: refilled_def r s assms(4) intro!: f_round_mono)
qed

lemma take_token_level:
  assumes "level_ok N b" "N \<le> 2 ^ 53" "gm_ok (rl_buckets l)"
  obtains b' where "snd (take_token key b l) = l\<lparr>rl_buckets := gm_put key b' (rl_buckets l)\<rparr>"
    "level_ok N b'" "bk_last b' = bk_last b"
    "\<forall>n. 0 \<le> n \<and> n \<le> 2 ^ 53 \<and> fst (take_token key b l) \<and> f_le (bk_tokens b) (Fin (of_int n)) \<longrightarrow>
       1 \<le> n \<and> f_le (bk_tokens b') (Fin (of_int (n - 1)))"
    "fst (take_token key b l) \<or> b' = b"
proof -
  obtain x where x: "bk_tokens b = Fin x" "0 \<le> x" "x \<le> of_int N" using assms(1) by (auto simp: level_ok_def)
  show thesis
  proof (cases "1 \<le> x")
    case False
    then show thesis using x assms that [of b] by (simp add: take_token_def)
  next
    case True
    have "1 \<le> N" using True x(3) by (metis of_int_1_le_iff order_trans)
    have "of_int 0 \<le> x - 1" "x - 1 \<le> of_int N" using True x by simp_all
    then obtain y where y: "f_round (x - 1) = Fin y" "of_int 0 \<le> y" "y \<le> of_int N"
      by (rule f_round_between) (use \<open>1 \<le> N\<close> assms(2) in auto)
    let ?b = "b\<lparr>bk_tokens := Fin y\<rparr>"
    have tt: "take_token key b l = (True, l\<lparr>rl_buckets := gm_put key ?b (rl_buckets l)\<rparr>)"
      using True x y by (simp add: take_token_def f_sub_def)
    have lev: "level_ok N ?b" using y f_round_idem [OF y(1)] by (simp add: level_ok_def)
    have dec: "1 \<le> n \<and> y \<le> of_int (n - 1)" if "0 \<le> n" "n \<le> 2 ^ 53" "x \<le> of_int n" for n
    proof -
      have "1 \<le> n" using True that(3) by (metis of_int_1_le_iff order_trans)
      have "x - 1 \<le> of_int (n - 1)" using that(3) by simp
      moreover have "f_round (of_int (n - 1)) = Fin (of_int (n - 1))"
        by (rule f_round_of_int) (use \<open>1 \<le> n\<close> that(2) in auto)
      ultimately have "f_le (Fin y) (Fin (of_int (n - 1)))"
        using f_round_mono y(1) by metis
      with \<open>1 \<le> n\<close> show ?thesis by simp
    qed
    show thesis
    proof (rule that [of ?b])
      show "\<forall>n. 0 \<le> n \<and> n \<le> 2 ^ 53 \<and> fst (take_token key b l) \<and> f_le (bk_tokens b) (Fin (of_int n)) \<longrightarrow>
        1 \<le> n \<and> f_le (bk_tokens ?b) (Fin (of_int (n - 1)))"
      proof (intro allI impI)
        fix n assume n: "0 \<le> n \<and> n \<le> 2 ^ 53 \<and> fst (take_token key b l) \<and> f_le (bk_tokens b) (Fin (of_int n))"
        then have "x \<le> of_int n" by (simp add: x(1))
        with dec [of n] n have "1 \<le> n \<and> y \<le> of_int (n - 1)" by blast
        then show "1 \<le> n \<and> f_le (bk_tokens ?b) (Fin (of_int (n - 1)))" by simp
      qed
    qed (use tt lev in simp_all)
  qed
qed

text \<open>Which bucket \<open>spend\<close> takes the token from.\<close>

lemma spend_level:
  assumes "limiter_ok N l"
  shows "spend now key l = (False, l) \<or>
    (\<exists>b. level_ok N b \<and> bk_last b = now \<and> spend now key l = take_token key b l \<and>
       (\<forall>b0. gm_get (rl_buckets l) key = Some b0 \<longrightarrow>
          bk_tokens b = (if now < bk_last b0 then bk_tokens b0 else f_min (refilled l now b0) (rl_burst l))))"
proof (cases "gm_get (rl_buckets l) key")
  case None
  moreover have "level_ok N \<lparr>bk_tokens = rl_burst l, bk_last = now\<rparr>"
    using limiter_okD [OF assms] by (simp add: level_ok_def f_round_of_int)
  ultimately show ?thesis unfolding spend_def by (auto intro!: exI)
next
  case (Some b0)
  have b0: "level_ok N b0" using limiter_okD(5) [OF assms Some] .
  let ?b = "if now < bk_last b0 then b0\<lparr>bk_last := now\<rparr>
    else \<lparr>bk_tokens = f_min (refilled l now b0) (rl_burst l), bk_last = now\<rparr>"
  have "level_ok N ?b"
    using b0 refilled_forward [OF assms b0] by (auto simp: level_ok_def)
  with Some show ?thesis unfolding spend_def by (auto intro!: disjI2 exI [of _ ?b])
qed

lemma limiter_ok_put:
  "limiter_ok N l \<Longrightarrow> level_ok N b \<Longrightarrow> limiter_ok N (l\<lparr>rl_buckets := gm_put key b (rl_buckets l)\<rparr>)"
  by (auto simp: limiter_ok_def gm_simps)

lemma sweep_get:
  "gm_ok (rl_buckets l) \<Longrightarrow> gm_get (rl_buckets (sweepFull now l)) key = Some b \<Longrightarrow>
   gm_get (rl_buckets l) key = Some b"
  by (auto simp: sweepFull_def gm_simps split: if_splits option.splits)

lemma sweep_gm_ok: "gm_ok (rl_buckets l) \<Longrightarrow> gm_ok (rl_buckets (sweepFull now l))"
  by (simp add: sweepFull_def gm_simps)

lemma sweepFull_limiter_ok:
  assumes "limiter_ok N l"
  shows "limiter_ok N (sweepFull now l)"
  using assms sweep_get [of l now] sweep_gm_ok [of l now]
  by (simp add: limiter_ok_def) blast

lemma spend_limiter_ok:
  assumes "limiter_ok N l"
  shows "limiter_ok N (snd (spend now key l))"
proof -
  from spend_level [OF assms, of now key] show ?thesis
  proof (elim disjE exE conjE)
    fix b assume b: "level_ok N b" "spend now key l = take_token key b l"
    obtain b' where "snd (take_token key b l) = l\<lparr>rl_buckets := gm_put key b' (rl_buckets l)\<rparr>" "level_ok N b'"
      by (rule take_token_level [OF b(1) limiter_okD(3,4) [OF assms], of key])
    with b(2) limiter_ok_put [OF assms] show ?thesis by simp
  qed (use assms in simp)
qed

lemma allow_limiter_ok: "limiter_ok N l \<Longrightarrow> limiter_ok N (snd (allow now key l))"
  by (simp add: allow_def sweepFull_limiter_ok spend_limiter_ok)

lemma serve_all_limiter_ok: "limiter_ok N l \<Longrightarrow> limiter_ok N (snd (serve_all reqs l))"
  by (induction reqs arbitrary: l) (auto simp: serve_all_Cons allow_limiter_ok)

subsection \<open>What a peer is granted at an instant\<close>

text \<open>At one instant a peer has its level left, or the whole burst if it may still be refilled.\<close>

definition peer_left :: "int \<Rightarrow> instant \<Rightarrow> string \<Rightarrow> nat \<Rightarrow> rateLimiter \<Rightarrow> bool" where
  "peer_left N now key n l \<longleftrightarrow> limiter_ok N l \<and> int n \<le> N \<and>
     (int n < N \<longrightarrow> (\<exists>b. gm_get (rl_buckets l) key = Some b \<and> now \<le> bk_last b \<and>
        f_le (bk_tokens b) (Fin (of_nat n))))"

lemma level_round:
  assumes "f_le (Fin x) (Fin (of_nat n))" "int n \<le> 2 ^ 53"
  shows "f_le (f_round x) (Fin (of_nat n))"
proof -
  have "x \<le> of_int (int n)" using assms(1) by simp
  from f_round_mono [OF this] show ?thesis
    using f_round_of_int [of "int n"] assms(2) by simp
qed

text \<open>A bucket that is not full at this instant survives the sweep.\<close>

lemma peer_left_sweep:
  assumes "peer_left N now key n l"
  shows "peer_left N now key n (sweepFull now l)"
proof -
  have ok: "limiter_ok N l" and nN: "int n \<le> N" using assms by (auto simp: peer_left_def)
  show ?thesis
  proof (cases "int n < N")
    case False
    with ok nN show ?thesis by (simp add: peer_left_def sweepFull_limiter_ok)
  next
    case True
    with assms obtain b where b: "gm_get (rl_buckets l) key = Some b" "now \<le> bk_last b"
      "f_le (bk_tokens b) (Fin (of_nat n))" by (auto simp: peer_left_def)
    obtain x where x: "bk_tokens b = Fin x" using limiter_okD(5) [OF ok b(1)] by (auto simp: level_ok_def)
    have "f_le (refilled l now b) (Fin (of_nat n))"
      using refilled_backward [OF ok limiter_okD(5) [OF ok b(1)] b(2) x] level_round [of x n] b(3) x nN
        limiter_okD(3) [OF ok] by (auto intro: f_le_trans)
    moreover have "(of_nat n :: rat) < of_int N" using True by linarith
    ultimately have "f_less (refilled l now b) (rl_burst l)"
      using limiter_okD(1) [OF ok] by (cases "refilled l now b") auto
    then have "gm_get (rl_buckets (sweepFull now l)) key = Some b"
      using b(1) limiter_okD(4) [OF ok] by (simp add: sweepFull_def gm_simps)
    with b ok nN show ?thesis by (auto simp: peer_left_def sweepFull_limiter_ok)
  qed
qed

lemma peer_left_other:
  assumes "peer_left N now key n l" "k \<noteq> key"
  shows "peer_left N now key n (snd (spend now k l))"
proof -
  have ok: "limiter_ok N l" using assms(1) by (simp add: peer_left_def)
  have "gm_get (rl_buckets (snd (spend now k l))) key = gm_get (rl_buckets l) key"
    using assms(2) by (auto simp: spend_def take_token_def Let_def gm_simps split: option.splits)
  with assms(1) spend_limiter_ok [OF ok] show ?thesis by (auto simp: peer_left_def)
qed

text \<open>The bucket a peer spends from at this instant holds no more than what it has left.\<close>

lemma peer_left_level:
  assumes "peer_left N now key n l" "level_ok N b"
    "\<forall>b0. gm_get (rl_buckets l) key = Some b0 \<longrightarrow>
       bk_tokens b = (if now < bk_last b0 then bk_tokens b0 else f_min (refilled l now b0) (rl_burst l))"
  shows "f_le (bk_tokens b) (Fin (of_nat n))"
proof (cases "int n < N")
  case False
  with assms(1) have "N = int n" by (simp add: peer_left_def)
  with assms(2) show ?thesis by (auto simp: level_ok_def)
next
  case True
  have ok: "limiter_ok N l" using assms(1) by (simp add: peer_left_def)
  obtain b0 where b0: "gm_get (rl_buckets l) key = Some b0" "now \<le> bk_last b0"
    "f_le (bk_tokens b0) (Fin (of_nat n))" using assms(1) True by (auto simp: peer_left_def)
  obtain x where x: "bk_tokens b0 = Fin x" using limiter_okD(5) [OF ok b0(1)] by (auto simp: level_ok_def)
  have "f_le (refilled l now b0) (Fin (of_nat n))"
    using refilled_backward [OF ok limiter_okD(5) [OF ok b0(1)] b0(2) x] level_round [of x n] b0(3) x True
      limiter_okD(3) [OF ok] by (auto intro: f_le_trans)
  moreover have "(of_nat n :: rat) < of_int N" using True by linarith
  ultimately have "f_le (f_min (refilled l now b0) (rl_burst l)) (Fin (of_nat n))"
    using limiter_okD(1) [OF ok] by (cases "refilled l now b0") (auto simp: f_min_def)
  with assms(3) b0(1,3) show ?thesis by simp
qed

lemma peer_left_mine:
  assumes "peer_left N now key n l"
  shows "if fst (spend now key l) then 0 < n \<and> peer_left N now key (n - 1) (snd (spend now key l))
    else peer_left N now key n (snd (spend now key l))"
proof -
  have ok: "limiter_ok N l" and nN: "int n \<le> N" using assms by (auto simp: peer_left_def)
  note ok' = spend_limiter_ok [OF ok, of now key]
  from spend_level [OF ok, of now key] consider "spend now key l = (False, l)"
    | b where "level_ok N b" "bk_last b = now" "spend now key l = take_token key b l"
      "\<forall>b0. gm_get (rl_buckets l) key = Some b0 \<longrightarrow>
          bk_tokens b = (if now < bk_last b0 then bk_tokens b0 else f_min (refilled l now b0) (rl_burst l))"
    by blast
  then show ?thesis
  proof cases
    case 1
    with assms show ?thesis by simp
  next
    case (2 b)
    obtain b' where b': "snd (take_token key b l) = l\<lparr>rl_buckets := gm_put key b' (rl_buckets l)\<rparr>"
      "level_ok N b'" "bk_last b' = bk_last b"
      "\<forall>m. 0 \<le> m \<and> m \<le> 2 ^ 53 \<and> fst (take_token key b l) \<and> f_le (bk_tokens b) (Fin (of_int m)) \<longrightarrow>
         1 \<le> m \<and> f_le (bk_tokens b') (Fin (of_int (m - 1)))"
      "fst (take_token key b l) \<or> b' = b"
      by (rule take_token_level [OF 2(1) limiter_okD(3,4) [OF ok], of key])
    have after: "gm_get (rl_buckets (snd (spend now key l))) key = Some b'"
      using 2(3) b'(1) by (simp add: gm_simps)
    have level: "f_le (bk_tokens b) (Fin (of_nat n))"
      using peer_left_level [OF assms 2(1,4)] .
    show ?thesis
    proof (cases "fst (take_token key b l)")
      case False
      with level b'(5) 2(2,3) after ok' nN show ?thesis by (auto simp: peer_left_def)
    next
      case True
      with b'(4) [rule_format, of "int n"] level nN limiter_okD(3) [OF ok]
      have n: "1 \<le> int n" "f_le (bk_tokens b') (Fin (of_int (int n - 1)))" by simp_all
      have "(of_int (int n - 1) :: rat) = of_nat (n - 1)" using n(1) by (simp add: of_nat_diff)
      with n(2) have lev: "f_le (bk_tokens b') (Fin (of_nat (n - 1)))" by (simp only:)
      have "now \<le> bk_last b'" using 2(2) b'(3) by simp
      with ok' after lev nN have "peer_left N now key (n - 1) (snd (spend now key l))"
        unfolding peer_left_def by auto
      moreover have "fst (spend now key l)" "0 < n" using True 2(3) n(1) by simp_all
      ultimately show ?thesis by (simp only: if_True simp_thms)
    qed
  qed
qed

lemma peer_left_allow:
  assumes "peer_left N now key n l"
  shows "fst (allow now key l) \<Longrightarrow> 0 < n \<and> peer_left N now key (n - 1) (snd (allow now key l))"
    and "\<not> (k = key \<and> fst (allow now k l)) \<Longrightarrow> peer_left N now key n (snd (allow now k l))"
proof -
  note mine = peer_left_mine [OF peer_left_sweep [OF assms], folded allow_def]
  show "fst (allow now key l) \<Longrightarrow> 0 < n \<and> peer_left N now key (n - 1) (snd (allow now key l))"
    using mine by presburger
  show "peer_left N now key n (snd (allow now k l))" if "\<not> (k = key \<and> fst (allow now k l))"
  proof (cases "k = key")
    case False
    then show ?thesis using peer_left_other [OF peer_left_sweep [OF assms]] by (simp add: allow_def)
  qed (use mine that in presburger)
qed

interpretation at_instant: throttle "allow now" "\<lambda>k. k = key" "peer_left N now key" for N now key
  by unfold_locales (use peer_left_allow in blast)+

text \<open>
  Whatever has happened before, and whichever peers ask in whatever order, at one instant a peer
  is granted at most the configured burst. This is for a finite rate; a burst of more than
  \<open>2 ^ 53\<close> is one a float64 cannot count down by one.
\<close>

theorem burst_at_an_instant:
  assumes "plain_config cfg"
  shows "int (granted (allow now) (\<lambda>k. k = key) keys (snd (serve_all reqs (newRateLimiter cfg))))
    \<le> effective_burst cfg"
proof -
  let ?l = "snd (serve_all reqs (newRateLimiter cfg))" and ?N = "effective_burst cfg"
  have "limiter_ok ?N ?l" using new_limiter_ok [OF assms] by (rule serve_all_limiter_ok)
  then have "peer_left ?N now key (nat ?N) ?l"
    using limiter_okD(2) by (fastforce simp: peer_left_def)
  from at_instant.granted_le [OF this, of keys] show ?thesis
    using limiter_okD(2) [OF \<open>limiter_ok ?N ?l\<close>] by linarith
qed

theorem burst_at_an_instant_witness:
  "int (granted (allow 7) (\<lambda>k. k = ''a'') [''a'', ''b'', ''a'', ''a'']
     (snd (serve_all [(5, ''a'')] (newRateLimiter \<lparr>PerSecond = Fin 10, Burst = 2\<rparr>)))) \<le> 2"
  using burst_at_an_instant [of "\<lparr>PerSecond = Fin 10, Burst = 2\<rparr>" 7 "''a''" "[''a'', ''b'', ''a'', ''a'']" "[(5, ''a'')]"]
  by (simp add: plain_config_def effective_burst_def)

subsection \<open>Forgetting a full bucket\<close>

lemma sweep_len_less:
  assumes "gm_ok (rl_buckets l)" "gm_get (rl_buckets l) key \<noteq> None"
    "gm_get (rl_buckets (sweepFull now l)) key = None"
  shows "gm_len (rl_buckets (sweepFull now l)) < gm_len (rl_buckets l)"
proof -
  have "dom (gm_get (rl_buckets (sweepFull now l))) \<subset> dom (gm_get (rl_buckets l))"
    using sweep_get [OF assms(1), of now] assms(2,3) by blast
  then show ?thesis
    using assms(1) by (simp add: gmap.len_dom sweep_gm_ok psubset_card_mono gmap.finite_dom)
qed

text \<open>A bucket the sweep forgets would have been found full.\<close>

lemma swept_is_full:
  assumes ok: "limiter_ok N l" and b: "gm_get (rl_buckets l) key = Some b"
    and full: "\<not> f_less (refilled l now b) (rl_burst l)"
  shows "(if now < bk_last b then bk_tokens b else f_min (refilled l now b) (rl_burst l)) = rl_burst l"
proof (cases "now < bk_last b")
  case False
  obtain x where "f_min (refilled l now b) (rl_burst l) = Fin x"
    using refilled_forward [OF ok limiter_okD(5) [OF ok b], of now] False by auto
  with False full limiter_okD(1) [OF ok] show ?thesis
    by (cases "refilled l now b") (auto simp: f_min_def split: if_splits)
next
  case True
  obtain x where x: "bk_tokens b = Fin x" "x \<le> of_int N" "f_round x = Fin x"
    using limiter_okD(5) [OF ok b] by (auto simp: level_ok_def)
  have "f_le (refilled l now b) (Fin x)"
    using refilled_backward [OF ok limiter_okD(5) [OF ok b] _ x(1)] True x(3) by simp
  with full x limiter_okD(1) [OF ok] True show ?thesis
    by (cases "refilled l now b") (auto split: if_splits)
qed

lemma sweep_get_None:
  "gm_ok (rl_buckets l) \<Longrightarrow> gm_get (rl_buckets l) key = Some b \<Longrightarrow>
   gm_get (rl_buckets (sweepFull now l)) key = None \<Longrightarrow> \<not> f_less (refilled l now b) (rl_burst l)"
  by (auto simp: sweepFull_def gm_simps split: if_splits)



lemma take_token_get:
  "fst (take_token key b l) = f_le (Fin 1) (bk_tokens b)"
  "gm_get (rl_buckets (snd (take_token key b l))) key =
     Some (if f_le (Fin 1) (bk_tokens b) then b\<lparr>bk_tokens := f_sub (bk_tokens b) (Fin 1)\<rparr> else b)"
  by (simp_all add: take_token_def Let_def gm_simps)

lemma spend_seen:
  "gm_get (rl_buckets l) key = Some b \<Longrightarrow> spend now key l = take_token key
     \<lparr>bk_tokens = (if now < bk_last b then bk_tokens b else f_min (refilled l now b) (rl_burst l)), bk_last = now\<rparr> l"
  by (cases b) (simp add: spend_def)

lemma spend_unseen:
  "gm_get (rl_buckets l) key = None \<Longrightarrow> gm_len (rl_buckets l) < rl_max l \<Longrightarrow>
   spend now key l = take_token key \<lparr>bk_tokens = rl_burst l, bk_last = now\<rparr> l"
  by (simp add: spend_def)

lemma sweep_same:
  assumes ok: "limiter_ok N l" and len: "gm_len (rl_buckets l) \<le> rl_max l"
    and room: "gm_get (rl_buckets l) key \<noteq> None \<or> gm_len (rl_buckets l) < rl_max l"
  shows "fst (allow now key l) = fst (spend now key l) \<and>
    gm_get (rl_buckets (snd (allow now key l))) key = gm_get (rl_buckets (snd (spend now key l))) key"
proof (cases "gm_get (rl_buckets (sweepFull now l)) key")
  case (Some b)
  with sweep_get [OF limiter_okD(4) [OF ok] Some] show ?thesis
    by (simp add: allow_def spend_seen take_token_get)
next
  case None
  show ?thesis
  proof (cases "gm_get (rl_buckets l) key")
    case absent: None
    with room have "gm_len (rl_buckets l) < rl_max l" by simp
    moreover have "gm_len (rl_buckets (sweepFull now l)) \<le> gm_len (rl_buckets l)"
      using gmap.len_keep_le [OF limiter_okD(4) [OF ok]] by (simp add: sweepFull_def)
    ultimately show ?thesis
      using None absent by (simp add: allow_def spend_unseen take_token_get)
  next
    case (Some b)
    have "gm_len (rl_buckets (sweepFull now l)) < rl_max (sweepFull now l)"
      using sweep_len_less [OF limiter_okD(4) [OF ok] _ None] Some len by simp
    then have "spend now key (sweepFull now l) =
        take_token key \<lparr>bk_tokens = rl_burst l, bk_last = now\<rparr> (sweepFull now l)"
      using spend_unseen [OF None] by simp
    moreover have "spend now key l = take_token key \<lparr>bk_tokens = rl_burst l, bk_last = now\<rparr> l"
      using spend_seen [OF Some] swept_is_full [OF ok Some sweep_get_None [OF limiter_okD(4) [OF ok] Some None]]
      by simp
    ultimately show ?thesis by (simp add: allow_def take_token_get)
  qed
qed

text \<open>
  C26. The sweep grants nothing and refuses nothing: for a peer the table tracks, and for any peer while
  the table has room, the answer and the bucket it leaves behind are those of the limiter that had
  not swept. This is for a finite rate, after any requests.
\<close>

theorem sweep_changes_no_decision:
  assumes "plain_config cfg" "l = snd (serve_all reqs (newRateLimiter cfg))"
    and "gm_get (rl_buckets l) key \<noteq> None \<or> gm_len (rl_buckets l) < rl_max l"
  shows "fst (allow now key l) = fst (spend now key l) \<and>
    gm_get (rl_buckets (snd (allow now key l))) key = gm_get (rl_buckets (snd (spend now key l))) key"
proof (rule sweep_same)
  show "limiter_ok (effective_burst cfg) l"
    using new_limiter_ok [OF assms(1)] serve_all_limiter_ok assms(2) by blast
  have "table_ok (newRateLimiter cfg)"
    by (simp add: newRateLimiter_def table_ok_def Let_def gm_len_def)
  from serve_all_ok [OF this, of reqs] show "gm_len (rl_buckets l) \<le> rl_max l"
    by (simp add: table_ok_def assms(2))
qed (rule assms(3))

theorem sweep_changes_no_decision_witness:
  "fst (allow 7 ''a'' (newRateLimiter \<lparr>PerSecond = Fin 10, Burst = 2\<rparr>)) =
   fst (spend 7 ''a'' (newRateLimiter \<lparr>PerSecond = Fin 10, Burst = 2\<rparr>))"
  using sweep_changes_no_decision [of "\<lparr>PerSecond = Fin 10, Burst = 2\<rparr>" _ "[]" "''a''" 7, OF _ refl]
  by (simp add: plain_config_def newRateLimiter_def Let_def gm_len_def defaultMaxBuckets_def)

subsection \<open>An infinite rate\<close>

text \<open>
  A rate of \<open>+Inf\<close> passes \<open>newRateLimiter\<close>'s test, since it is not \<open><= 0\<close>: what a bucket is refilled
  by is then infinite as soon as a nanosecond has passed.
\<close>

definition unthrottled :: "string \<Rightarrow> instant \<Rightarrow> rateLimiter \<Rightarrow> bool" where
  "unthrottled key t l \<longleftrightarrow> rl_rate l = Inf False \<and> f_le (Fin 1) (rl_burst l) \<and> 1 < rl_max l \<and>
     (rl_buckets l = [] \<or>
      (\<exists>b. rl_buckets l = [(key, b)] \<and> bk_last b < t \<and> f_le (Fin 0) (bk_tokens b)))"

lemma f_sub_1_nonneg: "f_le (Fin 1) x \<Longrightarrow> f_le (Fin 0) (f_sub x (Fin 1))"
  using f_round_pos [of "case x of Fin y \<Rightarrow> y - 1 | _ \<Rightarrow> 0"] by (cases x) (auto simp: f_sub_def)

lemma refilled_infinite:
  assumes "rl_rate l = Inf False" "bk_last b < now" "f_le (Fin 0) (bk_tokens b)"
  shows "refilled l now b = Inf False"
proof -
  have "0 < dur_sub now (bk_last b)" using assms(2) by (simp add: dur_sub_def min_def)
  then obtain s where "dur_seconds (dur_sub now (bk_last b)) = Fin s" "0 < s"
    using dur_seconds_pos dur_sub_small by metis
  with assms(1,3) show ?thesis by (cases "bk_tokens b") (auto simp: refilled_def)
qed

lemma unthrottled_allow:
  assumes "unthrottled key t l" "t \<le> now" "now < u"
  shows "fst (allow now key l) \<and> unthrottled key u (snd (allow now key l))"
proof -
  have "unthrottled key t (sweepFull now l)"
    using assms(1) by (auto simp: unthrottled_def sweepFull_def gm_keep_def)
  then have un: "rl_rate (sweepFull now l) = Inf False" "f_le (Fin 1) (rl_burst (sweepFull now l))"
    "1 < rl_max (sweepFull now l)"
    and bs: "rl_buckets (sweepFull now l) = [] \<or> (\<exists>b. rl_buckets (sweepFull now l) = [(key, b)] \<and>
      bk_last b < t \<and> f_le (Fin 0) (bk_tokens b))"
    by (simp_all only: unthrottled_def)
  let ?full = "\<lparr>bk_tokens = rl_burst (sweepFull now l), bk_last = now\<rparr>"
  have "allow now key l = take_token key ?full (sweepFull now l)"
    using bs
  proof (elim disjE exE conjE)
    assume "rl_buckets (sweepFull now l) = []"
    then show ?thesis using un by (simp add: allow_def spend_unseen gm_len_def)
  next
    fix b assume b: "rl_buckets (sweepFull now l) = [(key, b)]" "bk_last b < t" "f_le (Fin 0) (bk_tokens b)"
    have "refilled (sweepFull now l) now b = Inf False"
      using refilled_infinite [OF un(1) _ b(3)] b(2) assms(2) by simp
    moreover have "f_min (Inf False) (rl_burst (sweepFull now l)) = rl_burst (sweepFull now l)"
      using un(2) by (cases "rl_burst (sweepFull now l)") (auto simp: f_min_def)
    ultimately show ?thesis
      using spend_seen [of "sweepFull now l" key b now] b(1,2) assms(2) by (simp add: allow_def)
  qed
  with un f_sub_1_nonneg [OF un(2)] bs assms(3) show ?thesis
    by (auto simp: take_token_def Let_def unthrottled_def gm_put_def)
qed

text \<open>
  A limiter configured with an infinite rate throttles nothing: a peer whose requests arrive at
  increasing instants, a nanosecond apart or more, is granted every one of them.
\<close>

theorem infinite_rate_never_throttles:
  assumes "PerSecond cfg = Inf False" "sorted_wrt (<) ts"
  shows "fst (serve_all (map (\<lambda>t. (t, key)) ts) (newRateLimiter cfg)) = replicate (length ts) True"
proof -
  have "fst (serve_all (map (\<lambda>t. (t, key)) ts) l) = replicate (length ts) True"
    if "unthrottled key t l" "\<forall>u \<in> set ts. t \<le> u" for t l
    using that assms(2)
  proof (induction ts arbitrary: t l)
    case (Cons u ts)
    have "fst (allow u key l) \<and> unthrottled key (u + 1) (snd (allow u key l))"
      using unthrottled_allow [OF Cons.prems(1), of u "u + 1"] Cons.prems(2) by simp
    moreover from this Cons have "fst (serve_all (map (\<lambda>t. (t, key)) ts) (snd (allow u key l))) =
        replicate (length ts) True"
      by (intro Cons.IH [of "u + 1"]) auto
    ultimately show ?case by (simp add: serve_all_Cons)
  qed simp
  moreover have "f_le (Fin 1) (f_of_int n)" if "1 \<le> n" for n
    using f_round_mono [of 1 "of_int n"] that f_round_of_int [of 1] by (simp add: f_of_int_def)
  then have "unthrottled key (Min (set (0 # ts))) (newRateLimiter cfg)"
    using assms(1) by (auto simp: unthrottled_def newRateLimiter_def Let_def defaultMaxBuckets_def DefaultRateBurst_def)
  ultimately show ?thesis by (meson Min_le finite_set list.set_intros(2))
qed

theorem infinite_rate_never_throttles_witness:
  "fst (serve_all (map (\<lambda>t. (t, ''peer'')) [1, 2, 3]) (newRateLimiter \<lparr>PerSecond = Inf False, Burst = 1\<rparr>)) =
     [True, True, True]"
  using infinite_rate_never_throttles [of "\<lparr>PerSecond = Inf False, Burst = 1\<rparr>" "[1, 2, 3]" "''peer''"]
  by simp

end
