(* ===== verification/Facilitator_Server.thy ===== *)
theory Facilitator_Server
  imports Go_Json Verify_Static Rate_Limiter
begin

text \<open>
  \<open>facilitator/facilitator.go\<close>: the HTTP transport. It throttles, reads the request, has the engine
  decide it, and answers in the specification's vocabulary.

  The engine is upstream's and is the record \<open>engine\<close>, its three methods; the payload and the
  requirements reach it as received (\<open>None\<close> is an absent one). The codes of the engine's own routing
  failures are constants of upstream: the record \<open>engine_codes\<close>. Log records and the bytes of the
  encoded answers are left out; an answer is its status and what is encoded.
\<close>

record supported_kind =
  kind_scheme :: string
  kind_network :: string

record 'w engine =
  eng_verify :: "json option \<Rightarrow> json option \<Rightarrow> 'w \<Rightarrow> (go_error + verify_response) \<times> 'w"
  eng_settle :: "json option \<Rightarrow> json option \<Rightarrow> 'w \<Rightarrow> (go_error + settle_response) \<times> 'w"
  eng_supported :: "supported_kind list"

record engine_codes =
  ProtocolVersion :: int
  ErrInvalidVersion :: string
  ErrInvalidV2Payload :: string
  ErrInvalidV2Requirements :: string
  ErrNoFacilitatorForNetwork :: string

record 'w Server =
  srv_engine :: "'w engine"
  srv_codes :: engine_codes
  srv_network :: string
  srv_limiter :: rateLimiter

datatype answer_body =
    PlainText string
  | VerifyBody verify_response
  | SettleBody settle_response
  | SupportedBody "supported_kind list"

record http_answer =
  ans_status :: int
  ans_body :: answer_body

definition StatusOK :: int where "StatusOK = 200"
definition StatusBadRequest :: int where "StatusBadRequest = 400"
definition StatusTooManyRequests :: int where "StatusTooManyRequests = 429"
definition StatusServiceUnavailable :: int where "StatusServiceUnavailable = 503"

lemmas status_defs = StatusOK_def StatusBadRequest_def StatusTooManyRequests_def StatusServiceUnavailable_def

definition http_Error :: "string \<Rightarrow> int \<Rightarrow> http_answer" where
  "http_Error msg status = \<lparr>ans_status = status, ans_body = PlainText msg\<rparr>"

definition writeJSON :: "answer_body \<Rightarrow> http_answer" where
  "writeJSON v = \<lparr>ans_status = StatusOK, ans_body = v\<rparr>"

subsection \<open>The request\<close>

record request =
  rq_version :: int
  rq_payload :: "json option"
  rq_requirements :: "json option"
  rq_payload_version :: int
  rq_requirements_scheme :: string

definition zero_request :: request where
  "zero_request = \<lparr>rq_version = 0, rq_payload = None, rq_requirements = None,
     rq_payload_version = 0, rq_requirements_scheme = ''''\<rparr>"

definition request_fields :: "request fields" where
  "request_fields =
     [(''x402Version'', \<lambda>v r. map_option (\<lambda>n. r\<lparr>rq_version := n\<rparr>) (into_int v (rq_version r))),
      (''paymentPayload'', \<lambda>v r. map_option (\<lambda>p. r\<lparr>rq_payload := p\<rparr>) (into_raw v (rq_payload r))),
      (''paymentRequirements'', \<lambda>v r. map_option (\<lambda>p. r\<lparr>rq_requirements := p\<rparr>) (into_raw v (rq_requirements r)))]"

definition payload_fields :: "int fields" where
  "payload_fields = [(''x402Version'', into_int)]"

definition requirements_fields :: "string fields" where
  "requirements_fields = [(''scheme'', into_string)]"

definition decodePresent :: "'a fields \<Rightarrow> json option \<Rightarrow> 'a \<Rightarrow> 'a option" where
  "decodePresent fs raw x = (case raw of None \<Rightarrow> Some x | Some v \<Rightarrow> into_struct fs v x)"

definition rejectRequestBody :: http_answer where
  "rejectRequestBody = http_Error ''invalid request body'' StatusBadRequest"

definition decodeRequest :: "json_body \<Rightarrow> http_answer + request" where
  "decodeRequest body =
     (case fst body of
        [] \<Rightarrow> Inl rejectRequestBody
      | v # rest \<Rightarrow>
      (case into_struct request_fields v zero_request of
        None \<Rightarrow> Inl rejectRequestBody
      | Some req \<Rightarrow>
      if \<not> (rest = [] \<and> snd body = EndOfInput) then Inl rejectRequestBody
      else
      (case decodePresent payload_fields (rq_payload req) 0 of
        None \<Rightarrow> Inl rejectRequestBody
      | Some version \<Rightarrow>
      (case decodePresent requirements_fields (rq_requirements req) '''' of
        None \<Rightarrow> Inl rejectRequestBody
      | Some scheme \<Rightarrow>
          Inr (req\<lparr>rq_payload_version := version, rq_requirements_scheme := scheme\<rparr>)))))"

subsection \<open>Answers\<close>

definition rejectRateLimited :: http_answer where
  "rejectRateLimited = http_Error ''too many requests'' StatusTooManyRequests"

definition rejectNoVerdict :: http_answer where
  "rejectNoVerdict = http_Error ''the payment could not be checked against the chain'' StatusServiceUnavailable"

definition refuseVerify :: "string \<Rightarrow> string \<Rightarrow> http_answer" where
  "refuseVerify payer reason = writeJSON (VerifyBody \<lparr>vr_valid = False, vr_reason = reason, vr_payer = payer\<rparr>)"

definition refuseSettle :: "'w Server \<Rightarrow> string \<Rightarrow> string \<Rightarrow> http_answer" where
  "refuseSettle s payer reason = writeJSON (SettleBody
     \<lparr>sr_success = False, sr_transaction = '''', sr_network = srv_network s, sr_payer = payer, sr_reason = reason\<rparr>)"

definition servesScheme :: "'w Server \<Rightarrow> string \<Rightarrow> bool" where
  "servesScheme s scheme = list_ex (\<lambda>k. kind_scheme k = scheme) (eng_supported (srv_engine s))"

definition specReason :: "'w Server \<Rightarrow> string \<Rightarrow> string \<Rightarrow> string" where
  "specReason s code scheme =
     (if code = ErrInvalidVersion (srv_codes s) then ReasonInvalidVersion
      else if code = ErrInvalidV2Payload (srv_codes s) then ReasonInvalidPayload
      else if code = ErrInvalidV2Requirements (srv_codes s) then ReasonInvalidRequirements
      else if code = ErrNoFacilitatorForNetwork (srv_codes s) then
        (if \<not> servesScheme s scheme then ReasonUnsupportedScheme else ReasonInvalidNetwork)
      else code)"

definition answerVerifyError :: "'w Server \<Rightarrow> request \<Rightarrow> go_error \<Rightarrow> http_answer" where
  "answerVerifyError s req err =
     (case as_type is_no_verdict err of
        Some undecided \<Rightarrow> rejectNoVerdict
      | None \<Rightarrow>
          (case as_type is_verify_error err of
             None \<Rightarrow> rejectNoVerdict
           | Some (reason, payer, msg) \<Rightarrow>
               refuseVerify payer (specReason s reason (rq_requirements_scheme req))))"

definition answerSettleError :: "'w Server \<Rightarrow> request \<Rightarrow> go_error \<Rightarrow> http_answer" where
  "answerSettleError s req err =
     (case as_type is_no_verdict err of
        Some undecided \<Rightarrow> rejectNoVerdict
      | None \<Rightarrow>
          (case as_type is_settle_error err of
             None \<Rightarrow> rejectNoVerdict
           | Some (code, payer, transaction, msg) \<Rightarrow>
               (let reason = specReason s code (rq_requirements_scheme req) in
                if reason = ReasonBroadcastFailed \<or> reason = ErrSettlementPending \<or>
                   reason = ReasonDuplicateSettlement
                then writeJSON (SettleBody \<lparr>sr_success = False, sr_transaction = transaction,
                       sr_network = srv_network s, sr_payer = payer, sr_reason = reason\<rparr>)
                else refuseSettle s payer reason)))"

subsection \<open>Handlers\<close>

definition handleVerify :: "'w Server \<Rightarrow> json_body \<Rightarrow> 'w \<Rightarrow> http_answer \<times> 'w" where
  "handleVerify s body w =
     (case decodeRequest body of
        Inl answer \<Rightarrow> (answer, w)
      | Inr req \<Rightarrow>
      if rq_payload_version req \<noteq> ProtocolVersion (srv_codes s)
      then (refuseVerify '''' ReasonInvalidVersion, w)
      else
      (case eng_verify (srv_engine s) (rq_payload req) (rq_requirements req) w of
        (Inl err, w') \<Rightarrow> (answerVerifyError s req err, w')
      | (Inr res, w') \<Rightarrow> (writeJSON (VerifyBody res), w')))"

definition handleSettle :: "'w Server \<Rightarrow> json_body \<Rightarrow> 'w \<Rightarrow> http_answer \<times> 'w" where
  "handleSettle s body w =
     (case decodeRequest body of
        Inl answer \<Rightarrow> (answer, w)
      | Inr req \<Rightarrow>
      if rq_payload_version req \<noteq> ProtocolVersion (srv_codes s)
      then (refuseSettle s '''' ReasonInvalidVersion, w)
      else
      (case eng_settle (srv_engine s) (rq_payload req) (rq_requirements req) w of
        (Inl err, w') \<Rightarrow> (answerSettleError s req err, w')
      | (Inr res, w') \<Rightarrow> (writeJSON (SettleBody res), w')))"

definition handleSupported :: "'w Server \<Rightarrow> http_answer" where
  "handleSupported s = writeJSON (SupportedBody (eng_supported (srv_engine s)))"

text \<open>
  \<open>throttled\<close> in front of a handler: \<open>now\<close> is the limiter's clock and \<open>peer\<close> the request's
  \<open>peerAddress\<close>. The server is returned with its limiter's new state.
\<close>

definition throttled ::
    "('w Server \<Rightarrow> json_body \<Rightarrow> 'w \<Rightarrow> http_answer \<times> 'w) \<Rightarrow> instant \<Rightarrow> string \<Rightarrow> 'w Server \<Rightarrow> json_body \<Rightarrow> 'w
      \<Rightarrow> http_answer \<times> 'w Server \<times> 'w" where
  "throttled handler now peer s body w =
     (let (ok, limiter) = allow now peer (srv_limiter s); s' = s\<lparr>srv_limiter := limiter\<rparr> in
      if \<not> ok then (rejectRateLimited, s', w)
      else (let (answer, w') = handler s' body w in (answer, s', w')))"

definition WithRateLimit :: "RateLimit \<Rightarrow> 'w Server \<Rightarrow> 'w Server" where
  "WithRateLimit rl s = s\<lparr>srv_limiter := newRateLimiter rl\<rparr>"

text \<open>\<open>New\<close>, given the engine with the mechanism registered for the network.\<close>

definition NewServer ::
    "(string \<Rightarrow> 'w engine) \<Rightarrow> engine_codes \<Rightarrow> string \<Rightarrow> ('w Server \<Rightarrow> 'w Server) list \<Rightarrow> 'w Server" where
  "NewServer register codes chainID opts =
     (let net = ''gno:'' @ chainID in
      fold (\<lambda>opt s. opt s) opts
        \<lparr>srv_engine = register net, srv_codes = codes, srv_network = net,
         srv_limiter = newRateLimiter \<lparr>PerSecond = Fin 0, Burst = 0\<rparr>\<rparr>)"

text \<open>
  \<open>Handler\<close>: the three routes. A pattern of method GET matches HEAD too, whose answer the server sends
  without its body. Any other request is answered by the mux itself: \<open>None\<close>.
\<close>

definition Handler ::
    "instant \<Rightarrow> string \<Rightarrow> string \<Rightarrow> string \<Rightarrow> 'w Server \<Rightarrow> json_body \<Rightarrow> 'w \<Rightarrow> (http_answer \<times> 'w Server \<times> 'w) option" where
  "Handler now peer meth path s body w =
     (if meth = ''POST'' \<and> path = ''/verify'' then Some (throttled handleVerify now peer s body w)
      else if meth = ''POST'' \<and> path = ''/settle'' then Some (throttled handleSettle now peer s body w)
      else if meth \<in> {''GET'', ''HEAD''} \<and> path = ''/supported'' then Some (handleSupported s, s, w)
      else None)"

subsection \<open>What an answer says\<close>

lemmas answer_defs = http_Error_def writeJSON_def rejectRateLimited_def rejectNoVerdict_def
  rejectRequestBody_def refuseVerify_def refuseSettle_def status_defs

text \<open>What establishes nothing about a payment: an error that is undecided, or of no known kind.\<close>

definition no_verdict_of :: "(go_error \<Rightarrow> 'a option) \<Rightarrow> go_error \<Rightarrow> bool" where
  "no_verdict_of kind err \<longleftrightarrow> as_type is_no_verdict err \<noteq> None \<or> as_type kind err = None"

lemma decodeRequest_answer: "decodeRequest body = Inl a \<Longrightarrow> a = rejectRequestBody"
  by (auto simp: decodeRequest_def split: list.splits option.splits if_splits)

lemma answerVerifyError_status:
  "ans_status (answerVerifyError s req err) = (if no_verdict_of is_verify_error err then 503 else 200)"
  by (auto simp: answerVerifyError_def no_verdict_of_def answer_defs split: option.splits)

lemma answerSettleError_status:
  "ans_status (answerSettleError s req err) = (if no_verdict_of is_settle_error err then 503 else 200)"
  by (auto simp: answerSettleError_def no_verdict_of_def answer_defs Let_def split: option.splits)

text \<open>
  C16. The facilitator answers 503, with no verdict, exactly when the engine was asked and established
  nothing: its error is a \<open>NoVerdictError\<close>, or is no refusal. In particular an undecided payment is
  never answered 200, with \<open>isValid: false\<close> or \<open>success: false\<close>.
\<close>

theorem unavailable_iff_no_verdict:
  "(ans_status (fst (handleVerify s body w)) = 503 \<longleftrightarrow>
     (\<exists>req err. decodeRequest body = Inr req \<and> rq_payload_version req = ProtocolVersion (srv_codes s) \<and>
        fst (eng_verify (srv_engine s) (rq_payload req) (rq_requirements req) w) = Inl err \<and>
        no_verdict_of is_verify_error err)) \<and>
   (ans_status (fst (handleSettle s body w)) = 503 \<longleftrightarrow>
     (\<exists>req err. decodeRequest body = Inr req \<and> rq_payload_version req = ProtocolVersion (srv_codes s) \<and>
        fst (eng_settle (srv_engine s) (rq_payload req) (rq_requirements req) w) = Inl err \<and>
        no_verdict_of is_settle_error err))"
proof (cases "decodeRequest body")
  case (Inl a)
  then show ?thesis using decodeRequest_answer [OF Inl] by (simp add: handleVerify_def handleSettle_def answer_defs)
next
  case (Inr req)
  then show ?thesis
    by (cases "rq_payload_version req = ProtocolVersion (srv_codes s)")
      (auto simp: handleVerify_def handleSettle_def answerVerifyError_status answerSettleError_status answer_defs
        split: prod.splits sum.splits)
qed

text \<open>
  A settlement answer that is not the engine's own success names this facilitator's network, says
  it did not succeed, and carries a transaction only under the three reasons a transaction is looked
  up for: the broadcast failed, the settlement is pending, or it is a duplicate.
\<close>

theorem refused_settle_transaction:
  assumes "handleSettle s body w = (\<lparr>ans_status = st, ans_body = SettleBody r\<rparr>, w')"
  shows "(\<exists>req. decodeRequest body = Inr req \<and>
      fst (eng_settle (srv_engine s) (rq_payload req) (rq_requirements req) w) = Inr r) \<or>
    \<not> sr_success r \<and> sr_network r = srv_network s \<and>
    (sr_transaction r = '''' \<or> sr_reason r \<in> {ReasonBroadcastFailed, ErrSettlementPending, ReasonDuplicateSettlement})"
proof (cases "decodeRequest body")
  case (Inl a)
  with assms decodeRequest_answer [OF Inl] show ?thesis by (simp add: handleSettle_def answer_defs)
next
  case (Inr req)
  have "\<not> sr_success r \<and> sr_network r = srv_network s \<and>
      (sr_transaction r = '''' \<or> sr_reason r \<in> {ReasonBroadcastFailed, ErrSettlementPending, ReasonDuplicateSettlement})"
    if "answerSettleError s req err = \<lparr>ans_status = st, ans_body = SettleBody r\<rparr>" for err
    using that by (auto simp: answerSettleError_def answer_defs Let_def split: option.splits if_splits)
  with Inr assms show ?thesis
    by (auto simp: handleSettle_def answer_defs split: prod.splits sum.splits if_splits)
qed

text \<open>
  C37. A request the engine must not see does not reach it, nor the chain behind it: one the throttle
  refuses is answered 429 unread, one that is not exactly one JSON request is answered 400, and one
  declaring another protocol version is refused as \<open>invalid_x402_version\<close>, on both endpoints.
\<close>

theorem refused_before_engine:
  "(\<not> fst (allow now peer (srv_limiter s)) \<longrightarrow>
      fst (throttled handler now peer s body w) = \<lparr>ans_status = 429, ans_body = PlainText ''too many requests''\<rparr> \<and>
      snd (snd (throttled handler now peer s body w)) = w) \<and>
   (isl (decodeRequest body) \<longrightarrow> handleVerify s body w = (rejectRequestBody, w) \<and>
      handleSettle s body w = (rejectRequestBody, w) \<and> ans_status rejectRequestBody = 400) \<and>
   (decodeRequest body = Inr req \<and> rq_payload_version req \<noteq> ProtocolVersion (srv_codes s) \<longrightarrow>
      handleVerify s body w = (refuseVerify '''' ReasonInvalidVersion, w) \<and>
      handleSettle s body w = (refuseSettle s '''' ReasonInvalidVersion, w))"
  using decodeRequest_answer [of body]
  by (auto simp: throttled_def handleVerify_def handleSettle_def answer_defs Let_def isl_def split: prod.splits)

text \<open>
  The reasons reported are never the engine's own routing codes: each becomes the
  specification's name for it, an unserved scheme told from an unserved network, and any other code
  is passed through.
\<close>

theorem specReason_vocabulary:
  assumes "{ReasonInvalidVersion, ReasonInvalidPayload, ReasonInvalidRequirements, ReasonUnsupportedScheme,
      ReasonInvalidNetwork} \<inter> engine_routing = {}"
    and "engine_routing = {ErrInvalidVersion (srv_codes s), ErrInvalidV2Payload (srv_codes s),
      ErrInvalidV2Requirements (srv_codes s), ErrNoFacilitatorForNetwork (srv_codes s)}"
    and "card engine_routing = 4"
  shows "specReason s code scheme \<notin> engine_routing \<and>
    (code \<notin> engine_routing \<longrightarrow> specReason s code scheme = code) \<and>
    (code = ErrNoFacilitatorForNetwork (srv_codes s) \<longrightarrow> specReason s code scheme =
       (if servesScheme s scheme then ReasonInvalidNetwork else ReasonUnsupportedScheme))"
  using assms by (auto simp: specReason_def card_insert_if split: if_splits)

subsection \<open>A server, concretely\<close>

definition test_codes :: engine_codes where
  "test_codes = \<lparr>ProtocolVersion = 2, ErrInvalidVersion = ''v'', ErrInvalidV2Payload = ''p'',
     ErrInvalidV2Requirements = ''r'', ErrNoFacilitatorForNetwork = ''n''\<rparr>"

definition pending_error :: go_error where
  "pending_error = SettleError ErrSettlementPending ''g1'' ''gno:dev'' ''ab'' ''timed out''"

definition test_server :: "unit Server" where
  "test_server = \<lparr>srv_engine = \<lparr>eng_verify = (\<lambda>p r w. (Inl (ErrorString ''down''), w)),
       eng_settle = (\<lambda>p r w. (Inl pending_error, w)), eng_supported = [\<lparr>kind_scheme = ''exact'', kind_network = ''gno:dev''\<rparr>]\<rparr>,
     srv_codes = test_codes, srv_network = ''gno:dev'', srv_limiter = newRateLimiter \<lparr>PerSecond = Fin 0, Burst = 0\<rparr>\<rparr>"

definition body_of :: "string \<Rightarrow> json_body" where
  "body_of version = ([JObject [(''paymentPayload'', JObject [(''x402Version'', JNumber version)]),
     (''paymentRequirements'', JObject [(''scheme'', JString ''exact'')])]], EndOfInput)"

lemma decode_body_of:
  "decodeRequest (body_of version) = (case parse_int version of
     None \<Rightarrow> Inl rejectRequestBody
   | Some n \<Rightarrow> Inr \<lparr>rq_version = 0, rq_payload = Some (JObject [(''x402Version'', JNumber version)]),
       rq_requirements = Some (JObject [(''scheme'', JString ''exact'')]), rq_payload_version = n,
       rq_requirements_scheme = ''exact''\<rparr>)"
  by (simp add: decodeRequest_def body_of_def request_fields_def payload_fields_def requirements_fields_def
      field_of_def into_raw_def decodePresent_def zero_request_def split: option.splits)

lemma parse_int_examples: "parse_int ''2'' = Some 2" "parse_int ''1'' = Some 1" "parse_int ''2.0'' = None"
  by (simp_all add: parse_int_def digits_value_def is_digit_def)

theorem refused_settle_transaction_witness:
  "handleSettle test_server (body_of ''2'') () = (\<lparr>ans_status = 200, ans_body = SettleBody \<lparr>sr_success = False,
     sr_transaction = ''ab'', sr_network = ''gno:dev'', sr_payer = ''g1'', sr_reason = ErrSettlementPending\<rparr>\<rparr>, ()) \<and>
   ErrSettlementPending \<in> {ReasonBroadcastFailed, ErrSettlementPending, ReasonDuplicateSettlement}"
proof -
  have "handleSettle test_server (body_of ''2'') () = (\<lparr>ans_status = 200, ans_body = SettleBody \<lparr>sr_success = False,
     sr_transaction = ''ab'', sr_network = ''gno:dev'', sr_payer = ''g1'', sr_reason = ErrSettlementPending\<rparr>\<rparr>, ())"
    by (simp add: handleSettle_def decode_body_of parse_int_examples test_server_def test_codes_def pending_error_def
        answerSettleError_def specReason_def answer_defs Let_def ErrSettlementPending_def)
  with refused_settle_transaction [OF this] show ?thesis by simp
qed

theorem refused_before_engine_witness:
  "handleVerify test_server (body_of ''1'') () = (refuseVerify '''' ReasonInvalidVersion, ()) \<and>
   handleSettle test_server (body_of ''2.0'') () = (rejectRequestBody, ())"
proof -
  obtain req where req: "decodeRequest (body_of ''1'') = Inr req" "rq_payload_version req = 1"
    by (simp add: decode_body_of parse_int_examples)
  have "rq_payload_version req \<noteq> ProtocolVersion (srv_codes test_server)"
    by (simp add: req(2) test_server_def test_codes_def)
  with req(1) have "handleVerify test_server (body_of ''1'') () = (refuseVerify '''' ReasonInvalidVersion, ())"
    using refused_before_engine [where s = test_server and body = "body_of ''1''" and req = req,
        THEN conjunct2, THEN conjunct2] by simp
  moreover have "isl (decodeRequest (body_of ''2.0''))"
    by (simp add: decode_body_of parse_int_examples)
  then have "handleSettle test_server (body_of ''2.0'') () = (rejectRequestBody, ())"
    using refused_before_engine [where s = test_server and body = "body_of ''2.0''",
        THEN conjunct2, THEN conjunct1] by simp
  ultimately show ?thesis ..
qed

theorem specReason_vocabulary_witness:
  "specReason test_server ''n'' ''exact'' = ReasonInvalidNetwork \<and>
   specReason test_server ''n'' ''upto'' = ReasonUnsupportedScheme"
proof -
  have codes: "srv_codes test_server = test_codes" by (simp add: test_server_def)
  have "{ReasonInvalidVersion, ReasonInvalidPayload, ReasonInvalidRequirements, ReasonUnsupportedScheme,
      ReasonInvalidNetwork} \<inter> {''v'', ''p'', ''r'', ''n''} = {}" "card {''v'', ''p'', ''r'', ''n''} = 4"
    by (simp_all add: reason_defs)
  note vocabulary = specReason_vocabulary [OF this(1) _ this(2), of test_server, unfolded codes]
  have "specReason test_server ''n'' scheme =
      (if servesScheme test_server scheme then ReasonInvalidNetwork else ReasonUnsupportedScheme)" for scheme
    using vocabulary [of "''n''" scheme] by (simp add: test_codes_def)
  moreover have "servesScheme test_server ''exact''" "\<not> servesScheme test_server ''upto''"
    by (simp_all add: servesScheme_def test_server_def)
  ultimately show ?thesis by simp
qed

end
