(* ===== verification/Gnofacilitator_Main.thy ===== *)
theory Gnofacilitator_Main
  imports Gnoclient_Node Facilitator_Server
begin

text \<open>
  \<open>cmd/gnofacilitator/main.go\<close>: the command. What is modelled is its startup: the flags it refuses,
  the chain-id check against the node, retried within a window, and the server it then serves. The
  HTTP server is its timeouts and the handler behind \<open>http.TimeoutHandler\<close>; what \<open>Serve\<close> and \<open>Shutdown\<close>
  return, and the signal that ends the context, are arguments.

  \<open>retryChainID\<close> loops until the node answers or the window is spent, and is a partial function. The
  world is read through \<open>clk\<close>, the clock, and slept through \<open>sleep\<close>.
\<close>

definition readHeaderTimeout :: duration where "readHeaderTimeout = 5 * second"
definition readTimeout :: duration where "readTimeout = 10 * second"
definition writeTimeout :: duration where "writeTimeout = 30 * second"
definition idleTimeout :: duration where "idleTimeout = 60 * second"
definition answerTimeout :: duration where "answerTimeout = 25 * second"
definition chainIDCheckWindow :: duration where "chainIDCheckWindow = 10 * second"
definition chainIDCheckInterval :: duration where "chainIDCheckInterval = 500 * millisecond"

partial_function (option) retry_loop ::
    "('w \<Rightarrow> (go_error + string) \<times> 'w) \<Rightarrow> ('w \<Rightarrow> instant) \<Rightarrow> (duration \<Rightarrow> 'w \<Rightarrow> 'w) \<Rightarrow> instant \<Rightarrow> 'w
      \<Rightarrow> ((go_error + string) \<times> 'w) option" where
  "retry_loop query clk sleep deadline w =
     (case query w of
        (Inr reported, w1) \<Rightarrow> Some (Inr reported, w1)
      | (Inl err, w1) \<Rightarrow>
          if deadline < clk w1 then Some (Inl err, w1)
          else retry_loop query clk sleep deadline (sleep chainIDCheckInterval w1))"

definition retryChainID ::
    "('w \<Rightarrow> (go_error + string) \<times> 'w) \<Rightarrow> ('w \<Rightarrow> instant) \<Rightarrow> (duration \<Rightarrow> 'w \<Rightarrow> 'w) \<Rightarrow> 'w
      \<Rightarrow> ((go_error + string) \<times> 'w) option" where
  "retryChainID query clk sleep w =
     (let deadline = clk w + chainIDCheckWindow in retry_loop query clk sleep deadline w)"

text \<open>
  \<open>nodeChainID\<close>: the first of the retries' answer and the watchdog. \<open>None\<close> is the watchdog's.
\<close>

definition nodeChainID :: "(go_error + string) option \<Rightarrow> go_error + string" where
  "nodeChainID answered =
     (case answered of
        Some got \<Rightarrow> got
      | None \<Rightarrow> Inl (ErrorString ''the node did not answer the chain-id query within 10s''))"

record flags =
  fl_rpc :: string
  fl_chain_id :: string
  fl_rate_per_second :: float64
  fl_rate_burst :: int
  fl_version :: bool

datatype 'w started = PrintedVersion | Exited int | Serving "'w Server"

text \<open>
  \<open>main\<close> up to serving: whether the RPC client could be made, what the chain-id check answered, and
  whether the address could be listened on, are arguments.
\<close>

definition main_start ::
    "(string \<Rightarrow> 'w engine) \<Rightarrow> engine_codes \<Rightarrow> flags \<Rightarrow> bool \<Rightarrow> (go_error + string) option \<Rightarrow> bool \<Rightarrow> 'w started" where
  "main_start register codes fl rpc_ok answered listen_ok =
     (if fl_version fl then PrintedVersion
      else if fl_rpc fl = '''' \<or> fl_chain_id fl = '''' then Exited 2
      else if ValidChainID (fl_chain_id fl) \<noteq> None then Exited 2
      else if f_less (fl_rate_per_second fl) (Fin 0) \<or> fl_rate_burst fl < 0 then Exited 2
      else if \<not> rpc_ok then Exited 1
      else
        (let f = NewServer register codes (fl_chain_id fl)
               [WithRateLimit \<lparr>PerSecond = fl_rate_per_second fl, Burst = fl_rate_burst fl\<rparr>];
             listen = (if \<not> listen_ok then Exited 1 else Serving f) in
         case nodeChainID answered of
           Inl err \<Rightarrow> listen
         | Inr reported \<Rightarrow> if reported \<noteq> fl_chain_id fl then Exited 1 else listen))"

subsection \<open>Startup\<close>

text \<open>
  C38. The command serves exactly when its flags name a node and a chain id CAIP-2 can name, the rate
  limits are not negative, the client and the listener could be made, and the node did not report a
  different chain: a node that gave no answer does not stop it. What it then serves is the network of
  that chain id, at that rate limit.
\<close>

theorem main_serves_iff:
  "main_start register codes fl rpc_ok answered listen_ok = Serving s \<longleftrightarrow>
     \<not> fl_version fl \<and> fl_rpc fl \<noteq> '''' \<and> chainIDReference (fl_chain_id fl) \<and>
     \<not> f_less (fl_rate_per_second fl) (Fin 0) \<and> 0 \<le> fl_rate_burst fl \<and> rpc_ok \<and> listen_ok \<and>
     (answered = None \<or> (\<exists>err. answered = Some (Inl err)) \<or> answered = Some (Inr (fl_chain_id fl))) \<and>
     s = \<lparr>srv_engine = register (''gno:'' @ fl_chain_id fl), srv_codes = codes,
          srv_network = ''gno:'' @ fl_chain_id fl,
          srv_limiter = newRateLimiter \<lparr>PerSecond = fl_rate_per_second fl, Burst = fl_rate_burst fl\<rparr>\<rparr>"
proof -
  have "chainIDReference c \<Longrightarrow> c \<noteq> ''''" for c by (rule chainIDReference_not_Nil)
  then show ?thesis
    by (cases answered)
      (auto simp: main_start_def nodeChainID_def NewServer_def WithRateLimit_def ValidChainID_def Let_def
        split: sum.splits if_splits)
qed

subsection \<open>The chain-id check ends\<close>

text \<open>A sleep of a duration takes at least that long, and a query does not set the clock back.\<close>

definition clock_laws :: "('w \<Rightarrow> (go_error + string) \<times> 'w) \<Rightarrow> ('w \<Rightarrow> instant) \<Rightarrow> (duration \<Rightarrow> 'w \<Rightarrow> 'w) \<Rightarrow> bool" where
  "clock_laws query clk sleep \<longleftrightarrow>
     (\<forall>w. clk w \<le> clk (snd (query w))) \<and> (\<forall>d w. clk w + d \<le> clk (sleep d w))"

lemma retry_loop_returns:
  assumes laws: "clock_laws query clk sleep"
  shows "nat (deadline + chainIDCheckInterval - clk w) \<le> n * nat chainIDCheckInterval \<Longrightarrow>
    \<exists>r w'. retry_loop query clk sleep deadline w = Some (r, w') \<and> (isl r \<longrightarrow> deadline < clk w')"
proof (induction n arbitrary: w)
  case 0
  then have "deadline < clk w" by (simp add: chainIDCheckInterval_def millisecond_def)
  with laws have "deadline < clk (snd (query w))" unfolding clock_laws_def by (meson less_le_trans)
  then show ?case
    by (subst retry_loop.simps, cases "query w"; cases "fst (query w)") (auto split: prod.splits)
next
  case (Suc n)
  show ?case
  proof (cases "isl (fst (query w)) \<and> clk (snd (query w)) \<le> deadline")
    case False
    then show ?thesis
      by (subst retry_loop.simps, cases "query w"; cases "fst (query w)") auto
  next
    case True
    let ?w = "sleep chainIDCheckInterval (snd (query w))"
    have "clk w + chainIDCheckInterval \<le> clk ?w"
      using laws unfolding clock_laws_def by (meson add_right_mono order_trans)
    then have "nat (deadline + chainIDCheckInterval - clk ?w) \<le> n * nat chainIDCheckInterval"
      using Suc.prems by (simp add: chainIDCheckInterval_def millisecond_def)
    from Suc.IH [OF this] show ?thesis
      using True by (subst retry_loop.simps, cases "query w"; cases "fst (query w)") auto
  qed
qed

text \<open>
  The chain-id check returns, whatever the node does between its answers: with the node's chain
  id, or with an error once the window is spent and not before.
\<close>

theorem retryChainID_returns:
  assumes "clock_laws query clk sleep"
  shows "\<exists>r w'. retryChainID query clk sleep w = Some (r, w') \<and>
    (isl r \<longrightarrow> clk w + chainIDCheckWindow < clk w')"
proof -
  have "nat ((clk w + chainIDCheckWindow) + chainIDCheckInterval - clk w) \<le> 21 * nat chainIDCheckInterval"
    by (simp add: chainIDCheckInterval_def chainIDCheckWindow_def time_simps)
  from retry_loop_returns [OF assms this] show ?thesis by (simp add: retryChainID_def)
qed

theorem retryChainID_returns_witness:
  "\<exists>r w'. retryChainID (\<lambda>w. (Inl (ErrorString ''refused''), w)) (\<lambda>w. w) (\<lambda>d w. w + d) 5 = Some (r, w') \<and>
     (isl r \<longrightarrow> 5 + chainIDCheckWindow < w')"
  by (rule retryChainID_returns) (simp add: clock_laws_def)

subsection \<open>The command stops\<close>

text \<open>
  \<open>serve\<close>: \<open>failed\<close> is what \<open>Serve\<close> returned before the context was done, if it did, \<open>drained\<close> what
  \<open>Shutdown\<close> returned within \<open>drain\<close>, and \<open>served\<close> what \<open>Serve\<close> returned then. \<open>ErrServerClosed\<close> is the
  library's sentinel.
\<close>

definition ErrServerClosed :: go_error where "ErrServerClosed = ErrorString ''http: Server closed''"

definition serve :: "go_error option option \<Rightarrow> go_error option \<Rightarrow> go_error option \<Rightarrow> go_error option" where
  "serve failed drained served =
     (case failed of
        Some err \<Rightarrow> err
      | None \<Rightarrow>
          (case drained of
             Some err \<Rightarrow> Some (WrapError ''drain'' err)
           | None \<Rightarrow>
               (case served of
                  None \<Rightarrow> None
                | Some err \<Rightarrow> if wraps ErrServerClosed err then None else Some err)))"

text \<open>The rest of \<open>main\<close>: its exit code, of what \<open>serve\<close> returned if it got to serve.\<close>

fun main_exit :: "'w started \<Rightarrow> go_error option \<Rightarrow> int" where
  "main_exit PrintedVersion err = 0"
| "main_exit (Exited code) err = code"
| "main_exit (Serving s) err = (if err \<noteq> None then 1 else 0)"

text \<open>A stop that cuts a request short is an error, and one that drained is none.\<close>

lemma serve_drained: "served = Some ErrServerClosed \<Longrightarrow> serve None drained served = None \<longleftrightarrow> drained = None"
  by (auto simp: serve_def ErrServerClosed_def split: option.splits)

lemma main_exit_zero:
  "main_exit (main_start register codes fl rpc_ok answered listen_ok) err = 0 \<longleftrightarrow>
     fl_version fl \<or> err = None \<and> (\<exists>s. main_start register codes fl rpc_ok answered listen_ok = Serving s)"
  by (cases "main_start register codes fl rpc_ok answered listen_ok")
    (auto simp: main_start_def Let_def split: sum.splits if_splits)

subsection \<open>The HTTP server\<close>

record http_server =
  hs_readHeader :: duration
  hs_read :: duration
  hs_write :: duration
  hs_idle :: duration
  hs_answerWithin :: duration

definition newServer :: "duration \<Rightarrow> http_server" where
  "newServer answerWithin =
     \<lparr>hs_readHeader = readHeaderTimeout, hs_read = readTimeout, hs_write = writeTimeout, hs_idle = idleTimeout,
      hs_answerWithin = answerWithin\<rparr>"

text \<open>\<open>http.TimeoutHandler\<close>: the handler's answer if it took less than the timeout, and a 503 at it otherwise.\<close>

definition timeout_answer :: "http_server \<Rightarrow> duration \<Rightarrow> http_answer \<Rightarrow> http_answer" where
  "timeout_answer srv taken answer =
     (if taken < hs_answerWithin srv then answer
      else http_Error ''the chain did not answer in time'' StatusServiceUnavailable)"

text \<open>
  An answer that says anything of a payment was given within 25 seconds, and a 503 in place of a late
  one can still be written.
\<close>

lemma late_answer_is_no_verdict:
  "timeout_answer (newServer answerTimeout) taken answer = \<lparr>ans_status = 200, ans_body = b\<rparr> \<longrightarrow> taken < 25 * second"
  "hs_answerWithin (newServer answerTimeout) < hs_write (newServer answerTimeout)"
  by (auto simp: timeout_answer_def newServer_def answerTimeout_def writeTimeout_def http_Error_def
      StatusServiceUnavailable_def second_def)

end
