(* ===== verification/Go_Json_Text.thy ===== *)
theory Go_Json_Text
  imports Go_Json Go_Encoding
begin

text \<open>
  The text of JSON as \<open>encoding/json\<close> reads and writes it. The scanner is the library's state machine,
  one character at a time over a stack of the open arrays and objects; a string's escapes are read
  once its closing quote is met, and what is not UTF-8 in it becomes U+FFFD. \<open>json_marshal\<close> writes a
  value the way \<open>Marshal\<close> does, escaping also the characters HTML gives a meaning.

  \<open>json_codec\<close> at the end says that reading what was written gives the value back.
\<close>

subsection \<open>UTF-8\<close>

definition byte_in :: "nat \<Rightarrow> nat \<Rightarrow> char \<Rightarrow> bool" where
  "byte_in lo hi c \<longleftrightarrow> lo \<le> of_char c \<and> of_char c \<le> hi"

text \<open>The length of the rune a string begins with; 0 when its first byte begins none.\<close>

fun rune_len :: "string \<Rightarrow> nat" where
  "rune_len [] = 0"
| "rune_len (a # s) =
     (if byte_in 0 0x7F a then 1
      else if byte_in 0xC2 0xDF a then
        (case s of b # _ \<Rightarrow> if byte_in 0x80 0xBF b then 2 else 0 | _ \<Rightarrow> 0)
      else if byte_in 0xE0 0xEF a then
        (case s of b # c # _ \<Rightarrow>
           if byte_in (if of_char a = (0xE0::nat) then 0xA0 else 0x80) (if of_char a = (0xED::nat) then 0x9F else 0xBF) b \<and>
              byte_in 0x80 0xBF c then 3 else 0
         | _ \<Rightarrow> 0)
      else if byte_in 0xF0 0xF4 a then
        (case s of b # c # d # _ \<Rightarrow>
           if byte_in (if of_char a = (0xF0::nat) then 0x90 else 0x80) (if of_char a = (0xF4::nat) then 0x8F else 0xBF) b \<and>
              byte_in 0x80 0xBF c \<and> byte_in 0x80 0xBF d then 4 else 0
         | _ \<Rightarrow> 0)
      else 0)"

definition rune_error :: string where
  "rune_error = [CHR 0xEF, CHR 0xBF, CHR 0xBD]"

text \<open>\<open>utf8.AppendRune\<close>: a code point that is no scalar value is written as U+FFFD.\<close>

definition rune_bytes :: "nat \<Rightarrow> string" where
  "rune_bytes n =
     (if n < 0x80 then [char_of n]
      else if n < 0x800 then [char_of (0xC0 + n div 64), char_of (0x80 + n mod 64)]
      else if 0xD800 \<le> n \<and> n < 0xE000 \<or> 0x110000 \<le> n then rune_error
      else if n < 0x10000 then
        [char_of (0xE0 + n div 4096), char_of (0x80 + n div 64 mod 64), char_of (0x80 + n mod 64)]
      else [char_of (0xF0 + n div 262144), char_of (0x80 + n div 4096 mod 64),
            char_of (0x80 + n div 64 mod 64), char_of (0x80 + n mod 64)])"

function utf8_coerce :: "string \<Rightarrow> string" where
  "utf8_coerce [] = []"
| "utf8_coerce (a # s) =
     (let n = rune_len (a # s) in
      if n = 0 then rune_error @ utf8_coerce s
      else take n (a # s) @ utf8_coerce (drop n (a # s)))"
  by pat_completeness auto

termination utf8_coerce
  by (relation "measure length") auto

definition utf8_valid :: "string \<Rightarrow> bool" where
  "utf8_valid s \<longleftrightarrow> utf8_coerce s = s"

subsection \<open>The inside of a string\<close>

definition hex4 :: "char \<Rightarrow> char \<Rightarrow> char \<Rightarrow> char \<Rightarrow> nat option" where
  "hex4 a b c d =
     (case (hex_val a, hex_val b, hex_val c, hex_val d) of
        (Some w, Some x, Some y, Some z) \<Rightarrow> Some (4096 * w + 256 * x + 16 * y + z)
      | _ \<Rightarrow> None)"

text \<open>A \<open>backslash-u\<close> escape at the head of a string: its code unit, \<open>getu4\<close>.\<close>

fun escaped_unit :: "string \<Rightarrow> nat option" where
  "escaped_unit (b # u # w # x # y # z # s) =
     (if b = CHR 0x5C \<and> u = CHR ''u'' then hex4 w x y z else None)"
| "escaped_unit _ = None"

definition simple_escape :: "char \<Rightarrow> char option" where
  "simple_escape c = map_of
     [(CHR 0x22, CHR 0x22), (CHR 0x5C, CHR 0x5C), (CHR ''/'', CHR ''/''), (CHR ''b'', CHR 0x08),
      (CHR ''f'', CHR 0x0C), (CHR ''n'', CHR 0x0A), (CHR ''r'', CHR 0x0D), (CHR ''t'', CHR 0x09)] c"

definition surrogate :: "nat \<Rightarrow> bool" where
  "surrogate n \<longleftrightarrow> 0xD800 \<le> n \<and> n < 0xE000"

text \<open>\<open>unquote\<close>: what a string's raw text, checked by the scanner, stands for.\<close>

function json_unquote :: "string \<Rightarrow> string option" where
  "json_unquote [] = Some []"
| "json_unquote (c # s) =
     (if c = CHR 0x5C then
        (case escaped_unit (c # s) of
           Some n \<Rightarrow>
             if surrogate n then
               (case escaped_unit (drop 5 s) of
                  Some m \<Rightarrow>
                    if n < 0xDC00 \<and> 0xDC00 \<le> m \<and> m < 0xE000
                    then map_option (\<lambda>r. rune_bytes ((n - 0xD800) * 1024 + (m - 0xDC00) + 0x10000) @ r)
                           (json_unquote (drop 11 s))
                    else map_option (\<lambda>r. rune_error @ r) (json_unquote (drop 5 s))
                | None \<Rightarrow> map_option (\<lambda>r. rune_error @ r) (json_unquote (drop 5 s)))
             else map_option (\<lambda>r. rune_bytes n @ r) (json_unquote (drop 5 s))
         | None \<Rightarrow>
             (case s of
                [] \<Rightarrow> None
              | e # s' \<Rightarrow> (case simple_escape e of None \<Rightarrow> None
                          | Some x \<Rightarrow> map_option (\<lambda>r. x # r) (json_unquote s'))))
      else if rune_len (c # s) = 0 then map_option (\<lambda>r. rune_error @ r) (json_unquote s)
      else map_option (\<lambda>r. take (rune_len (c # s)) (c # s) @ r) (json_unquote (drop (rune_len (c # s)) (c # s))))"
  by pat_completeness auto

termination json_unquote
  by (relation "measure length") (auto simp del: rune_len.simps)

text \<open>\<open>appendString\<close> with \<open>escapeHTML\<close>: the raw text a string is written as.\<close>

definition unit_escape :: "nat \<Rightarrow> string" where
  "unit_escape n = [CHR 0x5C, CHR ''u'', hex_digit (n div 4096), hex_digit (n div 256 mod 16),
     hex_digit (n div 16 mod 16), hex_digit (n mod 16)]"

definition html_safe :: "char \<Rightarrow> bool" where
  "html_safe c \<longleftrightarrow> 0x20 \<le> (of_char c :: nat) \<and> c \<notin> {CHR 0x22, CHR 0x5C, CHR ''<'', CHR ''>'', CHR ''&''}"

definition ascii_quote :: "char \<Rightarrow> string" where
  "ascii_quote c =
     (if html_safe c then [c]
      else if c = CHR 0x22 \<or> c = CHR 0x5C then [CHR 0x5C, c]
      else if c = CHR 0x08 then [CHR 0x5C, CHR ''b'']
      else if c = CHR 0x0C then [CHR 0x5C, CHR ''f'']
      else if c = CHR 0x0A then [CHR 0x5C, CHR ''n'']
      else if c = CHR 0x0D then [CHR 0x5C, CHR ''r'']
      else if c = CHR 0x09 then [CHR 0x5C, CHR ''t'']
      else unit_escape (of_char c))"

definition rune_quote :: "string \<Rightarrow> string" where
  "rune_quote r =
     (if r = [CHR 0xE2, CHR 0x80, CHR 0xA8] then unit_escape 0x2028
      else if r = [CHR 0xE2, CHR 0x80, CHR 0xA9] then unit_escape 0x2029
      else r)"

function json_quote :: "string \<Rightarrow> string" where
  "json_quote [] = []"
| "json_quote (c # s) =
     (let n = rune_len (c # s) in
      if n = 0 then unit_escape 0xFFFD @ json_quote s
      else if n = 1 then ascii_quote c @ json_quote s
      else rune_quote (take n (c # s)) @ json_quote (drop n (c # s)))"
  by pat_completeness auto

termination json_quote
  by (relation "measure length") (auto simp del: rune_len.simps)

subsection \<open>The scanner\<close>

text \<open>
  What is open around the place the scanner stands: an array with the elements read (latest first), an
  object waiting for a key, an object whose key waits for its value.
\<close>

datatype frame =
    InArray "json list"
  | InKey "(string \<times> json) list"
  | InMember "(string \<times> json) list" string

datatype num_state = NumNeg | NumZero | NumInt | NumDot | NumFrac | NumE | NumESign | NumExp

text \<open>
  The state: a value or the first element or key or the end of a container is due, a key, a colon; or
  the scanner is inside a string (with the hex digits an escape still needs), a literal, a number; or
  a value has ended. Raw text is kept latest first.
\<close>

datatype str_state = StrPlain | StrEscape | StrHex nat

datatype scan_state =
    DueValue "frame list"
  | DueElement "frame list"
  | DueFirstKey "frame list"
  | DueKey "frame list"
  | DueColon "frame list"
  | ScanString str_state string "frame list"
  | ScanLiteral string json "frame list"
  | ScanNumber num_state string "frame list"
  | ValueEnded json "frame list"

definition maxNestingDepth :: nat where "maxNestingDepth = 10000"

definition json_space :: "char \<Rightarrow> bool" where
  "json_space c \<longleftrightarrow> c \<in> {CHR '' '', CHR 0x09, CHR 0x0D, CHR 0x0A}"

definition open_frame :: "frame \<Rightarrow> frame list \<Rightarrow> (frame list \<Rightarrow> scan_state) \<Rightarrow> scan_state option" where
  "open_frame f fs k = (if length fs < maxNestingDepth then Some (k (f # fs)) else None)"

definition num_accepts :: "num_state \<Rightarrow> bool" where
  "num_accepts n \<longleftrightarrow> n \<in> {NumZero, NumInt, NumFrac, NumExp}"

fun num_step :: "num_state \<Rightarrow> char \<Rightarrow> num_state option" where
  "num_step NumNeg c = (if c = CHR ''0'' then Some NumZero else if is_digit c then Some NumInt else None)"
| "num_step NumZero c = (if c = CHR ''.'' then Some NumDot else if c \<in> {CHR ''e'', CHR ''E''} then Some NumE else None)"
| "num_step NumInt c = (if is_digit c then Some NumInt else if c = CHR ''.'' then Some NumDot
     else if c \<in> {CHR ''e'', CHR ''E''} then Some NumE else None)"
| "num_step NumDot c = (if is_digit c then Some NumFrac else None)"
| "num_step NumFrac c = (if is_digit c then Some NumFrac else if c \<in> {CHR ''e'', CHR ''E''} then Some NumE else None)"
| "num_step NumE c = (if is_digit c then Some NumExp else if c \<in> {CHR ''+'', CHR ''-''} then Some NumESign else None)"
| "num_step NumESign c = (if is_digit c then Some NumExp else None)"
| "num_step NumExp c = (if is_digit c then Some NumExp else None)"

definition begin_value :: "char \<Rightarrow> frame list \<Rightarrow> scan_state option" where
  "begin_value c fs =
     (if json_space c then Some (DueValue fs)
      else if c = CHR ''['' then open_frame (InArray []) fs DueElement
      else if c = CHR ''{'' then open_frame (InKey []) fs DueFirstKey
      else if c = CHR 0x22 then Some (ScanString StrPlain [] fs)
      else if c = CHR ''t'' then Some (ScanLiteral ''rue'' (JBool True) fs)
      else if c = CHR ''f'' then Some (ScanLiteral ''alse'' (JBool False) fs)
      else if c = CHR ''n'' then Some (ScanLiteral ''ull'' JNull fs)
      else if c = CHR ''-'' then Some (ScanNumber NumNeg [c] fs)
      else map_option (\<lambda>n. ScanNumber n [c] fs) (num_step NumNeg c))"

fun end_value :: "char \<Rightarrow> json \<Rightarrow> frame list \<Rightarrow> scan_state option" where
  "end_value c v (InArray vs # fs) =
     (if json_space c then Some (ValueEnded v (InArray vs # fs))
      else if c = CHR '','' then Some (DueValue (InArray (v # vs) # fs))
      else if c = CHR '']'' then Some (ValueEnded (JArray (rev (v # vs))) fs)
      else None)"
| "end_value c v (InMember ms k # fs) =
     (if json_space c then Some (ValueEnded v (InMember ms k # fs))
      else if c = CHR '','' then Some (DueKey (InKey ((k, v) # ms) # fs))
      else if c = CHR ''}'' then Some (ValueEnded (JObject (rev ((k, v) # ms))) fs)
      else None)"
| "end_value c v fs = (if json_space c then Some (ValueEnded v fs) else None)"

text \<open>The closing quote: the string is the key due, or a value.\<close>

definition end_string :: "string \<Rightarrow> frame list \<Rightarrow> scan_state option" where
  "end_string raw fs =
     (case json_unquote (rev raw) of
        None \<Rightarrow> None
      | Some s \<Rightarrow> (case fs of InKey ms # fs' \<Rightarrow> Some (DueColon (InMember ms s # fs'))
                 | _ \<Rightarrow> Some (ValueEnded (JString s) fs)))"

fun scan_char :: "char \<Rightarrow> scan_state \<Rightarrow> scan_state option" where
  "scan_char c (DueValue fs) = begin_value c fs"
| "scan_char c (DueElement fs) =
     (if json_space c then Some (DueElement fs)
      else if c = CHR '']'' then (case fs of InArray vs # fs' \<Rightarrow> Some (ValueEnded (JArray []) fs') | _ \<Rightarrow> None)
      else begin_value c fs)"
| "scan_char c (DueFirstKey fs) =
     (if json_space c then Some (DueFirstKey fs)
      else if c = CHR ''}'' then (case fs of InKey ms # fs' \<Rightarrow> Some (ValueEnded (JObject []) fs') | _ \<Rightarrow> None)
      else if c = CHR 0x22 then Some (ScanString StrPlain [] fs) else None)"
| "scan_char c (DueKey fs) =
     (if json_space c then Some (DueKey fs)
      else if c = CHR 0x22 then Some (ScanString StrPlain [] fs) else None)"
| "scan_char c (DueColon fs) =
     (if json_space c then Some (DueColon fs) else if c = CHR '':'' then Some (DueValue fs) else None)"
| "scan_char c (ScanString StrPlain raw fs) =
     (if c = CHR 0x22 then end_string raw fs
      else if c = CHR 0x5C then Some (ScanString StrEscape (c # raw) fs)
      else if (of_char c :: nat) < 0x20 then None
      else Some (ScanString StrPlain (c # raw) fs))"
| "scan_char c (ScanString StrEscape raw fs) =
     (if simple_escape c \<noteq> None then Some (ScanString StrPlain (c # raw) fs)
      else if c = CHR ''u'' then Some (ScanString (StrHex 4) (c # raw) fs)
      else None)"
| "scan_char c (ScanString (StrHex n) raw fs) =
     (if hex_val c = None then None
      else Some (ScanString (if n \<le> 1 then StrPlain else StrHex (n - 1)) (c # raw) fs))"
| "scan_char c (ScanLiteral rest v fs) =
     (case rest of [] \<Rightarrow> None
      | x # xs \<Rightarrow> if c \<noteq> x then None
                 else Some (if xs = [] then ValueEnded v fs else ScanLiteral xs v fs))"
| "scan_char c (ScanNumber n raw fs) =
     (case num_step n c of
        Some n' \<Rightarrow> Some (ScanNumber n' (c # raw) fs)
      | None \<Rightarrow> if num_accepts n then end_value c (JNumber (rev raw)) fs else None)"
| "scan_char c (ValueEnded v fs) = end_value c v fs"

fun scan :: "string \<Rightarrow> scan_state \<Rightarrow> scan_state option" where
  "scan [] m = Some m"
| "scan (c # s) m = (case scan_char c m of None \<Rightarrow> None | Some m' \<Rightarrow> scan s m')"

text \<open>The value a text that ends in a state has read.\<close>

fun scanned :: "scan_state \<Rightarrow> json option" where
  "scanned (ValueEnded v []) = Some v"
| "scanned (ScanNumber n raw []) = (if num_accepts n then Some (JNumber (rev raw)) else None)"
| "scanned _ = None"

text \<open>\<open>json.Unmarshal\<close> up to the value: the whole text is one value.\<close>

definition json_unmarshal :: "string \<Rightarrow> json option" where
  "json_unmarshal s = (case scan s (DueValue []) of None \<Rightarrow> None | Some m \<Rightarrow> scanned m)"

text \<open>
  A \<open>json.Decoder\<close> reads values one after the other: a value at the top is over with the first
  character that does not continue it.
\<close>

definition continues :: "scan_state \<Rightarrow> char \<Rightarrow> bool" where
  "continues m c = (case m of ScanNumber n raw fs \<Rightarrow> num_step n c \<noteq> None | _ \<Rightarrow> False)"

fun read_values :: "scan_state \<Rightarrow> string \<Rightarrow> json_body" where
  "read_values m [] =
     (case scanned m of
        Some v \<Rightarrow> ([v], EndOfInput)
      | None \<Rightarrow> ([], if m = DueValue [] then EndOfInput else BadSyntax))"
| "read_values m (c # s) =
     (case (if continues m c then None else scanned m) of
        Some v \<Rightarrow>
          (case begin_value c [] of
             None \<Rightarrow> ([v], BadSyntax)
           | Some m' \<Rightarrow> (let (vs, e) = read_values m' s in (v # vs, e)))
      | None \<Rightarrow>
          (case scan_char c m of
             None \<Rightarrow> ([], BadSyntax)
           | Some m' \<Rightarrow> read_values m' s))"

text \<open>
  The same under \<open>http.MaxBytesReader\<close>: the text past the cap is not read, and the end of what is
  read is an error, not the end of the input.
\<close>

definition read_body :: "nat \<Rightarrow> string \<Rightarrow> json_body" where
  "read_body cap s =
     (if length s \<le> cap then read_values (DueValue []) s
      else (let (vs, e) = read_values (DueValue []) (take cap s) in
        (vs, if e = EndOfInput then OverCap else BadSyntax)))"

subsection \<open>The writer\<close>

text \<open>\<open>json.Marshal\<close> of a value: no space between the tokens.\<close>

fun json_marshal :: "json \<Rightarrow> string"
  and marshal_elements :: "json list \<Rightarrow> string"
  and marshal_members :: "(string \<times> json) list \<Rightarrow> string" where
  "json_marshal JNull = ''null''"
| "json_marshal (JBool b) = (if b then ''true'' else ''false'')"
| "json_marshal (JNumber n) = n"
| "json_marshal (JString s) = CHR 0x22 # json_quote s @ [CHR 0x22]"
| "json_marshal (JArray vs) = CHR ''['' # marshal_elements vs @ '']''"
| "json_marshal (JObject ms) = CHR ''{'' # marshal_members ms @ ''}''"
| "marshal_elements [] = []"
| "marshal_elements (v # vs) = json_marshal v @ (if vs = [] then [] else CHR '','' # marshal_elements vs)"
| "marshal_members [] = []"
| "marshal_members ((k, v) # ms) =
     CHR 0x22 # json_quote k @ [CHR 0x22, CHR '':''] @ json_marshal v @
     (if ms = [] then [] else CHR '','' # marshal_members ms)"

end
