(* ===== verification/Json_Roundtrip.thy ===== *)
theory Json_Roundtrip
  imports Go_Json_Text
begin

text \<open>
  Reading what was written gives the value back: the scanner of \<open>Go_Json_Text\<close> over the writer's text.
  A string comes back with what is not UTF-8 in it replaced (\<open>utf8_coerce\<close>), everything else as it was,
  provided the numbers are JSON numbers and nothing is nested deeper than the library reads
  (\<open>json_ok\<close>). First strings, then values on a stack of open containers, then whole texts and the
  bodies a decoder reads.
\<close>

subsection \<open>Runes\<close>

lemma rune_len_le: "rune_len s \<le> length s"
  by (cases s rule: rune_len.cases) (auto split: list.splits)

lemma rune_len_take:
  assumes "0 < rune_len s"
  shows "rune_len (take (rune_len s) s @ r) = rune_len s"
proof (cases s)
  case Nil
  with assms show ?thesis by simp
next
  case (Cons a t)
  with assms show ?thesis
    by (cases t rule: remdups_adj.cases)
      (auto split: if_splits list.splits)
qed

declare rune_len.simps [simp del] json_unquote.simps(2) [simp del] json_quote.simps(2) [simp del]
  utf8_coerce.simps(2) [simp del]

lemma rune_len_ascii: "of_char a < (128 :: nat) \<Longrightarrow> rune_len (a # s) = 1"
  by (simp add: rune_len.simps byte_in_def)

subsection \<open>Strings\<close>

lemma hex4_digits:
  assumes "n < 0x10000"
  shows "hex4 (hex_digit (n div 4096)) (hex_digit (n div 256 mod 16)) (hex_digit (n div 16 mod 16))
    (hex_digit (n mod 16)) = Some n"
proof -
  have eq: "n = 16 * (n div 16) + n mod 16" "n div 16 = 16 * (n div 256) + n div 16 mod 16"
    "n div 256 = 16 * (n div 4096) + n div 256 mod 16"
    using mult_div_mod_eq [of 16 "n div 16"] mult_div_mod_eq [of 16 "n div 256"]
    by (simp_all add: div_mult2_eq [symmetric])
  have "n div 4096 < 16" using assms by (simp add: less_mult_imp_div_less)
  moreover have "4096 * (n div 4096) + 256 * (n div 256 mod 16) + 16 * (n div 16 mod 16) + n mod 16 = n"
    using eq by linarith
  ultimately show ?thesis by (simp add: hex4_def hex_val_digit)
qed

lemma utf8_ascii: "list_all (\<lambda>c. of_char c < (128 :: nat)) s \<Longrightarrow> utf8_coerce s = s"
  by (induction s) (simp_all add: utf8_coerce.simps rune_len_ascii)

lemma unquote_unit:
  assumes "n < 0x10000" "\<not> surrogate n"
  shows "json_unquote (unit_escape n @ r) = map_option (\<lambda>t. rune_bytes n @ t) (json_unquote r)"
  using assms unfolding unit_escape_def
  by (simp add: hex4_digits json_unquote.simps(2) [of "CHR 0x5C"])

lemma unquote_simple:
  "simple_escape e = Some x \<Longrightarrow> json_unquote (CHR 0x5C # e # r) = map_option (\<lambda>t. x # t) (json_unquote r)"
proof -
  assume e: "simple_escape e = Some x"
  then have "e \<noteq> CHR ''u''" by (auto simp: simple_escape_def)
  then have "escaped_unit (CHR 0x5C # e # r) = None"
    by (cases "CHR 0x5C # e # r" rule: escaped_unit.cases) auto
  with e show ?thesis by (simp add: json_unquote.simps(2) [of "CHR 0x5C"])
qed

lemma unquote_plain:
  assumes "c \<noteq> CHR 0x5C" "rune_len (c # s) = n" "0 < n"
  shows "json_unquote (c # s) = map_option (\<lambda>t. take n (c # s) @ t) (json_unquote (drop n (c # s)))"
  using assms by (simp add: json_unquote.simps(2) [of c])

lemma unquote_ascii:
  assumes "of_char c < (128 :: nat)"
  shows "json_unquote (ascii_quote c @ r) = map_option (\<lambda>t. c # t) (json_unquote r)"
proof (cases "html_safe c")
  case True
  then have "c \<noteq> CHR 0x5C" "ascii_quote c = [c]" by (auto simp: html_safe_def ascii_quote_def)
  then show ?thesis
    using unquote_plain [of c r 1] assms by (simp add: rune_len_ascii)
next
  case unsafe: False
  show ?thesis
  proof (cases "c \<in> {CHR 0x22, CHR 0x5C, CHR 0x08, CHR 0x0C, CHR 0x0A, CHR 0x0D, CHR 0x09}")
    case True
    then obtain e where "ascii_quote c = [CHR 0x5C, e]" "simple_escape e = Some c"
      using unsafe by (auto simp: ascii_quote_def simple_escape_def html_safe_def)
    then show ?thesis by (simp add: unquote_simple)
  next
    case False
    with unsafe have "ascii_quote c = unit_escape (of_char c)" by (auto simp: ascii_quote_def)
    then show ?thesis
      using assms by (simp add: unquote_unit surrogate_def rune_bytes_def)
  qed
qed


lemma rune_bytes_specials:
  "rune_bytes 0xFFFD = rune_error"
  "rune_bytes 0x2028 = [CHR 0xE2, CHR 0x80, CHR 0xA8]"
  "rune_bytes 0x2029 = [CHR 0xE2, CHR 0x80, CHR 0xA9]"
  by (simp_all add: rune_bytes_def rune_error_def char_of_eq_iff)

lemma unquote_rune:
  assumes "rune_len s = n" "1 < n"
  shows "json_unquote (rune_quote (take n s) @ r) = map_option (\<lambda>t. take n s @ t) (json_unquote r)"
proof (cases "take n s = [CHR 0xE2, CHR 0x80, CHR 0xA8] \<or> take n s = [CHR 0xE2, CHR 0x80, CHR 0xA9]")
  case True
  then show ?thesis
    by (cases "json_unquote r") (auto simp: rune_quote_def unquote_unit surrogate_def rune_bytes_specials)
next
  case False
  obtain a t where s: "s = a # t" using assms by (cases s) (auto simp: rune_len.simps)
  have "rune_len (take n s @ r) = n" using rune_len_take [of s r] assms by simp
  moreover have "a \<noteq> CHR 0x5C" using assms by (auto simp: s rune_len.simps byte_in_def)
  moreover have "n \<le> length s" using rune_len_le [of s] assms by simp
  moreover have raw: "rune_quote (take n s) = take n s" using False by (auto simp: rune_quote_def)
  moreover obtain m where "n = Suc m" using assms by (cases n) auto
  ultimately show ?thesis
    using unquote_plain [of a "take m t @ r" n] by (simp add: s raw [unfolded s])
qed

lemma json_unquote_quote: "json_unquote (json_quote s) = Some (utf8_coerce s)"
proof (induction s rule: json_quote.induct)
  case 1
  show ?case by simp
next
  case (2 c s)
  let ?n = "rune_len (c # s)"
  consider "?n = 0" | "?n = 1" | "1 < ?n" by linarith
  then show ?case
  proof cases
    case 1
    with "2.IH" show ?thesis
      by (simp add: json_quote.simps utf8_coerce.simps unquote_unit surrogate_def rune_bytes_specials)
  next
    case 2
    then have "of_char c < (128 :: nat)"
      by (auto simp: rune_len.simps byte_in_def split: if_splits list.splits)
    with 2 "2.IH" show ?thesis
      by (simp add: json_quote.simps utf8_coerce.simps unquote_ascii)
  next
    case 3
    with "2.IH" show ?thesis
      by (simp add: json_quote.simps utf8_coerce.simps unquote_rune Let_def)
  qed
qed


subsection \<open>The scanner over a text\<close>

lemma scan_append:
  "scan (s @ t) m = (case scan s m of None \<Rightarrow> None | Some m' \<Rightarrow> scan t m')"
  by (induction s arbitrary: m) (auto split: option.splits)

lemma scan_append_Some: "scan s m = Some m' \<Longrightarrow> scan (s @ t) m = scan t m'"
  by (simp add: scan_append)

definition string_text :: "string \<Rightarrow> bool" where
  "string_text t \<longleftrightarrow> (\<forall>raw fs. scan t (ScanString StrPlain raw fs) = Some (ScanString StrPlain (rev t @ raw) fs))"

lemma string_text_Nil [simp]: "string_text []"
  by (simp add: string_text_def)

lemma string_text_append [simp]: "string_text s \<Longrightarrow> string_text t \<Longrightarrow> string_text (s @ t)"
  by (simp add: string_text_def scan_append)

lemma string_text_char:
  "0x20 \<le> (of_char c :: nat) \<Longrightarrow> c \<noteq> CHR 0x22 \<Longrightarrow> c \<noteq> CHR 0x5C \<Longrightarrow> string_text [c]"
  by (simp add: string_text_def)

lemma string_text_escape: "simple_escape e \<noteq> None \<Longrightarrow> string_text [CHR 0x5C, e]"
  by (simp add: string_text_def)

lemma string_text_unit [simp]: "n < 0x10000 \<Longrightarrow> string_text (unit_escape n)"
  by (simp add: string_text_def unit_escape_def simple_escape_def hex_val_digit less_mult_imp_div_less)

lemma string_text_high:
  assumes "list_all (\<lambda>c. 0x80 \<le> (of_char c :: nat)) t"
  shows "string_text t"
  using assms
proof (induction t)
  case (Cons c t)
  then have "string_text [c]" by (intro string_text_char) auto
  with Cons show ?case using string_text_append [of "[c]" t] by simp
qed simp

lemma string_text_ascii [simp]:
  assumes "of_char c < (128 :: nat)"
  shows "string_text (ascii_quote c)"
proof (cases "html_safe c \<or> \<not> c \<in> {CHR 0x22, CHR 0x5C, CHR 0x08, CHR 0x0C, CHR 0x0A, CHR 0x0D, CHR 0x09}")
  case True
  then have "html_safe c \<and> ascii_quote c = [c] \<or> ascii_quote c = unit_escape (of_char c)"
    by (auto simp: ascii_quote_def)
  with assms show ?thesis
    by (elim disjE conjE) (auto simp: html_safe_def intro!: string_text_char)
next
  case False
  then obtain e where "ascii_quote c = [CHR 0x5C, e]" "simple_escape e = Some c"
    by (auto simp: ascii_quote_def simple_escape_def html_safe_def)
  then show ?thesis by (simp add: string_text_escape)
qed

lemma rune_high:
  assumes "rune_len s = n" "1 < n"
  shows "list_all (\<lambda>c. 0x80 \<le> (of_char c :: nat)) (take n s)"
  using assms by (cases s rule: rune_len.cases)
    (auto simp: rune_len.simps byte_in_def split: if_splits list.splits)

lemma string_text_rune: "rune_len s = n \<Longrightarrow> 1 < n \<Longrightarrow> string_text (rune_quote (take n s))"
  using string_text_high [OF rune_high, of s n] by (simp add: rune_quote_def)

lemma string_text_quote [intro]: "string_text (json_quote s)"
proof (induction s rule: json_quote.induct)
  case (2 c s)
  consider "rune_len (c # s) = 0" | "rune_len (c # s) = 1" | "1 < rune_len (c # s)" by linarith
  then show ?case
  proof cases
    case 1
    with "2.IH" show ?thesis by (simp add: json_quote.simps)
  next
    case 2
    then have "of_char c < (128 :: nat)"
      by (auto simp: rune_len.simps byte_in_def split: if_splits list.splits)
    with 2 "2.IH" show ?thesis by (simp add: json_quote.simps)
  next
    case 3
    with "2.IH" show ?thesis by (simp add: json_quote.simps Let_def string_text_rune)
  qed
qed simp

lemma scan_quoted:
  "scan (json_quote s @ CHR 0x22 # t) (ScanString StrPlain [] fs) =
     (case fs of InKey ms # fs' \<Rightarrow> scan t (DueColon (InMember ms (utf8_coerce s) # fs'))
      | _ \<Rightarrow> scan t (ValueEnded (JString (utf8_coerce s)) fs))"
  using string_text_quote [of s]
  by (simp add: scan_append string_text_def end_string_def json_unquote_quote split: list.splits frame.splits)


lemma scan_key:
  "scan (json_quote k @ CHR 0x22 # CHR '':'' # t) (ScanString StrPlain [] (InKey ms # fs)) =
     scan t (DueValue (InMember ms (utf8_coerce k) # fs))"
  by (simp add: scan_quoted json_space_def)

subsection \<open>Values\<close>

text \<open>What comes back of a value, and which values do: \<open>json_ok d\<close> allows \<open>d\<close> more levels.\<close>

fun json_canon :: "json \<Rightarrow> json" where
  "json_canon (JString s) = JString (utf8_coerce s)"
| "json_canon (JArray vs) = JArray (map json_canon vs)"
| "json_canon (JObject ms) = JObject (map (\<lambda>(k, v). (utf8_coerce k, json_canon v)) ms)"
| "json_canon v = v"

fun num_run :: "num_state \<Rightarrow> string \<Rightarrow> num_state option" where
  "num_run n [] = Some n"
| "num_run n (c # s) = (case num_step n c of None \<Rightarrow> None | Some n' \<Rightarrow> num_run n' s)"

definition json_number :: "string \<Rightarrow> bool" where
  "json_number s =
     (case s of [] \<Rightarrow> False
      | c # cs \<Rightarrow> (case (if c = CHR ''-'' then Some NumNeg else num_step NumNeg c) of
          None \<Rightarrow> False
        | Some n \<Rightarrow> (case num_run n cs of None \<Rightarrow> False | Some n' \<Rightarrow> num_accepts n')))"

fun json_ok :: "nat \<Rightarrow> json \<Rightarrow> bool" where
  "json_ok d (JNumber n) = json_number n"
| "json_ok d (JArray vs) = (0 < d \<and> (\<forall>v \<in> set vs. json_ok (d - 1) v))"
| "json_ok d (JObject ms) = (0 < d \<and> (\<forall>(k, v) \<in> set ms. json_ok (d - 1) v))"
| "json_ok d v = True"

text \<open>How a state stands after a value's text: the value has ended, or a number may go on.\<close>

definition ends_in :: "scan_state \<Rightarrow> json \<Rightarrow> frame list \<Rightarrow> bool" where
  "ends_in m v fs \<longleftrightarrow> m = ValueEnded v fs \<or>
     (\<exists>n raw. m = ScanNumber n raw fs \<and> num_accepts n \<and> v = JNumber (rev raw))"

lemma ends_in_ended [simp]: "ends_in (ValueEnded v fs) v fs"
  by (simp add: ends_in_def)

definition json_delimiter :: "char \<Rightarrow> bool" where
  "json_delimiter c \<longleftrightarrow> c \<in> {CHR '','', CHR '']'', CHR ''}''} \<or> json_space c"

lemma num_step_delimiter: "json_delimiter c \<Longrightarrow> num_step n c = None"
  by (cases n) (auto simp: json_delimiter_def json_space_def is_digit_def)

lemma ends_in_next: "ends_in m v fs \<Longrightarrow> json_delimiter c \<Longrightarrow> scan_char c m = end_value c v fs"
  by (auto simp: ends_in_def num_step_delimiter)

lemma ends_in_top: "ends_in m v [] \<Longrightarrow> scanned m = Some v"
  by (auto simp: ends_in_def)

lemma scan_number:
  "num_run n s = Some n' \<Longrightarrow> scan s (ScanNumber n raw fs) = Some (ScanNumber n' (rev s @ raw) fs)"
  by (induction s arbitrary: n raw) (auto split: option.splits)

lemma begin_number:
  "json_number s \<Longrightarrow> \<exists>m. scan s (DueValue fs) = Some m \<and> ends_in m (JNumber s) fs"
proof -
  assume ok: "json_number s"
  then obtain c cs n n' where s: "s = c # cs" "(if c = CHR ''-'' then Some NumNeg else num_step NumNeg c) = Some n"
    "num_run n cs = Some n'" "num_accepts n'"
    by (auto simp: json_number_def split: list.splits option.splits)
  have "begin_value c fs = Some (ScanNumber n [c] fs)"
    using s(2) by (auto simp: begin_value_def json_space_def is_digit_def split: if_splits)
  then show ?thesis
    using scan_number [OF s(3)] s(4) by (auto simp: s(1) ends_in_def)
qed

definition value_due :: "frame list \<Rightarrow> bool" where
  "value_due fs \<longleftrightarrow> (case fs of InKey ms # fs' \<Rightarrow> False | _ \<Rightarrow> True)"

lemma begin_marshal:
  assumes "json_ok d v"
  obtains c s where "json_marshal v = c # s" "\<not> json_space c" "c \<noteq> CHR '']''"
proof (cases v)
  case (JNumber n)
  with assms that show thesis
    by (auto simp: json_number_def is_digit_def json_space_def split: list.splits option.splits if_splits)
next
  case (JBool b)
  with that show thesis by (cases b) (auto simp: json_space_def)
qed (use that in \<open>auto simp: json_space_def\<close>)

definition scans_to :: "json \<Rightarrow> bool" where
  "scans_to v \<longleftrightarrow> (\<forall>fs. value_due fs \<longrightarrow> json_ok (maxNestingDepth - length fs) v \<longrightarrow>
     (\<exists>m. scan (json_marshal v) (DueValue fs) = Some m \<and> ends_in m (json_canon v) fs))"

lemma scans_toD:
  "scans_to v \<Longrightarrow> value_due fs \<Longrightarrow> json_ok (maxNestingDepth - length fs) v \<Longrightarrow>
    \<exists>m. scan (json_marshal v) (DueValue fs) = Some m \<and> ends_in m (json_canon v) fs"
  by (simp add: scans_to_def)

lemma scan_elements:
  assumes "\<forall>v \<in> set vs. scans_to v" "vs \<noteq> []"
    and "\<forall>v \<in> set vs. json_ok (maxNestingDepth - Suc (length fs)) v"
  shows "scan (marshal_elements vs @ '']'') (DueValue (InArray acc # fs)) =
    Some (ValueEnded (JArray (rev acc @ map json_canon vs)) fs)"
  using assms
proof (induction vs arbitrary: acc)
  case (Cons v vs)
  then obtain m where m: "scan (json_marshal v) (DueValue (InArray acc # fs)) = Some m"
    "ends_in m (json_canon v) (InArray acc # fs)"
    using scans_toD [of v "InArray acc # fs"] by (auto simp: value_due_def)
  have next_char: "scan_char c m = end_value c (json_canon v) (InArray acc # fs)" if "c \<in> {CHR '','', CHR '']''}" for c
    using that by (intro ends_in_next [OF m(2)]) (auto simp: json_delimiter_def)
  show ?case
  proof (cases "vs = []")
    case True
    then show ?thesis by (simp add: scan_append_Some [OF m(1)] next_char json_space_def)
  next
    case False
    with Cons.IH [of "json_canon v # acc"] Cons.prems show ?thesis
      by (simp add: scan_append_Some [OF m(1)] next_char json_space_def)
  qed
qed simp

lemma scan_members:
  assumes "\<forall>(k, v) \<in> set ms. scans_to v" "ms \<noteq> []"
    and "\<forall>(k, v) \<in> set ms. json_ok (maxNestingDepth - Suc (length fs)) v"
  shows "scan (tl (marshal_members ms) @ ''}'') (ScanString StrPlain [] (InKey acc # fs)) =
    Some (ValueEnded (JObject (rev acc @ map (\<lambda>(k, v). (utf8_coerce k, json_canon v)) ms)) fs)"
  using assms
proof (induction ms arbitrary: acc)
  case (Cons kv ms)
  obtain k v where kv: "kv = (k, v)" by (cases kv)
  let ?fs = "InMember acc (utf8_coerce k) # fs"
  from Cons.prems obtain m where m: "scan (json_marshal v) (DueValue ?fs) = Some m" "ends_in m (json_canon v) ?fs"
    using scans_toD [of v ?fs] by (auto simp: value_due_def kv)
  have next_char: "scan_char c m = end_value c (json_canon v) ?fs" if "c \<in> {CHR '','', CHR ''}''}" for c
    using that by (intro ends_in_next [OF m(2)]) (auto simp: json_delimiter_def)
  show ?case
  proof (cases "ms = []")
    case True
    then show ?thesis
      by (simp add: kv scan_key scan_append_Some [OF m(1)] next_char json_space_def)
  next
    case False
    then obtain k' v' ms' where ms: "ms = (k', v') # ms'" by (cases ms) auto
    from Cons.IH [of "(utf8_coerce k, json_canon v) # acc"] Cons.prems False show ?thesis
      by (simp add: kv ms scan_key scan_append_Some [OF m(1)] next_char json_space_def)
  qed
qed simp

lemma scans_to_array:
  assumes "\<forall>v \<in> set vs. scans_to v"
  shows "scans_to (JArray vs)"
  unfolding scans_to_def
proof (intro allI impI)
  fix fs assume ok: "value_due fs" "json_ok (maxNestingDepth - length fs) (JArray vs)"
  then have deep: "length fs < maxNestingDepth" by simp
  have "scan (json_marshal (JArray vs)) (DueValue fs) = Some (ValueEnded (JArray (map json_canon vs)) fs)"
  proof (cases "vs = []")
    case True
    with deep show ?thesis by (simp add: begin_value_def json_space_def open_frame_def)
  next
    case False
    then obtain v vs' where vs: "vs = v # vs'" by (cases vs) auto
    with ok(2) have "json_ok (maxNestingDepth - length fs - 1) v" by simp
    then obtain c s where c: "json_marshal v = c # s" "\<not> json_space c" "c \<noteq> CHR '']''"
      by (rule begin_marshal)
    then have "scan (marshal_elements vs @ '']'') (DueElement (InArray [] # fs)) =
        scan (marshal_elements vs @ '']'') (DueValue (InArray [] # fs))"
      by (simp add: vs)
    with scan_elements [OF assms False, of fs "[]"] ok(2) deep show ?thesis
      by (simp add: begin_value_def json_space_def open_frame_def)
  qed
  then show "\<exists>m. scan (json_marshal (JArray vs)) (DueValue fs) = Some m \<and> ends_in m (json_canon (JArray vs)) fs"
    by (simp add: ends_in_def)
qed

lemma scans_to_object:
  assumes "\<forall>(k, v) \<in> set ms. scans_to v"
  shows "scans_to (JObject ms)"
  unfolding scans_to_def
proof (intro allI impI)
  fix fs assume ok: "value_due fs" "json_ok (maxNestingDepth - length fs) (JObject ms)"
  then have deep: "length fs < maxNestingDepth" by simp
  have "scan (json_marshal (JObject ms)) (DueValue fs) =
    Some (ValueEnded (JObject (map (\<lambda>(k, v). (utf8_coerce k, json_canon v)) ms)) fs)"
  proof (cases "ms = []")
    case True
    with deep show ?thesis by (simp add: begin_value_def json_space_def open_frame_def)
  next
    case False
    then obtain k v ms' where ms: "ms = (k, v) # ms'" by (cases ms) auto
    from scan_members [OF assms False, of fs "[]"] ok(2) deep show ?thesis
      by (simp add: ms begin_value_def json_space_def open_frame_def)
  qed
  then show "\<exists>m. scan (json_marshal (JObject ms)) (DueValue fs) = Some m \<and> ends_in m (json_canon (JObject ms)) fs"
    by (simp add: ends_in_def)
qed

lemma json_scans: "scans_to v"
proof (induction v rule: json_canon.induct)
  case (1 s)
  show ?case
    by (auto simp: scans_to_def begin_value_def json_space_def scan_quoted value_due_def ends_in_def
        split: list.splits frame.splits)
next
  case (2 vs)
  then show ?case by (simp add: scans_to_array)
next
  case (3 ms)
  then show ?case by (intro scans_to_object) auto
qed (auto simp: scans_to_def begin_value_def json_space_def begin_number)

theorem json_unmarshal_marshal:
  assumes "json_ok maxNestingDepth v"
  shows "json_unmarshal (json_marshal v) = Some (json_canon v)"
  using scans_toD [OF json_scans, of "[]" v] assms
  by (auto simp: value_due_def json_unmarshal_def ends_in_top)


subsection \<open>Bodies\<close>

text \<open>What \<open>Unmarshal\<close> takes as one value, a decoder reads as that value and then the end of the input.\<close>

lemma scan_after_value:
  "scan s (ValueEnded v []) = Some m \<Longrightarrow> list_all json_space s \<and> m = ValueEnded v []"
  by (induction s) (auto split: if_splits)

lemma read_spaces: "list_all json_space s \<Longrightarrow> read_values (DueValue []) s = ([], EndOfInput)"
  by (induction s) (auto simp: continues_def begin_value_def)

lemma scanned_cases:
  "scanned m = Some v \<Longrightarrow> m = ValueEnded v [] \<or> (\<exists>n raw. m = ScanNumber n raw [] \<and> num_accepts n \<and> v = JNumber (rev raw))"
  by (cases m rule: scanned.cases) (auto split: if_splits)

lemma read_scanned:
  "scan s m = Some m' \<Longrightarrow> scanned m' = Some v \<Longrightarrow> read_values m s = ([v], EndOfInput)"
proof (induction s arbitrary: m)
  case (Cons c s)
  then obtain m1 where m1: "scan_char c m = Some m1" "scan s m1 = Some m'"
    by (auto split: option.splits)
  show ?case
  proof (cases "continues m c \<or> scanned m = None")
    case True
    with m1 Cons show ?thesis by auto
  next
    case False
    then obtain u where u: "scanned m = Some u" "\<not> continues m c" by auto
    have "scan_char c m = end_value c u []"
      using scanned_cases [OF u(1)] u(2) by (auto simp: continues_def)
    with m1 have "json_space c" "m1 = ValueEnded u []" by (auto split: if_splits)
    with scan_after_value [of s u m'] m1 Cons.prems u show ?thesis
      by (auto simp: begin_value_def read_spaces)
  qed
qed auto

lemma read_unmarshalled: "json_unmarshal s = Some v \<Longrightarrow> read_values (DueValue []) s = ([v], EndOfInput)"
  by (auto simp: json_unmarshal_def read_scanned split: option.splits)

lemma end_value_not_due:
  "end_value c v fs \<noteq> Some (DueValue [])" "end_value c v fs \<noteq> Some (DueColon [])"
  by (cases "(c, v, fs)" rule: end_value.cases; auto)+

lemma scan_spaces: "list_all json_space s \<Longrightarrow> scan s (ValueEnded v []) = Some (ValueEnded v [])"
  by (induction s) auto

text \<open>And only that: a body read as one value and the end of the input is one value's text.\<close>

lemma scan_char_open:
  assumes "m \<noteq> DueColon []"
  shows "scan_char c m \<noteq> Some (DueColon [])"
    and "scan_char c m = Some (DueValue []) \<Longrightarrow> m = DueValue [] \<and> json_space c"
  using assms by (cases "(c, m)" rule: scan_char.cases;
      auto simp: begin_value_def open_frame_def end_string_def end_value_not_due
        split: if_splits option.splits list.splits frame.splits)+

lemma read_nothing:
  "read_values m s = ([], EndOfInput) \<Longrightarrow> m \<noteq> DueColon [] \<Longrightarrow> m = DueValue [] \<and> list_all json_space s"
proof (induction s arbitrary: m)
  case Nil
  then show ?case by (auto split: option.splits if_splits)
next
  case (Cons c s)
  then obtain m1 where m1: "scan_char c m = Some m1" "read_values m1 s = ([], EndOfInput)"
    by (auto split: option.splits if_splits prod.splits)
  then have "m1 = DueValue []" "list_all json_space s"
    using Cons.IH scan_char_open(1) [OF Cons.prems(2)] by metis+
  with m1 scan_char_open(2) [OF Cons.prems(2)] show ?case by simp
qed

lemma read_one_value:
  "read_values m s = ([v], EndOfInput) \<Longrightarrow> \<exists>m'. scan s m = Some m' \<and> scanned m' = Some v"
proof (induction s arbitrary: m)
  case Nil
  then show ?case by (auto split: option.splits)
next
  case (Cons c s)
  show ?case
  proof (cases "continues m c \<or> scanned m = None")
    case True
    with Cons show ?thesis by (auto split: option.splits if_splits)
  next
    case False
    then obtain u m1 where u: "scanned m = Some u" "\<not> continues m c" "begin_value c [] = Some m1" "u = v"
      "read_values m1 s = ([], EndOfInput)"
      using Cons.prems by (auto split: option.splits prod.splits)
    moreover have "m1 \<noteq> DueColon []"
      using u(3) by (auto simp: begin_value_def open_frame_def split: if_splits)
    ultimately have "m1 = DueValue []" and spaces: "list_all json_space s" using read_nothing by blast+
    then have "json_space c"
      using u(3) by (auto simp: begin_value_def open_frame_def split: if_splits)
    moreover have "scan_char c m = end_value c u []"
      using scanned_cases [OF u(1)] u(2) by (auto simp: continues_def)
    ultimately show ?thesis
      using u(4) scan_spaces [OF spaces] by simp
  qed
qed

lemma read_unmarshal_iff: "read_values (DueValue []) s = ([v], EndOfInput) \<longleftrightarrow> json_unmarshal s = Some v"
  using read_one_value [of "DueValue []" s v] read_unmarshalled [of s v] by (auto simp: json_unmarshal_def)

lemma read_body_iff: "read_body cap s = ([v], EndOfInput) \<longleftrightarrow> length s \<le> cap \<and> json_unmarshal s = Some v"
  by (auto simp: read_body_def read_unmarshal_iff split_beta Let_def)

lemma read_marshalled:
  assumes "json_ok maxNestingDepth v" "length (json_marshal v) \<le> cap"
  shows "read_body cap (json_marshal v) = ([json_canon v], EndOfInput)"
  using json_unmarshal_marshal [OF assms(1)] assms(2) by (simp add: read_body_iff)

lemma read_over_cap:
  assumes "cap < length s"
  shows "snd (read_body cap s) \<noteq> EndOfInput"
  using assms by (simp add: read_body_def split_beta Let_def)

end
