(* ===== verification/Request_Text.thy ===== *)
theory Request_Text
  imports Facilitator_Server Json_Roundtrip
begin

text \<open>
  \<open>decodeRequest\<close> of \<open>facilitator/facilitator.go\<close> from the bytes of the body on: the decoder under its
  cap of 1 MiB. What it takes is one JSON value and no more, and a request that was written is the
  request that is read.
\<close>

definition maxRequestBytes :: nat where "maxRequestBytes = 1048576"

definition readRequest :: "string \<Rightarrow> http_answer + request" where
  "readRequest s = decodeRequest (read_body maxRequestBytes s)"

lemma decodeRequest_one_value: "decodeRequest body = Inr rq \<Longrightarrow> \<exists>v. body = ([v], EndOfInput)"
  by (cases body) (auto simp: decodeRequest_def split: list.splits option.splits if_splits)

text \<open>
  C17. The facilitator reads a body as a request exactly when its bytes, at most 1 MiB of them, are the
  text of one JSON value and that value is a request. So a body followed by anything but white space
  is refused, and no second reader of the same bytes can find another request in them.
\<close>

theorem readRequest_iff:
  "readRequest s = Inr rq \<longleftrightarrow>
     length s \<le> 1048576 \<and> (\<exists>v. json_unmarshal s = Some v \<and> decodeRequest ([v], EndOfInput) = Inr rq)"
proof -
  have "readRequest s = Inr rq \<longleftrightarrow>
      (\<exists>v. read_body maxRequestBytes s = ([v], EndOfInput) \<and> decodeRequest ([v], EndOfInput) = Inr rq)"
    unfolding readRequest_def using decodeRequest_one_value [of "read_body maxRequestBytes s" rq] by auto
  then show ?thesis unfolding read_body_iff by (auto simp: maxRequestBytes_def)
qed

text \<open>The value a caller writes: the version and the two documents.\<close>

definition request_json :: "json \<Rightarrow> json \<Rightarrow> json" where
  "request_json p r =
     JObject [(''x402Version'', JNumber ''2''), (''paymentPayload'', p), (''paymentRequirements'', r)]"

lemma request_keys:
  "utf8_coerce ''x402Version'' = ''x402Version''" "utf8_coerce ''paymentPayload'' = ''paymentPayload''"
  "utf8_coerce ''paymentRequirements'' = ''paymentRequirements''"
  by (simp_all add: utf8_ascii)

lemma decode_request_json:
  "decodeRequest ([json_canon (request_json p r)], EndOfInput) = Inr rq \<longleftrightarrow>
     (\<exists>n scheme. into_struct payload_fields (json_canon p) 0 = Some n \<and>
        into_struct requirements_fields (json_canon r) '''' = Some scheme \<and>
        rq = \<lparr>rq_version = 2, rq_payload = Some (json_canon p), rq_requirements = Some (json_canon r),
          rq_payload_version = n, rq_requirements_scheme = scheme\<rparr>)"
  by (auto simp: decodeRequest_def request_json_def request_keys request_fields_def field_of_def into_raw_def
      decodePresent_def zero_request_def parse_int_examples split: option.splits)

lemma request_is_read:
  assumes "json_ok maxNestingDepth (request_json p r)" "length (json_marshal (request_json p r)) \<le> 1048576"
    and "into_struct payload_fields (json_canon p) 0 = Some n"
    and "into_struct requirements_fields (json_canon r) '''' = Some scheme"
  shows "readRequest (json_marshal (request_json p r)) = Inr
    \<lparr>rq_version = 2, rq_payload = Some (json_canon p), rq_requirements = Some (json_canon r),
     rq_payload_version = n, rq_requirements_scheme = scheme\<rparr>"
proof -
  have "read_body maxRequestBytes (json_marshal (request_json p r)) = ([json_canon (request_json p r)], EndOfInput)"
    using read_marshalled [OF assms(1)] assms(2) by (simp add: maxRequestBytes_def)
  then show ?thesis
    using assms(3,4) by (simp add: readRequest_def decode_request_json)
qed

text \<open>
  C18. A request round trips: of the text a caller writes for a payload and requirements, within the
  size and nesting the facilitator reads, it reads the version and the same two documents, byte
  sequences in them that are not UTF-8 apart, whenever the payload's version and the requirements'
  scheme can be read at all.
\<close>

theorem request_roundtrip:
  assumes "json_ok maxNestingDepth (request_json p r)" "length (json_marshal (request_json p r)) \<le> 1048576"
    and "into_struct payload_fields (json_canon p) 0 = Some n"
    and "into_struct requirements_fields (json_canon r) '''' = Some scheme"
  shows "readRequest (json_marshal (request_json p r)) = Inr
    \<lparr>rq_version = 2, rq_payload = Some (json_canon p), rq_requirements = Some (json_canon r),
     rq_payload_version = n, rq_requirements_scheme = scheme\<rparr>"
  using assms by (rule request_is_read)

text \<open>Two documents that hold what the transport itself reads.\<close>

definition sample_payload :: json where "sample_payload = JObject [(''x402Version'', JNumber ''2'')]"
definition sample_requirements :: json where "sample_requirements = JObject [(''scheme'', JString ''exact'')]"

lemma sample_documents:
  "json_canon sample_payload = sample_payload" "json_canon sample_requirements = sample_requirements"
  "json_ok maxNestingDepth (request_json sample_payload sample_requirements)"
  "length (json_marshal (request_json sample_payload sample_requirements)) \<le> 1048576"
  "into_struct payload_fields sample_payload 0 = Some 2"
  "into_struct requirements_fields sample_requirements '''' = Some ''exact''"
proof -
  have quotes: "json_quote ''scheme'' = ''scheme''" "json_quote ''exact'' = ''exact''"
    "json_quote ''x402Version'' = ''x402Version''" "json_quote ''paymentPayload'' = ''paymentPayload''"
    "json_quote ''paymentRequirements'' = ''paymentRequirements''"
    by (simp_all add: json_quote.simps rune_len_ascii ascii_quote_def html_safe_def)
  show "json_canon sample_payload = sample_payload" "json_canon sample_requirements = sample_requirements"
    by (simp_all add: sample_payload_def sample_requirements_def utf8_ascii)
  show "into_struct payload_fields sample_payload 0 = Some 2"
    "into_struct requirements_fields sample_requirements '''' = Some ''exact''"
    by (simp_all add: sample_payload_def sample_requirements_def payload_fields_def requirements_fields_def
        field_of_def parse_int_examples)
  show "json_ok maxNestingDepth (request_json sample_payload sample_requirements)"
    by (simp add: sample_payload_def sample_requirements_def request_json_def maxNestingDepth_def json_number_def
        is_digit_def num_accepts_def)
  show "length (json_marshal (request_json sample_payload sample_requirements)) \<le> 1048576"
    by (simp add: sample_payload_def sample_requirements_def request_json_def quotes)
qed

theorem request_roundtrip_witness:
  "\<exists>rq. readRequest (json_marshal (request_json sample_payload sample_requirements)) = Inr rq \<and>
     rq_payload_version rq = 2 \<and> rq_requirements_scheme rq = ''exact''"
  using request_roundtrip [of sample_payload sample_requirements 2 "''exact''"] sample_documents by simp

end
