(* ===== verification/Keybase_Signer.thy ===== *)
theory Keybase_Signer
  imports Buyer_Example
begin

text \<open>
  \<open>client/exact/keybase/keybase.go\<close>: the signer that pays with a key a tm2 keybase holds. The keybase is
  the record \<open>keybase\<close>, its two calls into the world and its names for the types of keys; the mutex around each makes it one step. The key is
  resolved once, by name, and found again by its address for every signature.
\<close>

datatype key_type = TypeLocal | TypeLedger | TypeOffline | TypeMulti

record 'pk key_info =
  ki_type :: key_type
  ki_address :: address
  ki_pub_key :: 'pk

record ('pk, 'w) keybase =
  kb_get :: "string \<Rightarrow> 'w \<Rightarrow> (go_error + 'pk key_info) \<times> 'w"
  kb_sign :: "string \<Rightarrow> string \<Rightarrow> bytes \<Rightarrow> 'w \<Rightarrow> (go_error + bytes \<times> 'pk option) \<times> 'w"
  kb_type_text :: "key_type \<Rightarrow> string"

record ('pk, 'w) keybaseSigner =
  ks_kb :: "('pk, 'w) keybase"
  ks_address :: string
  ks_password :: string
  ks_pub :: 'pk

definition Signer ::
    "'pk gno_lib \<Rightarrow> ('pk, 'w) keybase \<Rightarrow> string \<Rightarrow> string \<Rightarrow> 'w \<Rightarrow> (go_error + ('pk, 'w) keybaseSigner) \<times> 'w" where
  "Signer lib kb nameOrBech32 password w =
     (case kb_get kb nameOrBech32 w of
        (Inl err, w1) \<Rightarrow> (Inl err, w1)
      | (Inr info, w1) \<Rightarrow>
          if ki_type info = TypeOffline \<or> ki_type info = TypeMulti
          then (Inl (ErrorString (''key '' @ nameOrBech32 @ '' is an '' @ kb_type_text kb (ki_type info) @ '' key, which cannot sign'')), w1)
          else (Inr \<lparr>ks_kb = kb, ks_address = address_string lib (ki_address info), ks_password = password,
                 ks_pub = ki_pub_key info\<rparr>, w1))"

definition keybase_Sign ::
    "'pk gno_lib \<Rightarrow> ('pk, 'w) keybaseSigner \<Rightarrow> bytes \<Rightarrow> 'w \<Rightarrow> (go_error + bytes) \<times> 'w" where
  "keybase_Sign lib s msg w =
     (case kb_sign (ks_kb s) (ks_address s) (ks_password s) msg w of
        (Inl err, w1) \<Rightarrow> (Inl err, w1)
      | (Inr (sig, pub), w1) \<Rightarrow>
          (case pub of
             None \<Rightarrow> (Inl (ErrorString (''key '' @ ks_address s @ '' signed with a public key other than its own'')), w1)
           | Some pk \<Rightarrow>
               if \<not> pk_equals lib pk (ks_pub s)
               then (Inl (ErrorString (''key '' @ ks_address s @ '' signed with a public key other than its own'')), w1)
               else (Inr sig, w1)))"

text \<open>The signer as the mechanism takes it: \<open>PubKey\<close> and \<open>Sign\<close>.\<close>

definition keybase_signer :: "'pk gno_lib \<Rightarrow> ('pk, 'w) keybaseSigner \<Rightarrow> ('pk, 'w) signer" where
  "keybase_signer lib s = \<lparr>sg_pub_key = Some (ks_pub s), sg_sign = keybase_Sign lib s\<rparr>"

lemma Signer_iff:
  "Signer lib kb name password w = (Inr s, w') \<longleftrightarrow>
     (\<exists>info. kb_get kb name w = (Inr info, w') \<and> ki_type info \<in> {TypeLocal, TypeLedger} \<and>
        s = \<lparr>ks_kb = kb, ks_address = address_string lib (ki_address info), ks_password = password,
          ks_pub = ki_pub_key info\<rparr>)"
proof -
  have "ki_type info \<in> {TypeLocal, TypeLedger} \<longleftrightarrow> ki_type info \<noteq> TypeOffline \<and> ki_type info \<noteq> TypeMulti"
    for info :: "'a key_info" by (cases "ki_type info") auto
  then show ?thesis by (auto simp: Signer_def split: prod.splits sum.splits)
qed

lemma keybase_Sign_iff:
  "keybase_Sign lib s msg w = (Inr sig, w') \<longleftrightarrow>
     (\<exists>pk. kb_sign (ks_kb s) (ks_address s) (ks_password s) msg w = (Inr (sig, Some pk), w') \<and>
        pk_equals lib pk (ks_pub s))"
  by (auto simp: keybase_Sign_def split: prod.splits sum.splits option.splits)

lemma CreatePaymentPayload_signed:
  assumes "CreatePaymentPayload s ctx_error req cap w = (Inr sp, w')"
  obtains sg p w1 msg sig where "egs_signer s = Some sg" "SignBytes (egs_lib s) p = Inr msg"
    "Prepare (egs_lib s) (egs_node s) (sg_pub_key sg) (egs_master s) req cap w = (Inr p, w1)"
    "sg_sign sg msg w1 = (Inr sig, w')" "Payload (egs_lib s) p sig = Inr sp"
proof -
  obtain sg where sg: "egs_signer s = Some sg"
    using assms by (cases "egs_signer s") (auto simp: CreatePaymentPayload_def)
  obtain r w1 where r: "Prepare (egs_lib s) (egs_node s) (sg_pub_key sg) (egs_master s) req cap w = (r, w1)"
    by fastforce
  obtain p where p: "r = Inr p"
    using assms sg r by (cases r) (auto simp: CreatePaymentPayload_def split: if_splits)
  show thesis
    using assms sg r p that
    by (auto simp: CreatePaymentPayload_def split: if_splits option.splits sum.splits prod.splits)
qed

text \<open>
  C20. A payment made with a keybase's key is signed by the key that was resolved when the signer was
  made, whatever the keybase holds by then: that key is one the keybase can sign with, the payment
  names its public key, and the signature in it is one the keybase returned for the key's address
  together with an equal public key.
\<close>

theorem payload_signed_by_resolved_key:
  assumes "Signer lib kb name password w0 = (Inr ks, w)" "egs_lib s = lib"
    and "egs_signer s = Some (keybase_signer lib ks)"
    and "CreatePaymentPayload s ctx_error req cap w1 = (Inr sp, w2)"
  shows "\<exists>info p msg sig pk w'. kb_get kb name w0 = (Inr info, w) \<and> ki_type info \<in> {TypeLocal, TypeLedger} \<and>
    fst (Prepare lib (egs_node s) (Some (ki_pub_key info)) (egs_master s) req cap w1) = Inr p \<and>
    SignBytes lib p = Inr msg \<and> Payload lib p sig = Inr sp \<and>
    kb_sign kb (address_string lib (ki_address info)) password msg w' = (Inr (sig, Some pk), w2) \<and>
    pk_equals lib pk (ki_pub_key info)"
proof -
  obtain info where info: "kb_get kb name w0 = (Inr info, w)" "ki_type info \<in> {TypeLocal, TypeLedger}"
    "ks = \<lparr>ks_kb = kb, ks_address = address_string lib (ki_address info), ks_password = password,
      ks_pub = ki_pub_key info\<rparr>"
    using assms(1) unfolding Signer_iff by blast
  obtain sg p w' msg sig where c: "egs_signer s = Some sg" "SignBytes (egs_lib s) p = Inr msg"
    "Prepare (egs_lib s) (egs_node s) (sg_pub_key sg) (egs_master s) req cap w1 = (Inr p, w')"
    "sg_sign sg msg w' = (Inr sig, w2)" "Payload (egs_lib s) p sig = Inr sp"
    by (rule CreatePaymentPayload_signed [OF assms(4)])
  have sg: "sg_pub_key sg = Some (ki_pub_key info)" "keybase_Sign lib ks msg w' = (Inr sig, w2)"
    using c(1,4) assms(3) info(3) by (auto simp: keybase_signer_def)
  from sg(2) obtain pk where
    "kb_sign kb (address_string lib (ki_address info)) password msg w' = (Inr (sig, Some pk), w2)"
    "pk_equals lib pk (ki_pub_key info)"
    unfolding keybase_Sign_iff info(3) by auto
  with info(1,2) c(2,3,5) sg(1) assms(2) show ?thesis by fastforce
qed

subsection \<open>A keybase, concretely\<close>

definition buyer_keybase :: "(nat, unit) keybase" where
  "buyer_keybase = \<lparr>kb_get = (\<lambda>name w. (if name = ''buyer''
       then Inr \<lparr>ki_type = TypeLocal, ki_address = Address Payer, ki_pub_key = 11\<rparr>
       else Inl (ErrorString ''no key''), w)),
     kb_sign = (\<lambda>a pw msg w. (if a = Payer then Inr (''sig'', Some 11) else Inl (ErrorString ''no key''), w)),
     kb_type_text = (\<lambda>t. ''local'')\<rparr>"

theorem payload_signed_by_resolved_key_witness:
  "\<exists>ks sp p. Signer buyer_lib buyer_keybase ''buyer'' '''' () = (Inr ks, ()) \<and>
     fst (CreatePaymentPayload (buyer_scheme\<lparr>egs_signer := Some (keybase_signer buyer_lib ks)\<rparr>)
       (\<lambda>_. None) Requirements '''' ()) = Inr sp \<and>
     Payload buyer_lib p ''sig'' = Inr sp"
proof -
  define ks :: "(nat, unit) keybaseSigner" where
    "ks = \<lparr>ks_kb = buyer_keybase, ks_address = Payer, ks_password = '''', ks_pub = 11\<rparr>"
  have ks: "Signer buyer_lib buyer_keybase ''buyer'' '''' () = (Inr ks, ())"
    by (simp add: Signer_def buyer_keybase_def buyer_lib_simps(3) ks_def)
  have "pk_equals buyer_lib 11 11" by (simp add: buyer_lib_def test_lib_def)
  then have sign: "keybase_signer buyer_lib ks = buyer_signer"
    by (simp add: keybase_signer_def buyer_signer_def keybase_Sign_def fun_eq_iff ks_def buyer_keybase_def)
  let ?s = "buyer_scheme\<lparr>egs_signer := Some (keybase_signer buyer_lib ks)\<rparr>"
  have "?s = buyer_scheme" by (simp add: sign buyer_scheme_def NewExactGnoScheme_def)
  then obtain sp where made: "CreatePaymentPayload ?s (\<lambda>_. None) Requirements '''' () = (Inr sp, ())"
    using buyer_creates by simp
  have "egs_lib ?s = buyer_lib" "egs_signer ?s = Some (keybase_signer buyer_lib ks)"
    by (simp_all add: buyer_fields)
  from payload_signed_by_resolved_key [OF ks this made] obtain p sig pk where
    "Payload buyer_lib p sig = Inr sp" "kb_sign buyer_keybase Payer '''' b () = (Inr (sig, Some pk), ())" for b
    by (auto simp: buyer_keybase_def buyer_lib_simps(3))
  then have "Payload buyer_lib p ''sig'' = Inr sp" by (simp add: buyer_keybase_def)
  with ks made show ?thesis by auto
qed

end
