(* ===== verification/Rate_Sustained.thy ===== *)
theory Rate_Sustained
  imports Rate_Limiter
begin

text \<open>
  What the facilitator's limiter grants one peer over a stretch of time, and that it grants again after
  a wait. The limiter is a \<open>metered\<close> throttle: a peer's level is its bucket's, or the burst while the
  table has none for it, and a nanosecond raises it by at most the rate, rounding included.
\<close>

definition effective_rate :: "RateLimit \<Rightarrow> rat" where
  "effective_rate cfg = (case PerSecond cfg of Fin r \<Rightarrow> if r \<le> 0 then DefaultRatePerSecond else r | _ \<Rightarrow> 0)"

lemma effective_rate_pos: "plain_config cfg \<Longrightarrow> 0 < effective_rate cfg"
  by (auto simp: effective_rate_def plain_config_def DefaultRatePerSecond_def)

lemma effective_burst_pos: "1 \<le> effective_burst cfg"
  by (simp add: effective_burst_def DefaultRateBurst_def)

lemma new_rate: "plain_config cfg \<Longrightarrow> rl_rate (newRateLimiter cfg) = Fin (effective_rate cfg)"
  by (auto simp: plain_config_def newRateLimiter_def Let_def effective_rate_def)

lemma allow_rate: "rl_rate (snd (allow now key l)) = rl_rate l"
  by (simp add: allow_def)

lemma serve_all_rate: "rl_rate (snd (serve_all reqs l)) = rl_rate l"
  by (induction reqs arbitrary: l) (auto simp: serve_all_Cons allow_rate)

subsection \<open>A peer's level\<close>

text \<open>Seconds of inflow since the bucket was last touched; none while its date lies ahead.\<close>

definition peer_level :: "rat \<Rightarrow> int \<Rightarrow> string \<Rightarrow> instant \<Rightarrow> rateLimiter \<Rightarrow> rat" where
  "peer_level r N key t l =
     (case gm_get (rl_buckets l) key of
        None \<Rightarrow> of_int N
      | Some b \<Rightarrow>
          (case bk_tokens b of
             Fin x \<Rightarrow> min (of_int N) (x + inflow r N / 1000000000 * of_int (max 0 (t - bk_last b)))
           | _ \<Rightarrow> of_int N))"

definition peer_ok :: "rat \<Rightarrow> int \<Rightarrow> instant \<Rightarrow> rateLimiter \<Rightarrow> bool" where
  "peer_ok r N t l \<longleftrightarrow> limiter_ok N l \<and> 1 \<le> N \<and> rl_rate l = Fin r \<and> 0 \<le> r"

lemma peer_okD:
  assumes "peer_ok r N t l"
  shows "limiter_ok N l" "1 \<le> N" "N \<le> 2 ^ 53" "rl_rate l = Fin r" "0 \<le> r" "0 \<le> inflow r N"
    "rl_burst l = Fin (of_int N)" "gm_ok (rl_buckets l)"
  using assms limiter_okD [of N l] inflow_pos [of r N] by (auto simp: peer_ok_def)

lemma peer_ok_allow: "peer_ok r N t l \<Longrightarrow> peer_ok r N u (snd (allow now key l))"
  by (simp add: peer_ok_def allow_limiter_ok allow_rate)

lemma peer_level_nonneg:
  assumes "peer_ok r N t l"
  shows "0 \<le> peer_level r N key u l"
proof (cases "gm_get (rl_buckets l) key")
  case (Some b)
  with limiter_okD(5) [OF peer_okD(1) [OF assms] Some] peer_okD(2,6) [OF assms]
  show ?thesis by (auto simp: peer_level_def level_ok_def)
qed (use peer_okD(2) [OF assms] in \<open>simp add: peer_level_def\<close>)

text \<open>Time alone raises the level by no more than the inflow.\<close>

lemma peer_level_later:
  assumes "peer_ok r N t l" "t \<le> now"
  shows "peer_level r N key now l \<le> peer_level r N key t l + inflow r N / 1000000000 * of_int (now - t)"
proof -
  let ?c = "inflow r N / 1000000000"
  have c: "0 \<le> ?c" using peer_okD(6) [OF assms(1)] by simp
  have gain: "0 \<le> ?c * of_int (now - t)" using c assms(2) by simp
  show ?thesis
  proof (cases "gm_get (rl_buckets l) key")
    case (Some b)
    with limiter_okD(5) [OF peer_okD(1) [OF assms(1)] Some] obtain x where x: "bk_tokens b = Fin x"
      by (auto simp: level_ok_def)
    have "max 0 (now - bk_last b) \<le> max 0 (t - bk_last b) + (now - t)" using assms(2) by simp
    then have "(of_int (max 0 (now - bk_last b)) :: rat) \<le> of_int (max 0 (t - bk_last b) + (now - t))"
      by (simp only: of_int_le_iff)
    from mult_left_mono [OF this c]
    have "?c * of_int (max 0 (now - bk_last b)) \<le> ?c * of_int (max 0 (t - bk_last b)) + ?c * of_int (now - t)"
      by (simp only: of_int_add distrib_left)
    with gain Some x show ?thesis by (simp add: peer_level_def min_def)
  qed (use gain in \<open>simp add: peer_level_def\<close>)
qed

lemma refilled_level:
  assumes ok: "peer_ok r N t l" and b: "gm_get (rl_buckets l) key = Some b" and now: "bk_last b \<le> now"
  obtains y where "f_min (refilled l now b) (rl_burst l) = Fin y" "y \<le> peer_level r N key now l"
proof -
  obtain x where x: "bk_tokens b = Fin x" "0 \<le> x" "x \<le> of_int N" "f_round x = Fin x"
    using limiter_okD(5) [OF peer_okD(1) [OF ok] b] by (auto simp: level_ok_def)
  let ?d = "dur_sub now (bk_last b)" and ?c = "inflow r N / 1000000000"
  have d: "0 \<le> ?d" "?d \<le> 2 ^ 63" "?d \<le> now - bk_last b"
    using now dur_sub_small [of now "bk_last b"] by (auto simp: dur_sub_nonneg_iff dur_sub_def)
  obtain y where y: "f_min (f_add (Fin x) (f_mul (dur_seconds ?d) (Fin r))) (Fin (of_int N)) = Fin y"
    "y \<le> of_int N" "y \<le> x + of_int ?d / 1000000000 * inflow r N"
    by (rule refill_bounds [OF x(2-4) peer_okD(2,3,5) [OF ok] d(1,2)])
  have "?c * of_int ?d \<le> ?c * of_int (now - bk_last b)"
    using d(3) peer_okD(6) [OF ok] by (intro mult_left_mono) (simp_all del: of_int_diff)
  then have "of_int ?d / 1000000000 * inflow r N \<le> ?c * of_int (now - bk_last b)" by (simp add: ac_simps)
  with y b x(1) now have "y \<le> peer_level r N key now l" by (simp add: peer_level_def)
  with y(1) that [of y] x(1) peer_okD(4,7) [OF ok] show thesis by (simp add: refilled_def)
qed

lemma peer_level_sweep:
  assumes ok: "peer_ok r N t l"
  shows "peer_level r N key now (sweepFull now l) \<le> peer_level r N key now l"
proof (cases "gm_get (rl_buckets (sweepFull now l)) key")
  case (Some b)
  from sweep_get [OF peer_okD(8) [OF ok] Some] Some show ?thesis by (simp add: peer_level_def)
next
  case None
  show ?thesis
  proof (cases "gm_get (rl_buckets l) key")
    case absent: None
    with None show ?thesis by (simp add: peer_level_def)
  next
    case (Some b)
    note full = swept_is_full [OF peer_okD(1) [OF ok] Some sweep_get_None [OF peer_okD(8) [OF ok] Some None]]
    have "of_int N \<le> peer_level r N key now l"
    proof (cases "now < bk_last b")
      case True
      with full Some peer_okD(7) [OF ok] show ?thesis by (simp add: peer_level_def)
    next
      case False
      then have le: "bk_last b \<le> now" by simp
      obtain y where "f_min (refilled l now b) (rl_burst l) = Fin y" "y \<le> peer_level r N key now l"
        by (rule refilled_level [OF ok Some le])
      with False full peer_okD(7) [OF ok] show ?thesis by simp
    qed
    with None show ?thesis by (simp add: peer_level_def)
  qed
qed

text \<open>A grant comes out of the level, whole.\<close>

lemma peer_level_spend:
  assumes ok: "peer_ok r N t l"
  shows "peer_level r N key now (snd (spend now key l)) + (if fst (spend now key l) then 1 else 0)
    \<le> peer_level r N key now l"
proof -
  from spend_level [OF peer_okD(1) [OF ok], of now key] consider "spend now key l = (False, l)"
    | b where "level_ok N b" "bk_last b = now" "spend now key l = take_token key b l"
      "\<forall>b0. gm_get (rl_buckets l) key = Some b0 \<longrightarrow>
          bk_tokens b = (if now < bk_last b0 then bk_tokens b0 else f_min (refilled l now b0) (rl_burst l))"
    by blast
  then show ?thesis
  proof cases
    case 1
    then show ?thesis by simp
  next
    case (2 b)
    obtain z where z: "bk_tokens b = Fin z" "0 \<le> z" "z \<le> of_int N" "f_round z = Fin z"
      using 2(1) by (auto simp: level_ok_def)
    have z_le: "z \<le> peer_level r N key now l"
    proof (cases "gm_get (rl_buckets l) key")
      case None
      with z(3) show ?thesis by (simp add: peer_level_def)
    next
      case (Some b0)
      show ?thesis
      proof (cases "now < bk_last b0")
        case True
        with 2(4) Some z(1) have "bk_tokens b0 = Fin z" by simp
        with True Some z(3) show ?thesis by (simp add: peer_level_def)
      next
        case False
        then have le: "bk_last b0 \<le> now" by simp
        obtain y where "f_min (refilled l now b0) (rl_burst l) = Fin y" "y \<le> peer_level r N key now l"
          by (rule refilled_level [OF ok Some le])
        with 2(4) Some z(1) False show ?thesis by simp
      qed
    qed
    have "z \<le> 2 ^ 53"
    proof -
      have "(of_int N :: rat) \<le> of_int (2 ^ 53)" using peer_okD(3) [OF ok] by (simp only: of_int_le_iff)
      with z(3) show ?thesis by simp
    qed
    then have exact: "1 \<le> z \<Longrightarrow> f_round (z - 1) = Fin (z - 1)" using take_one_exact z(4) by blast
    show ?thesis
      using 2(2,3) z z_le exact by (simp add: take_token_def Let_def peer_level_def gm_simps f_sub_def min_def)
  qed
qed

lemma peer_level_other:
  assumes "k \<noteq> key"
  shows "peer_level r N key now (snd (spend now k l)) = peer_level r N key now l"
proof -
  have "gm_get (rl_buckets (snd (spend now k l))) key = gm_get (rl_buckets l) key"
    using assms by (auto simp: spend_def take_token_def Let_def gm_simps split: option.splits)
  then show ?thesis by (simp add: peer_level_def)
qed

lemma peer_level_allow:
  assumes ok: "peer_ok r N t l" and t: "t \<le> now"
  shows "peer_level r N key now (snd (allow now k l)) + (if k = key \<and> fst (allow now k l) then 1 else 0)
    \<le> peer_level r N key t l + inflow r N / 1000000000 * of_int (now - t)"
proof -
  have sweep_ok: "peer_ok r N now (sweepFull now l)"
    using ok by (simp add: peer_ok_def sweepFull_limiter_ok)
  have "peer_level r N key now (snd (allow now k l)) + (if k = key \<and> fst (allow now k l) then 1 else 0)
    \<le> peer_level r N key now (sweepFull now l)"
    using peer_level_spend [OF sweep_ok, of key now] peer_level_other [of k key]
    by (cases "k = key") (auto simp: allow_def)
  also have "\<dots> \<le> peer_level r N key now l" by (rule peer_level_sweep [OF ok])
  also have "\<dots> \<le> peer_level r N key t l + inflow r N / 1000000000 * of_int (now - t)"
    by (rule peer_level_later [OF ok t])
  finally show ?thesis .
qed

text \<open>The interface holds for a size and a rate a limiter can have.\<close>

definition peer_invariant :: "rat \<Rightarrow> int \<Rightarrow> instant \<Rightarrow> rateLimiter \<Rightarrow> bool" where
  "peer_invariant r N t l \<longleftrightarrow> peer_ok (max 0 r) (max 1 N) t l"

interpretation peer_meter: metered "\<lambda>(now, k). allow now k" "\<lambda>k. k = key" "peer_invariant r N"
    "peer_level (max 0 r) (max 1 N) key" "inflow (max 0 r) (max 1 N) / 1000000000" for r N key
proof unfold_locales
  fix t l now and k :: string
  assume ok: "peer_invariant r N t l"
  then show "peer_invariant r N now (snd ((case (now, k) of (now, k) \<Rightarrow> allow now k) l))"
    by (simp add: peer_invariant_def peer_ok_allow)
  show "0 \<le> peer_level (max 0 r) (max 1 N) key t l"
    using ok by (auto simp: peer_invariant_def intro: peer_level_nonneg)
  assume "t \<le> now"
  with ok show "peer_level (max 0 r) (max 1 N) key now (snd ((case (now, k) of (now, k) \<Rightarrow> allow now k) l)) +
      (if k = key \<and> fst ((case (now, k) of (now, k) \<Rightarrow> allow now k) l) then 1 else 0)
    \<le> peer_level (max 0 r) (max 1 N) key t l + inflow (max 0 r) (max 1 N) / 1000000000 * of_int (now - t)"
    using peer_level_allow by (simp add: peer_invariant_def)
qed (simp add: inflow_pos less_imp_le)

lemma served_peer_ok:
  assumes "plain_config cfg"
  shows "peer_invariant (effective_rate cfg) (effective_burst cfg) t (snd (serve_all reqs (newRateLimiter cfg)))"
proof -
  have "limiter_ok (effective_burst cfg) (snd (serve_all reqs (newRateLimiter cfg)))"
    using new_limiter_ok [OF assms] by (rule serve_all_limiter_ok)
  with effective_burst_pos [of cfg] effective_rate_pos [OF assms] new_rate [OF assms] show ?thesis
    by (simp add: peer_invariant_def peer_ok_def serve_all_rate max_def)
qed

subsection \<open>What a peer is granted over time\<close>

lemma peer_granted_over:
  assumes "plain_config cfg" "sorted_wrt (\<le>) (t # map fst reqs @ [u])"
  shows "of_nat (granted (\<lambda>(now, k). allow now k) (\<lambda>(now, k). k = key) reqs
      (snd (serve_all earlier (newRateLimiter cfg))))
    \<le> of_int (effective_burst cfg) + of_int (u - t) / 1000000000 *
      (effective_rate cfg * (1 + 1 / 2 ^ 48) + of_int (effective_burst cfg) / 2 ^ 21)"
proof -
  let ?N = "effective_burst cfg" and ?r = "effective_rate cfg" and ?l = "snd (serve_all earlier (newRateLimiter cfg))"
  have same: "max 1 ?N = ?N" "max 0 ?r = ?r"
    using effective_burst_pos [of cfg] effective_rate_pos [OF assms(1)] by simp_all
  have "peer_level ?r ?N key t ?l \<le> of_int ?N"
    by (auto simp: peer_level_def split: option.splits float64.splits)
  with peer_meter.granted_over [OF served_peer_ok [OF assms(1)] assms(2), of key earlier, unfolded same]
  show ?thesis by (simp add: inflow_def ac_simps)
qed

text \<open>
  C23. Over any stretch of time, after any requests before it and whichever peers ask during it, a peer
  is granted at most its burst and, for each second, the configured rate: up to the rounding of the
  float64 arithmetic, which a part in \<open>2 ^ 48\<close> of the rate and in \<open>2 ^ 21\<close> of the burst covers. This is
  for a finite rate, a burst of at most \<open>2 ^ 53\<close> and a clock that does not step back in the stretch.
\<close>

theorem sustained_rate:
  assumes "plain_config cfg" "sorted_wrt (\<le>) (t # map fst reqs @ [u])"
  shows "of_nat (granted (\<lambda>(now, k). allow now k) (\<lambda>(now, k). k = key) reqs
      (snd (serve_all earlier (newRateLimiter cfg))))
    \<le> of_int (effective_burst cfg) + of_int (u - t) / 1000000000 *
      (effective_rate cfg * (1 + 1 / 2 ^ 48) + of_int (effective_burst cfg) / 2 ^ 21)"
  by (rule peer_granted_over [OF assms])

theorem sustained_rate_witness:
  "of_nat (granted (\<lambda>(now, k). allow now k) (\<lambda>(now, k). k = ''a'') [(5, ''a''), (5, ''b''), (1000000005, ''a'')]
     (snd (serve_all [(3, ''b'')] (newRateLimiter \<lparr>PerSecond = Fin 10, Burst = 2\<rparr>)))) \<le> (13 :: rat)"
proof -
  let ?cfg = "\<lparr>PerSecond = Fin 10, Burst = 2\<rparr>"
  have "plain_config ?cfg" "effective_burst ?cfg = 2" "effective_rate ?cfg = 10"
    by (simp_all add: plain_config_def effective_burst_def effective_rate_def)
  with sustained_rate [of ?cfg 5 "[(5, ''a''), (5, ''b''), (1000000005, ''a'')]" 1000000005 "''a''" "[(3, ''b'')]"]
  show ?thesis by simp
qed

subsection \<open>A peer that waits is served\<close>

text \<open>
  C25. A peer the limiter knows is granted its next request once it has waited until the configured
  rate, less a part in \<open>2 ^ 48\<close>, comes to one token; one it does not know is granted at once, while
  the table has room. So no peer is shut out by its own history.
\<close>

theorem granted_after_wait:
  assumes "plain_config cfg" "l = snd (serve_all reqs (newRateLimiter cfg))"
    and waited: "case gm_get (rl_buckets l) key of
      Some b \<Rightarrow> bk_last b < now \<and> now - bk_last b < 2 ^ 63 \<and>
        1 \<le> of_int (now - bk_last b) / 1000000000 * (effective_rate cfg * (1 - 1 / 2 ^ 48))
    | None \<Rightarrow> gm_len (rl_buckets l) < rl_max l"
  shows "fst (allow now key l)"
proof -
  let ?N = "effective_burst cfg" and ?r = "effective_rate cfg"
  have ok: "limiter_ok ?N l" and rate: "rl_rate l = Fin ?r"
    using new_limiter_ok [OF assms(1)] serve_all_limiter_ok new_rate [OF assms(1)] serve_all_rate assms(2) by auto
  have "table_ok (newRateLimiter cfg)"
    by (simp add: newRateLimiter_def table_ok_def Let_def gm_len_def)
  from serve_all_ok [OF this, of reqs] have len: "gm_len (rl_buckets l) \<le> rl_max l"
    by (simp add: table_ok_def assms(2))
  have "gm_get (rl_buckets l) key \<noteq> None \<or> gm_len (rl_buckets l) < rl_max l"
    using waited by (auto split: option.splits)
  from sweep_same [OF ok len this] have "fst (allow now key l) = fst (spend now key l)" by blast
  moreover have "fst (spend now key l)"
  proof (cases "gm_get (rl_buckets l) key")
    case None
    have "(1::rat) \<le> of_int ?N" using effective_burst_pos by simp
    with None waited limiter_okD(1) [OF ok] show ?thesis by (simp add: spend_unseen take_token_get)
  next
    case (Some b)
    obtain x where x: "bk_tokens b = Fin x" "0 \<le> x" using limiter_okD(5) [OF ok Some] by (auto simp: level_ok_def)
    let ?d = "now - bk_last b"
    from waited Some have d: "0 < ?d" "?d < 2 ^ 63" "1 \<le> of_int ?d / 1000000000 * (?r * (1 - 1 / 2 ^ 48))" by simp_all
    have sub: "dur_sub now (bk_last b) = ?d" using d(1,2) by (simp add: dur_sub_def)
    have "0 \<le> ?r" "?d \<le> 2 ^ 63" using effective_rate_pos [OF assms(1)] d(2) by simp_all
    from refill_grants [OF x(2) effective_burst_pos this(1) d(1) this(2) d(3)]
    have "f_le (Fin 1) (f_min (refilled l now b) (rl_burst l))"
      by (simp add: refilled_def x(1) rate sub limiter_okD(1) [OF ok])
    with Some d(1) show ?thesis by (simp add: spend_seen take_token_get)
  qed
  ultimately show ?thesis by simp
qed

theorem granted_after_wait_witness:
  "fst (allow 1000000005 ''a'' (snd (serve_all [(5, ''a'')] (newRateLimiter \<lparr>PerSecond = Fin 10, Burst = 1\<rparr>))))"
proof -
  let ?l = "snd (serve_all [(5, ''a'')] (newRateLimiter \<lparr>PerSecond = Fin 10, Burst = 1\<rparr>))"
  have "gm_get (rl_buckets ?l) ''a'' = Some \<lparr>bk_tokens = Fin 0, bk_last = 5\<rparr>"
    using f_round_of_int [of 1]
    by (simp add: serve_all_Cons limiter_defs newRateLimiter_def f_sub_def gm_put_def gm_keep_def
        gm_len_def defaultMaxBuckets_def)
  then show ?thesis
    by (intro granted_after_wait [where cfg = "\<lparr>PerSecond = Fin 10, Burst = 1\<rparr>" and reqs = "[(5, ''a'')]"])
      (simp_all add: plain_config_def effective_rate_def)
qed

text \<open>
  C27. The table stays well typed: after any requests no peer has two buckets, and what a bucket holds
  is a binary64 number, never an infinity or NaN, between zero and the configured burst.
\<close>

theorem buckets_well_typed:
  assumes "plain_config cfg" "l = snd (serve_all reqs (newRateLimiter cfg))"
  shows "distinct (map fst (rl_buckets l)) \<and> (\<forall>(key, b) \<in> set (rl_buckets l).
    \<exists>x. bk_tokens b = Fin x \<and> f_round x = Fin x \<and> 0 \<le> x \<and> x \<le> of_int (effective_burst cfg))"
proof -
  have ok: "limiter_ok (effective_burst cfg) l"
    unfolding assms(2) using new_limiter_ok [OF assms(1)] by (rule serve_all_limiter_ok)
  then have d: "distinct (map fst (rl_buckets l))" using limiter_okD(4) by (simp add: gm_ok_def)
  then have "gm_get (rl_buckets l) key = Some b" if "(key, b) \<in> set (rl_buckets l)" for key b
    using that by (simp add: gm_get_def)
  with d limiter_okD(5) [OF ok] show ?thesis by (fastforce simp: level_ok_def)
qed

theorem buckets_well_typed_witness:
  "distinct (map fst (rl_buckets (snd (serve_all [(5, ''a''), (6, ''b''), (9, ''a'')]
     (newRateLimiter \<lparr>PerSecond = Fin 3, Burst = 0\<rparr>)))))"
proof -
  have "plain_config \<lparr>PerSecond = Fin 3, Burst = 0\<rparr>" by (simp add: plain_config_def)
  from buckets_well_typed [OF this refl] show ?thesis by blast
qed

end
