(* ===== verification/Weather_Rate.thy ===== *)
theory Weather_Rate
  imports Throttle Go_Handler
begin

text \<open>
  \<open>examples/weather/ratelimit.go\<close>: the one token bucket in front of the priced route, and of the
  lookups, that every caller shares. \<open>allow\<close> runs under the mutex, so a call is one step; the clock's
  reading is an argument. The clock is Go's monotonic one: \<open>now.Sub(l.last)\<close> is not negative.
\<close>

definition defaultRatePerSecond :: rat where "defaultRatePerSecond = 5"
definition defaultRateBurst :: int where "defaultRateBurst = 10"

record rateLimit =
  lim_rate :: float64
  lim_burst :: float64
  lim_tokens :: float64
  lim_last :: instant

definition newRateLimit :: "float64 \<Rightarrow> int \<Rightarrow> instant \<Rightarrow> rateLimit" where
  "newRateLimit perSecond burst now =
     (let rate = (if \<not> f_less (Fin 0) perSecond \<or> perSecond = Inf False then Fin defaultRatePerSecond else perSecond);
          size = (if burst \<le> 0 then defaultRateBurst else burst) in
      \<lparr>lim_rate = rate, lim_burst = f_of_int size, lim_tokens = f_of_int size, lim_last = now\<rparr>)"

definition limit_allow :: "instant \<Rightarrow> rateLimit \<Rightarrow> bool \<times> rateLimit" where
  "limit_allow now l =
     (let tokens = f_min (lim_burst l) (f_add (lim_tokens l) (f_mul (dur_seconds (dur_sub now (lim_last l))) (lim_rate l)));
          l' = l\<lparr>lim_tokens := tokens, lim_last := now\<rparr> in
      if f_less tokens (Fin 1) then (False, l')
      else (True, l'\<lparr>lim_tokens := f_sub tokens (Fin 1)\<rparr>))"

text \<open>
  \<open>guard\<close>: a handler is here what it does to its response writer and to the rest of the state.
\<close>

definition guard ::
  "'w response_writer \<Rightarrow> instant \<Rightarrow> ('w \<times> 's \<Rightarrow> 'w \<times> 's) \<Rightarrow> rateLimit \<Rightarrow> 'w \<times> 's \<Rightarrow> rateLimit \<times> 'w \<times> 's" where
  "guard rw now next_handler l ws =
     (let (ok, l') = limit_allow now l in
      if \<not> ok then (l', serve_on rw (http_error ''too many requests'' 429) (fst ws), snd ws)
      else (l', next_handler ws))"

subsection \<open>The level\<close>

definition limit_rate :: "float64 \<Rightarrow> rat" where
  "limit_rate perSecond = (case perSecond of Fin r \<Rightarrow> if 0 < r then r else defaultRatePerSecond | _ \<Rightarrow> defaultRatePerSecond)"

definition limit_burst :: "int \<Rightarrow> int" where
  "limit_burst burst = (if burst \<le> 0 then defaultRateBurst else burst)"

lemma limit_pos: "0 < limit_rate perSecond" "1 \<le> limit_burst burst"
  by (auto simp: limit_rate_def limit_burst_def defaultRatePerSecond_def defaultRateBurst_def split: float64.splits)

definition limit_ok :: "rat \<Rightarrow> int \<Rightarrow> instant \<Rightarrow> rateLimit \<Rightarrow> bool" where
  "limit_ok r N t l \<longleftrightarrow> 0 \<le> r \<and> 1 \<le> N \<and> N \<le> 2 ^ 53 \<and> lim_rate l = Fin r \<and> lim_burst l = Fin (of_int N) \<and>
     lim_last l \<le> t \<and> (\<exists>x. lim_tokens l = Fin x \<and> 0 \<le> x \<and> x \<le> of_int N \<and> f_round x = Fin x)"

text \<open>Every configuration starts one: what is no positive finite rate, or no burst, is replaced.\<close>

lemma newRateLimit_ok:
  assumes "burst \<le> 2 ^ 53"
  shows "limit_ok (limit_rate perSecond) (limit_burst burst) now (newRateLimit perSecond burst now)"
proof -
  have N: "1 \<le> limit_burst burst" "limit_burst burst \<le> 2 ^ 53"
    using assms by (simp_all add: limit_burst_def defaultRateBurst_def)
  then have "f_of_int (limit_burst burst) = Fin (of_int (limit_burst burst))"
    "f_round (of_int (limit_burst burst)) = Fin (of_int (limit_burst burst))"
    using f_round_of_int [of "limit_burst burst"] by (simp_all add: f_of_int_def)
  with N limit_pos(1) [of perSecond] show ?thesis
    by (cases perSecond) (auto simp: limit_ok_def newRateLimit_def Let_def limit_rate_def
        simp flip: limit_burst_def)
qed

definition limit_level :: "rat \<Rightarrow> int \<Rightarrow> instant \<Rightarrow> rateLimit \<Rightarrow> rat" where
  "limit_level r N t l = (case lim_tokens l of Fin x \<Rightarrow> x + inflow r N / 1000000000 * of_int (t - lim_last l) | _ \<Rightarrow> 0)"

text \<open>One step: what is in the bucket after the refill, and what is left of it.\<close>

lemma limit_step:
  assumes ok: "limit_ok r N t l" and now: "t \<le> now"
  obtains y where "0 \<le> y" "y \<le> of_int N" "f_round y = Fin y" "y \<le> limit_level r N now l"
    "limit_allow now l = (1 \<le> y, l\<lparr>lim_tokens := Fin (if 1 \<le> y then y - 1 else y), lim_last := now\<rparr>)"
    "1 \<le> y \<longrightarrow> f_round (y - 1) = Fin (y - 1)"
proof -
  obtain x where x: "lim_tokens l = Fin x" "0 \<le> x" "x \<le> of_int N" "f_round x = Fin x"
    and l: "0 \<le> r" "1 \<le> N" "N \<le> 2 ^ 53" "lim_rate l = Fin r" "lim_burst l = Fin (of_int N)" "lim_last l \<le> t"
    using ok by (auto simp: limit_ok_def)
  let ?d = "dur_sub now (lim_last l)" and ?c = "inflow r N / 1000000000"
  have d: "0 \<le> ?d" "?d \<le> 2 ^ 63" "?d \<le> now - lim_last l"
    using now l(6) dur_sub_small [of now "lim_last l"] by (auto simp: dur_sub_nonneg_iff dur_sub_def)
  obtain y where y: "f_min (f_add (Fin x) (f_mul (dur_seconds ?d) (Fin r))) (Fin (of_int N)) = Fin y"
    "0 \<le> y" "y \<le> of_int N" "f_round y = Fin y" "y \<le> x + of_int ?d / 1000000000 * inflow r N"
    by (rule refill_bounds [OF x(2-4) l(2,3,1) d(1,2)])
  have "0 \<le> ?c" using inflow_pos [OF l(1,2)] by simp
  moreover have "(of_int ?d :: rat) \<le> of_int (now - lim_last l)" using d(3) by (simp only: of_int_le_iff)
  ultimately have "?c * of_int ?d \<le> ?c * of_int (now - lim_last l)" by (rule mult_left_mono [rotated])
  then have "of_int ?d / 1000000000 * inflow r N \<le> ?c * of_int (now - lim_last l)" by (simp add: ac_simps)
  with y(5) x(1) have level: "y \<le> limit_level r N now l" by (simp add: limit_level_def)
  have "f_min (Fin (of_int N)) v = f_min v (Fin (of_int N))" for v
    by (cases v) (auto simp: f_min_def)
  with y(1) x(1) l(4,5) have tokens: "f_min (lim_burst l) (f_add (lim_tokens l) (f_mul (dur_seconds ?d) (lim_rate l))) = Fin y"
    by simp
  have "y \<le> 2 ^ 53"
  proof -
    have "(of_int N :: rat) \<le> of_int (2 ^ 53)" using l(3) by (simp only: of_int_le_iff)
    with y(3) show ?thesis by simp
  qed
  then have exact: "1 \<le> y \<longrightarrow> f_round (y - 1) = Fin (y - 1)" using take_one_exact y(4) by blast
  then have "limit_allow now l = (1 \<le> y, l\<lparr>lim_tokens := Fin (if 1 \<le> y then y - 1 else y), lim_last := now\<rparr>)"
    by (auto simp: limit_allow_def tokens Let_def f_sub_def)
  with that [of y] y level exact show thesis by blast
qed

definition limit_invariant :: "rat \<Rightarrow> int \<Rightarrow> instant \<Rightarrow> rateLimit \<Rightarrow> bool" where
  "limit_invariant r N t l \<longleftrightarrow> limit_ok (max 0 r) (max 1 N) t l"

lemma limit_ok_allow:
  assumes "limit_ok r N t l" "t \<le> now"
  shows "limit_ok r N now (snd (limit_allow now l))"
proof -
  obtain y where "0 \<le> y" "y \<le> of_int N" "f_round y = Fin y" "y \<le> limit_level r N now l"
    "limit_allow now l = (1 \<le> y, l\<lparr>lim_tokens := Fin (if 1 \<le> y then y - 1 else y), lim_last := now\<rparr>)"
    "1 \<le> y \<longrightarrow> f_round (y - 1) = Fin (y - 1)"
    by (rule limit_step [OF assms])
  with assms(1) show ?thesis by (auto simp: limit_ok_def)
qed

interpretation backstop: metered "\<lambda>(now, k :: unit). limit_allow now" "\<lambda>k. True" "limit_invariant r N"
    "limit_level (max 0 r) (max 1 N)" "inflow (max 0 r) (max 1 N) / 1000000000" for r N
proof unfold_locales
  fix t l now and k :: unit
  assume ok: "limit_invariant r N t l"
  then have c: "0 \<le> inflow (max 0 r) (max 1 N) / 1000000000"
    by (simp add: inflow_pos less_imp_le)
  show "0 \<le> limit_level (max 0 r) (max 1 N) t l"
    using ok c by (auto simp: limit_invariant_def limit_ok_def limit_level_def)
  assume t: "t \<le> now"
  from limit_ok_allow [OF ok [unfolded limit_invariant_def] t]
  show "limit_invariant r N now (snd ((case (now, k) of (now, k) \<Rightarrow> limit_allow now) l))"
    by (simp add: limit_invariant_def)
  obtain y where y: "0 \<le> y" "y \<le> of_int (max 1 N)" "f_round y = Fin y" "y \<le> limit_level (max 0 r) (max 1 N) now l"
    "limit_allow now l = (1 \<le> y, l\<lparr>lim_tokens := Fin (if 1 \<le> y then y - 1 else y), lim_last := now\<rparr>)"
    "1 \<le> y \<longrightarrow> f_round (y - 1) = Fin (y - 1)"
    by (rule limit_step [OF ok [unfolded limit_invariant_def] t])
  have "limit_level (max 0 r) (max 1 N) now l =
      limit_level (max 0 r) (max 1 N) t l + inflow (max 0 r) (max 1 N) / 1000000000 * of_int (now - t)"
    using ok by (auto simp: limit_invariant_def limit_ok_def limit_level_def field_simps)
  with y show "limit_level (max 0 r) (max 1 N) now (snd ((case (now, k) of (now, k) \<Rightarrow> limit_allow now) l)) +
      (if True \<and> fst ((case (now, k) of (now, k) \<Rightarrow> limit_allow now) l) then 1 else 0)
    \<le> limit_level (max 0 r) (max 1 N) t l + inflow (max 0 r) (max 1 N) / 1000000000 * of_int (now - t)"
    by (simp add: limit_level_def)
qed (simp add: inflow_pos less_imp_le)

text \<open>
  No configuration removes the backstop: whatever rate and burst are configured, infinities, NaN,
  zero and negative numbers included, over any stretch of time the route serves at most the burst
  and, for each second, the rate, all callers together; what is not a positive finite rate or a
  positive burst counts as the default. The float64 arithmetic's rounding is covered by a part in
  \<open>2 ^ 48\<close> of the rate and in \<open>2 ^ 21\<close> of the burst.
\<close>

theorem backstop_holds:
  assumes "burst \<le> 2 ^ 53" "sorted_wrt (\<le>) (t # instants @ [u])"
  shows "of_nat (granted limit_allow (\<lambda>now. True) instants (newRateLimit perSecond burst t))
    \<le> of_int (limit_burst burst) + of_int (u - t) / 1000000000 *
      (limit_rate perSecond * (1 + 1 / 2 ^ 48) + of_int (limit_burst burst) / 2 ^ 21)"
proof -
  let ?N = "limit_burst burst" and ?r = "limit_rate perSecond" and ?l = "newRateLimit perSecond burst t"
  have same: "max 1 ?N = ?N" "max 0 ?r = ?r" using limit_pos(1) [of perSecond] limit_pos(2) [of burst] by simp_all
  have ok: "limit_invariant ?r ?N t ?l"
    using newRateLimit_ok [OF assms(1)] by (simp add: limit_invariant_def same)
  have "granted limit_allow (\<lambda>now. True) ts l =
      granted (\<lambda>(now, k). limit_allow now) (\<lambda>(now, k). True) (map (\<lambda>t. (t, ())) ts) l" for ts l
    by (induction ts arbitrary: l) auto
  moreover have "sorted_wrt (\<le>) (t # map fst (map (\<lambda>t. (t, ())) instants) @ [u])"
    using assms(2) by (simp add: comp_def)
  note backstop.granted_over [OF ok this, unfolded same]
  moreover have "limit_level ?r ?N t ?l \<le> of_int ?N"
    using newRateLimit_ok [OF assms(1), of perSecond t]
    by (auto simp: limit_ok_def limit_level_def newRateLimit_def Let_def)
  ultimately show ?thesis by (simp add: inflow_def ac_simps)
qed

theorem backstop_holds_witness:
  "of_nat (granted limit_allow (\<lambda>now. True) [0, 0, 1000000000] (newRateLimit NaN (- 3) 0)) \<le> (16 :: rat)"
  using backstop_holds [of "- 3" 0 "[0, 0, 1000000000]" 1000000000 NaN]
  by (simp add: limit_burst_def limit_rate_def defaultRateBurst_def defaultRatePerSecond_def)

text \<open>
  The backstop lets go again: after any requests, one that comes once the configured rate, less a
  part in \<open>2 ^ 48\<close>, amounts to a token since the last is served.
\<close>

theorem backstop_lets_go:
  assumes "burst \<le> 2 ^ 53" "l = snd (fold (\<lambda>now s. limit_allow now (snd s)) instants (False, newRateLimit perSecond burst t))"
    and "sorted_wrt (\<le>) (t # instants @ [now])" "lim_last l < now" "now - lim_last l < 2 ^ 63"
    and waited: "1 \<le> of_int (now - lim_last l) / 1000000000 * (limit_rate perSecond * (1 - 1 / 2 ^ 48))"
  shows "fst (limit_allow now l)"
proof -
  let ?N = "limit_burst burst" and ?r = "limit_rate perSecond"
  have step: "limit_ok ?r ?N now (snd (fold (\<lambda>now s. limit_allow now (snd s)) ts (g, s)))"
    if "limit_ok ?r ?N u s" "sorted_wrt (\<le>) (u # ts @ [now])" for u ts g s
    using that
  proof (induction ts arbitrary: u g s)
    case Nil
    then show ?case by (auto simp: limit_ok_def)
  next
    case (Cons v ts)
    from Cons.prems(2) have "limit_ok ?r ?N v (snd (limit_allow v s))"
      by (intro limit_ok_allow [OF Cons.prems(1)]) simp
    with Cons.prems(2) Cons.IH [of v "snd (limit_allow v s)" "fst (limit_allow v s)"] show ?case by simp
  qed
  have ok: "limit_ok ?r ?N now l"
    using step [OF newRateLimit_ok [OF assms(1)] assms(3)] assms(2) by simp
  then obtain x where x: "lim_tokens l = Fin x" "0 \<le> x" "lim_rate l = Fin ?r" "lim_burst l = Fin (of_int ?N)"
    by (auto simp: limit_ok_def)
  have sub: "dur_sub now (lim_last l) = now - lim_last l" using assms(4,5) by (simp add: dur_sub_def)
  have "f_le (Fin 1) (f_min (f_add (Fin x) (f_mul (dur_seconds (now - lim_last l)) (Fin ?r))) (Fin (of_int ?N)))"
    using limit_pos(1) [of perSecond] limit_pos(2) [of burst] assms(4,5) by (intro refill_grants x(2) waited) simp_all
  moreover have "f_min (Fin (of_int ?N)) v = f_min v (Fin (of_int ?N))" for v
    by (cases v) (auto simp: f_min_def)
  ultimately show ?thesis
    by (auto simp: limit_allow_def x(1,3,4) sub Let_def f_less_iff)
qed

theorem backstop_lets_go_witness:
  "fst (limit_allow 1000000000 (snd (fold (\<lambda>now s. limit_allow now (snd s)) [0] (False, newRateLimit (Fin 2) 1 0))))"
proof -
  have "lim_last (snd (fold (\<lambda>now s. limit_allow now (snd s)) [0] (False, newRateLimit (Fin 2) 1 0))) = 0"
    by (simp add: limit_allow_def Let_def newRateLimit_def)
  then show ?thesis
    by (intro backstop_lets_go [where burst = 1 and perSecond = "Fin 2" and t = 0 and instants = "[0]"])
      (simp_all add: limit_rate_def)
qed

end
