(* ===== verification/Weather_Visits.thy ===== *)
theory Weather_Visits
  imports Go_Http
begin

text \<open>
  \<open>visitBook\<close> of \<open>examples/weather/visits.go\<close>: the payments kept for the pages that wait for them. An
  operation runs under the book's mutex, so one call is one step, and the clock's reading is an
  argument. The book is a table (\<open>go_map\<close>): its list's order is the order in which \<open>range\<close> visits it.
\<close>

definition visitTTL :: duration where "visitTTL = 15 * minute"
definition maxVisits :: nat where "maxVisits = 1000"

record visit =
  v_transaction :: string
  v_network :: string
  v_payer :: string
  v_body :: string
  v_at :: instant

type_synonym visit_book = "(string, visit) gomap"

definition zero_visit :: visit where
  "zero_visit = \<lparr>v_transaction = [], v_network = [], v_payer = [], v_body = [], v_at = zero_time\<rparr>"

definition newVisitBook :: visit_book where "newVisitBook = []"

text \<open>\<open>b.visits[k]\<close>: a key the map lacks reads as the zero visit.\<close>

definition visit_at :: "visit_book \<Rightarrow> string \<Rightarrow> visit" where
  "visit_at m k = (case gm_get m k of None \<Rightarrow> zero_visit | Some v \<Rightarrow> v)"

text \<open>A turn of the loop in \<open>record\<close>, and the loop: the book and the oldest payment kept so far.\<close>

definition forget_step :: "instant \<Rightarrow> string \<times> visit \<Rightarrow> visit_book \<times> string \<Rightarrow> visit_book \<times> string" where
  "forget_step now = (\<lambda>(other, kept) (m, oldest).
     if visitTTL \<le> dur_sub now (v_at kept) then (gm_del other m, oldest)
     else if oldest = [] \<or> v_at kept < v_at (visit_at m oldest) then (m, other)
     else (m, oldest))"

definition forget :: "instant \<Rightarrow> visit_book \<Rightarrow> visit_book" where
  "forget now m =
     (let (m', oldest) = fold (forget_step now) m (m, []) in
      if maxVisits \<le> gm_len m' then gm_del oldest m' else m')"

definition record_visit :: "instant \<Rightarrow> string \<Rightarrow> visit \<Rightarrow> visit_book \<Rightarrow> visit_book" where
  "record_visit now token v m =
     (if (case gm_get m token of Some kept \<Rightarrow> dur_sub now (v_at kept) < visitTTL | None \<Rightarrow> False) then m
      else (let m' = (if maxVisits \<le> gm_len m then forget now m else m) in
            gm_put token (v\<lparr>v_at := now\<rparr>) m'))"

definition lookup_visit :: "instant \<Rightarrow> string \<Rightarrow> visit_book \<Rightarrow> visit option" where
  "lookup_visit now token m =
     (case gm_get m token of
        None \<Rightarrow> None
      | Some v \<Rightarrow> if visitTTL \<le> dur_sub now (v_at v) then None else Some v)"

subsection \<open>The sweep\<close>

definition live :: "instant \<Rightarrow> visit \<Rightarrow> bool" where
  "live now v \<longleftrightarrow> dur_sub now (v_at v) < visitTTL"

lemma live_iff: "live now v \<longleftrightarrow> now - v_at v < visitTTL"
  using dur_sub_le_iff [of "visitTTL - 1" now "v_at v"] by (auto simp: live_def visitTTL_def time_simps)

lemma live_earlier: "live u v \<Longrightarrow> t \<le> u \<Longrightarrow> live t v"
  by (simp add: live_iff)

lemma lookup_visit_Some: "lookup_visit now token m = Some v \<longleftrightarrow> gm_get m token = Some v \<and> live now v"
  by (auto simp: lookup_visit_def live_def split: option.splits if_splits)

text \<open>
  What the loop leaves: the payments still live, and the oldest of those visited. The invariant is
  over the entries visited, \<open>done\<close>, and those to come.
\<close>

definition oldest_of :: "instant \<Rightarrow> (string \<times> visit) list \<Rightarrow> string \<Rightarrow> bool" where
  "oldest_of now visited oldest \<longleftrightarrow>
     (if \<exists>(k, v) \<in> set visited. live now v
      then \<exists>v. (oldest, v) \<in> set visited \<and> live now v \<and> (\<forall>(k, w) \<in> set visited. live now w \<longrightarrow> v_at v \<le> v_at w)
      else oldest = [])"

lemma oldest_of_snoc:
  "oldest_of now (visited @ [(k, v)]) oldest \<longleftrightarrow>
     (if live now v then
        (\<exists>w. (oldest, w) \<in> insert (k, v) (set visited) \<and> live now w \<and> v_at w \<le> v_at v \<and>
          (\<forall>(k, x) \<in> set visited. live now x \<longrightarrow> v_at w \<le> v_at x))
      else oldest_of now visited oldest)"
  by (auto simp: oldest_of_def)

lemma gm_del_between:
  assumes "k \<notin> fst ` set a" "k \<notin> fst ` set b"
  shows "gm_del k (a @ (k, v) # b) = a @ b"
proof -
  have "gm_del k a = a" "gm_del k b = b" using assms by (simp_all add: gm_del_def delete_id)
  then show ?thesis by (simp add: gm_del_def AList.delete_eq)
qed

lemma forget_step_oldest:
  assumes ok: "gm_ok (visited @ (k, v) # rest)" and no_nil: "[] \<notin> fst ` set (visited @ (k, v) # rest)"
    and oldest: "oldest_of now visited oldest"
  shows "\<exists>oldest'. forget_step now (k, v) (gm_keep (\<lambda>k. live now) visited @ (k, v) # rest, oldest) =
        (gm_keep (\<lambda>k. live now) (visited @ [(k, v)]) @ rest, oldest') \<and>
      oldest_of now (visited @ [(k, v)]) oldest'"
proof (cases "live now v")
  case False
  have "gm_del k (gm_keep (\<lambda>k. live now) visited @ (k, v) # rest) = gm_keep (\<lambda>k. live now) visited @ rest"
    using ok by (intro gm_del_between) (auto simp: gm_ok_def gm_keep_def)
  with False oldest show ?thesis
    by (auto simp: forget_step_def oldest_of_snoc gm_keep_def live_def not_less)
next
  case True
  note lv = True
  show ?thesis
  proof (cases "\<exists>(k, v) \<in> set visited. live now v")
    case False
    with oldest have "oldest = []" by (simp add: oldest_of_def)
    with False lv show ?thesis
      by (auto simp: forget_step_def oldest_of_snoc gm_keep_def live_def not_le split: prod.splits)
  next
    case True
    then obtain w where w: "(oldest, w) \<in> set visited" "live now w"
      "\<And>k x. (k, x) \<in> set visited \<Longrightarrow> live now x \<Longrightarrow> v_at w \<le> v_at x"
      using oldest by (auto simp: oldest_of_def)
    have "visit_at (gm_keep (\<lambda>k. live now) visited @ (k, v) # rest) oldest = w"
    proof -
      have "distinct (map fst (gm_keep (\<lambda>k. live now) visited))"
        using ok by (auto simp: gm_ok_def gm_keep_def distinct_map_filter)
      moreover have "(oldest, w) \<in> set (gm_keep (\<lambda>k. live now) visited)" using w by (simp add: gm_keep_def)
      ultimately have "map_of (gm_keep (\<lambda>k. live now) visited) oldest = Some w" by simp
      then show ?thesis by (simp add: visit_at_def gm_get_def map_of_append map_add_def
            split: option.splits)
    qed
    moreover have "oldest \<noteq> []" using w(1) no_nil by force
    ultimately have "forget_step now (k, v) (gm_keep (\<lambda>k. live now) visited @ (k, v) # rest, oldest) =
        (gm_keep (\<lambda>k. live now) (visited @ [(k, v)]) @ rest, if v_at v < v_at w then k else oldest)"
      using lv by (simp add: forget_step_def gm_keep_def live_def not_le)
    moreover have "oldest_of now (visited @ [(k, v)]) (if v_at v < v_at w then k else oldest)"
    proof (cases "v_at v < v_at w")
      case True
      have "v_at v \<le> v_at y" if "(i, y) \<in> set visited" "live now y" for i y
        using w(3) [OF that] True by simp
      with True lv show ?thesis by (auto simp: oldest_of_snoc intro!: exI [of _ v])
    next
      case False
      with w lv show ?thesis by (auto simp: oldest_of_snoc intro!: exI [of _ w])
    qed
    ultimately show ?thesis by blast
  qed
qed

lemma forget_fold:
  assumes "gm_ok (visited @ rest)" "[] \<notin> fst ` set (visited @ rest)" "oldest_of now visited oldest"
  shows "\<exists>oldest'. fold (forget_step now) rest (gm_keep (\<lambda>k. live now) visited @ rest, oldest) =
        (gm_keep (\<lambda>k. live now) (visited @ rest), oldest') \<and>
      oldest_of now (visited @ rest) oldest'"
  using assms
proof (induction rest arbitrary: visited oldest)
  case (Cons e rest)
  obtain k v where e: "e = (k, v)" by (cases e)
  from forget_step_oldest [OF Cons.prems [unfolded e]] obtain oldest' where
    step: "forget_step now (k, v) (gm_keep (\<lambda>k. live now) visited @ (k, v) # rest, oldest) =
      (gm_keep (\<lambda>k. live now) (visited @ [(k, v)]) @ rest, oldest')" "oldest_of now (visited @ [(k, v)]) oldest'"
    by blast
  have "\<exists>oldest''. fold (forget_step now) rest (gm_keep (\<lambda>k. live now) (visited @ [(k, v)]) @ rest, oldest') =
        (gm_keep (\<lambda>k. live now) ((visited @ [(k, v)]) @ rest), oldest'') \<and>
      oldest_of now ((visited @ [(k, v)]) @ rest) oldest''"
    using Cons.prems(1,2) e by (intro Cons.IH step(2)) auto
  then show ?case by (simp add: e step(1))
qed simp

text \<open>
  The sweep of a full book: what is past its time goes, and the oldest payment with it only if the
  book is full of live ones.
\<close>

lemma forget_spec:
  assumes "gm_ok m" "gm_get m [] = None"
  obtains oldest where "forget now m =
      (let m' = gm_keep (\<lambda>k. live now) m in if maxVisits \<le> gm_len m' then gm_del oldest m' else m')"
    and "\<forall>k v. gm_get m k = Some v \<and> live now v \<longrightarrow>
      (\<exists>w. gm_get m oldest = Some w \<and> live now w \<and> v_at w \<le> v_at v)"
proof -
  have d: "distinct (map fst m)" using assms(1) by (simp add: gm_ok_def)
  have "\<exists>oldest. fold (forget_step now) m (gm_keep (\<lambda>k. live now) [] @ m, []) =
        (gm_keep (\<lambda>k. live now) ([] @ m), oldest) \<and> oldest_of now ([] @ m) oldest"
    using assms by (intro forget_fold) (auto simp: oldest_of_def gm_get_def map_of_eq_None_iff)
  then obtain oldest where o: "fold (forget_step now) m (m, []) = (gm_keep (\<lambda>k. live now) m, oldest)"
    "oldest_of now m oldest" by (auto simp: gm_keep_def)
  from o(1) have "forget now m =
      (let m' = gm_keep (\<lambda>k. live now) m in if maxVisits \<le> gm_len m' then gm_del oldest m' else m')"
    by (simp add: forget_def)
  moreover have "\<exists>w. gm_get m oldest = Some w \<and> live now w \<and> v_at w \<le> v_at v"
    if "gm_get m k = Some v" "live now v" for k v
  proof -
    have "(k, v) \<in> set m" using that(1) by (simp add: gm_get_def map_of_SomeD)
    with o(2) that(2) obtain w where "(oldest, w) \<in> set m" "live now w" "v_at w \<le> v_at v"
      unfolding oldest_of_def by (auto split: if_splits)
    with d show ?thesis by (auto simp: gm_get_def)
  qed
  ultimately show thesis using that by blast
qed

subsection \<open>Recording\<close>

definition book_ok :: "visit_book \<Rightarrow> bool" where
  "book_ok m \<longleftrightarrow> gm_ok m \<and> gm_len m \<le> maxVisits \<and> gm_get m [] = None"

lemma book_ok_new [simp]: "book_ok newVisitBook"
  by (simp add: book_ok_def newVisitBook_def gm_len_def)

lemma forget_get:
  assumes "book_ok m" "gm_get (forget now m) k = Some w"
  shows "gm_get m k = Some w"
proof -
  from assms(1) have m: "gm_ok m" "gm_get m [] = None" by (simp_all add: book_ok_def)
  obtain oldest where "forget now m =
      (let m' = gm_keep (\<lambda>k. live now) m in if maxVisits \<le> gm_len m' then gm_del oldest m' else m')"
    by (rule forget_spec [OF m])
  with assms(2) m(1) show ?thesis
    by (auto simp: Let_def gm_simps gmap.get_keep_Some split: if_splits option.splits)
qed

lemma forget_room:
  assumes "book_ok m"
  shows "gm_ok (forget now m)" "gm_len (forget now m) < maxVisits"
proof -
  from assms have m: "gm_ok m" "gm_get m [] = None" "gm_len m \<le> maxVisits" by (simp_all add: book_ok_def)
  obtain oldest where o: "forget now m =
      (let m' = gm_keep (\<lambda>k. live now) m in if maxVisits \<le> gm_len m' then gm_del oldest m' else m')"
    and old: "\<forall>k v. gm_get m k = Some v \<and> live now v \<longrightarrow>
      (\<exists>w. gm_get m oldest = Some w \<and> live now w \<and> v_at w \<le> v_at v)"
    by (rule forget_spec [OF m(1,2)])
  let ?m = "gm_keep (\<lambda>k. live now) m"
  have ok: "gm_ok ?m" "gm_len ?m \<le> maxVisits" using m gmap.len_keep_le [OF m(1)] by (auto simp: gm_simps intro: order_trans)
  then show "gm_ok (forget now m)" by (simp add: o Let_def gm_simps)
  show "gm_len (forget now m) < maxVisits"
  proof (cases "maxVisits \<le> gm_len ?m")
    case True
    then have "dom (gm_get ?m) \<noteq> {}" using gmap.len_dom [OF ok(1)] by (auto simp: maxVisits_def)
    then obtain k v where "gm_get ?m k = Some v" by fastforce
    then obtain w where "gm_get m oldest = Some w" "live now w" using old m(1) by (auto simp: gmap.get_keep_Some)
    then have "gm_get ?m oldest \<noteq> None" using m(1) by (simp add: gmap.get_keep)
    then have "gm_len (gm_del oldest ?m) < gm_len ?m"
      using ok(1) gm_get_dom [of ?m]
      by (simp add: gmap.len_dom gm_simps) (metis card_Diff1_less domI domIff)
    with True ok(2) show ?thesis by (simp add: o Let_def)
  qed (simp add: o Let_def)
qed

lemma record_visit_ok:
  assumes "book_ok m" "token \<noteq> []"
  shows "book_ok (record_visit now token v m)"
proof -
  let ?m = "if maxVisits \<le> gm_len m then forget now m else m"
  have "gm_ok ?m" "gm_len ?m < maxVisits" using forget_room [OF assms(1)] assms(1) by (auto simp: book_ok_def)
  moreover have "gm_get ?m [] = None"
  proof (rule ccontr)
    assume "gm_get ?m [] \<noteq> None"
    then obtain w where "gm_get ?m [] = Some w" by auto
    with forget_get [OF assms(1)] assms(1) show False by (auto simp: book_ok_def split: if_splits)
  qed
  ultimately have "book_ok (gm_put token x ?m)" for x
    using assms(2) by (cases "gm_get ?m token") (auto simp: book_ok_def gm_simps gmap.len_put_new gmap.len_put_old)
  with assms(1) show ?thesis by (simp add: record_visit_def Let_def)
qed

lemma record_visit_self:
  "gm_get (record_visit now token v m) token =
     (case gm_get m token of Some kept \<Rightarrow> if live now kept then Some kept else Some (v\<lparr>v_at := now\<rparr>)
      | None \<Rightarrow> Some (v\<lparr>v_at := now\<rparr>))"
  by (auto simp: record_visit_def live_def Let_def gm_simps split: option.splits)

lemma record_visit_other:
  assumes "book_ok m" "gm_get (record_visit now token v m) k = Some w" "k \<noteq> token"
  shows "gm_get m k = Some w"
  using assms forget_get [OF assms(1), of now k w]
  by (auto simp: record_visit_def Let_def gm_simps split: if_splits option.splits)

text \<open>A live payment is forgotten only for as many payments as the book holds, none older than it.\<close>

definition since :: "instant \<Rightarrow> visit_book \<Rightarrow> string set" where
  "since t m = {k. \<exists>w. gm_get m k = Some w \<and> t \<le> v_at w}"

lemma finite_since: "finite (since t m)"
  by (rule finite_subset [OF _ gm_get_dom [of m]]) (auto simp: since_def)

lemma record_visit_keeps:
  assumes ok: "book_ok m" and k: "gm_get m k = Some w" "live now w" "k \<noteq> token"
    and few: "card (since (v_at w) m) < maxVisits"
  shows "gm_get (record_visit now token v m) k = Some w"
proof -
  from ok have m: "gm_ok m" "gm_get m [] = None" by (simp_all add: book_ok_def)
  obtain oldest where o: "forget now m =
      (let m' = gm_keep (\<lambda>k. live now) m in if maxVisits \<le> gm_len m' then gm_del oldest m' else m')"
    and old: "\<forall>k v. gm_get m k = Some v \<and> live now v \<longrightarrow>
      (\<exists>w. gm_get m oldest = Some w \<and> live now w \<and> v_at w \<le> v_at v)"
    by (rule forget_spec [OF m])
  let ?m = "gm_keep (\<lambda>k. live now) m"
  have kept: "gm_get ?m k = Some w" using m(1) k by (simp add: gmap.get_keep_Some)
  have "oldest \<noteq> k" if full: "maxVisits \<le> gm_len ?m"
  proof
    assume "oldest = k"
    have "dom (gm_get ?m) \<subseteq> since (v_at w) m"
    proof
      fix i assume "i \<in> dom (gm_get ?m)"
      then obtain x where "gm_get m i = Some x" "live now x" using m(1) by (auto simp: gmap.get_keep_Some)
      with old \<open>oldest = k\<close> k(1) show "i \<in> since (v_at w) m" by (fastforce simp: since_def)
    qed
    then have "gm_len ?m \<le> card (since (v_at w) m)"
      using m(1) by (simp add: gmap.len_dom gm_simps card_mono finite_since)
    with few full show False by simp
  qed
  with kept m(1) have "gm_get (forget now m) k = Some w" by (auto simp: o Let_def gm_simps)
  with k show ?thesis by (auto simp: record_visit_def Let_def gm_simps)
qed

lemma since_record_visit:
  assumes "book_ok m"
  shows "card (since t (record_visit now token v m)) \<le> Suc (card (since t m))"
proof -
  have "since t (record_visit now token v m) \<subseteq> insert token (since t m)"
    using record_visit_other [OF assms] by (auto simp: since_def)
  then have "card (since t (record_visit now token v m)) \<le> card (insert token (since t m))"
    by (intro card_mono) (simp_all add: finite_since)
  also have "\<dots> \<le> Suc (card (since t m))" by (rule card_insert_le_m1) simp_all
  finally show ?thesis .
qed

text \<open>A sequence of payments kept, each at its instant.\<close>

definition record_all :: "(instant \<times> string \<times> visit) list \<Rightarrow> visit_book \<Rightarrow> visit_book" where
  "record_all es m = fold (\<lambda>(now, token, v). record_visit now token v) es m"

lemma record_all_simps [simp]:
  "record_all [] m = m"
  "record_all ((now, token, v) # es) m = record_all es (record_visit now token v m)"
  by (simp_all add: record_all_def)

lemma record_all_ok:
  "book_ok m \<Longrightarrow> \<forall>(now, token, v) \<in> set es. token \<noteq> [] \<Longrightarrow> book_ok (record_all es m)"
  by (induction es arbitrary: m) (auto simp: record_visit_ok)

lemma record_all_times:
  assumes "book_ok m" "\<forall>(now, token, v) \<in> set es. token \<noteq> [] \<and> now < t" "\<forall>k w. gm_get m k = Some w \<longrightarrow> v_at w < t"
  shows "gm_get (record_all es m) k = Some w \<Longrightarrow> v_at w < t"
  using assms
proof (induction es arbitrary: m)
  case (Cons e es)
  obtain now token v where e: "e = (now, token, v)" by (cases e)
  have "v_at x < t" if "gm_get (record_visit now token v m) i = Some x" for i x
  proof (cases "i = token")
    case True
    with that Cons.prems(3,4) show ?thesis
      by (auto simp: e record_visit_self split: option.splits if_splits)
  next
    case False
    with record_visit_other [OF Cons.prems(2) that] Cons.prems(4) show ?thesis by blast
  qed
  then show ?case
    using Cons.prems by (intro Cons.IH [of "record_visit now token v m"]) (auto simp: e record_visit_ok)
qed auto

lemma record_all_keeps:
  assumes "book_ok m" "gm_get m k = Some w" "card (since (v_at w) m) + length es \<le> maxVisits"
    and "\<forall>(now, token, v) \<in> set es. token \<noteq> [] \<and> live now w"
  shows "gm_get (record_all es m) k = Some w"
  using assms
proof (induction es arbitrary: m)
  case (Cons e es)
  obtain now token v where e: "e = (now, token, v)" by (cases e)
  let ?m = "record_visit now token v m"
  have e': "token \<noteq> []" "live now w" using Cons.prems(4) by (auto simp: e)
  have "gm_get ?m k = Some w"
  proof (cases "k = token")
    case True
    with Cons.prems(2) e' show ?thesis by (simp add: record_visit_self)
  next
    case False
    with Cons.prems e'(2) show ?thesis by (intro record_visit_keeps) auto
  qed
  moreover have "card (since (v_at w) ?m) + length es \<le> maxVisits"
    using since_record_visit [OF Cons.prems(1), of "v_at w" now token v] Cons.prems(3) by simp
  ultimately show ?case
    using Cons.prems(4) e' by (auto simp: e intro!: Cons.IH record_visit_ok [OF Cons.prems(1)])
qed simp

text \<open>
  The book is bounded: whatever payments are kept in it, and whenever, under tokens that are not
  empty, it never holds more than 1000, and never two under one token.
\<close>

theorem visits_bounded:
  assumes "\<forall>(now, token, v) \<in> set es. token \<noteq> []"
  shows "gm_len (record_all es newVisitBook) \<le> 1000 \<and> distinct (map fst (record_all es newVisitBook))"
  using record_all_ok [OF book_ok_new assms] by (simp add: book_ok_def maxVisits_def gm_ok_def)

theorem visits_bounded_witness:
  "gm_len (record_all [(5, ''a'', zero_visit), (6, ''b'', zero_visit)] newVisitBook) \<le> 1000"
  using visits_bounded [of "[(5, ''a'', zero_visit), (6, ''b'', zero_visit)]"] by simp

text \<open>
  A page finds the payment made for it: the first payment kept under a token is what a lookup
  of the token answers for the next 15 minutes, whatever is kept meanwhile, other payments under the
  same token included, as long as that is fewer than 1000 payments and the payments before it came
  at earlier instants.
\<close>

theorem payment_findable:
  assumes "\<forall>(now, token, v) \<in> set (before @ after). token \<noteq> []" "token \<noteq> []"
    and "\<forall>e \<in> set before. fst e < t" "sorted_wrt (\<le>) (t # map fst after @ [u])"
    and "lookup_visit t token (record_all before newVisitBook) = None"
    and "length after < 1000" "u - t < 15 * minute"
  shows "lookup_visit u token (record_all after (record_visit t token v (record_all before newVisitBook))) =
    Some (v\<lparr>v_at := t\<rparr>)"
proof -
  let ?b = "record_all before newVisitBook" and ?w = "v\<lparr>v_at := t\<rparr>"
  let ?m = "record_visit t token v ?b"
  have ok: "book_ok ?b" using assms(1) by (intro record_all_ok) auto
  have here: "gm_get ?m token = Some ?w"
    using assms(5) by (auto simp: record_visit_self lookup_visit_def live_def split: option.splits if_splits)
  have "since t ?m \<subseteq> {token}"
  proof -
    have "v_at w < t" if "gm_get ?b k = Some w" for k w
      by (rule record_all_times [OF book_ok_new _ _ that]) (use assms(1,3) in \<open>fastforce simp: newVisitBook_def\<close>)+
    then show ?thesis using record_visit_other [OF ok, of t token v] by (fastforce simp: since_def)
  qed
  then have "card (since t ?m) \<le> 1" by (metis card_mono finite.emptyI finite_insert is_singletonI is_singleton_altdef)
  moreover have "\<forall>(now, i, x) \<in> set after. i \<noteq> [] \<and> live now ?w"
  proof -
    have "now \<le> u" if "(now, i, x) \<in> set after" for now i x
      using that assms(4) by (force simp: sorted_append)
    with assms(1,7) show ?thesis by (fastforce simp: live_iff visitTTL_def)
  qed
  ultimately have "gm_get (record_all after ?m) token = Some ?w"
    using assms(6) by (intro record_all_keeps record_visit_ok ok assms(2) here) (auto simp: maxVisits_def)
  moreover have "live u ?w" using assms(4,7) by (simp add: live_iff visitTTL_def)
  ultimately show ?thesis by (simp add: lookup_visit_Some)
qed

theorem payment_findable_witness:
  "lookup_visit 9 ''a'' (record_all [(7, ''a'', zero_visit), (8, ''b'', zero_visit)]
     (record_visit 6 ''a'' (zero_visit\<lparr>v_payer := ''g1''\<rparr>) (record_all [(5, ''c'', zero_visit)] newVisitBook))) =
   Some (zero_visit\<lparr>v_payer := ''g1'', v_at := 6\<rparr>)"
  using payment_findable [of "[(5, ''c'', zero_visit)]" "[(7, ''a'', zero_visit), (8, ''b'', zero_visit)]" "''a''" 6 9
      "zero_visit\<lparr>v_payer := ''g1''\<rparr>"]
  by (simp add: lookup_visit_def newVisitBook_def record_visit_def gm_len_def maxVisits_def minute_def second_def
      gm_put_def)

end
