(* ===== verification/Weather_Served.thy ===== *)
theory Weather_Served
  imports Go_Handler Json_Roundtrip Weather_Visits
begin

text \<open>
  How a payment comes into the book of \<open>examples/weather/visits.go\<close> and out of it: \<open>servedResponse\<close>, the
  writer that remembers what it passes through, \<open>recordSettled\<close> around the priced route, and
  \<open>lookupHandler\<close>, which a page asks. How x402 decodes its receipt is the argument \<open>parse_settle\<close>.
\<close>

definition maxVisitBody :: nat where "maxVisitBody = 4096"
definition lookupRatePerSecond :: int where "lookupRatePerSecond = 50"
definition lookupRateBurst :: int where "lookupRateBurst = 100"

text \<open>\<open>^[0-9a-f]{32}$\<close>\<close>

definition visit_token :: "string \<Rightarrow> bool" where
  "visit_token s \<longleftrightarrow> length s = 32 \<and> list_all (\<lambda>c. is_digit c \<or> c \<in> set ''abcdef'') s"

subsection \<open>The writer\<close>

record 'w servedResponse =
  sv_writer :: 'w
  sv_status :: int
  sv_body :: bytes

definition served_WriteHeader :: "'w response_writer \<Rightarrow> int \<Rightarrow> 'w servedResponse \<Rightarrow> 'w servedResponse" where
  "served_WriteHeader rw status s =
     (let s' = (if sv_status s = 0 then s\<lparr>sv_status := status\<rparr> else s) in
      s'\<lparr>sv_writer := rw_WriteHeader rw status (sv_writer s')\<rparr>)"

definition served_Write :: "'w response_writer \<Rightarrow> bytes \<Rightarrow> 'w servedResponse \<Rightarrow> write_result \<times> 'w servedResponse" where
  "served_Write rw p s =
     (let s1 = (if sv_status s = 0 then s\<lparr>sv_status := 200\<rparr> else s);
          room = int maxVisitBody + 1 - int (length (sv_body s1));
          s2 = (if 0 < room then s1\<lparr>sv_body := sv_body s1 @ take (min (length p) (nat room)) p\<rparr> else s1);
          (r, w) = rw_Write rw p (sv_writer s2) in
      (r, s2\<lparr>sv_writer := w\<rparr>))"

definition served_writer :: "'w response_writer \<Rightarrow> 'w servedResponse response_writer" where
  "served_writer rw =
     \<lparr>rw_Header = (\<lambda>s. rw_Header rw (sv_writer s)),
      rw_PutHeader = (\<lambda>h s. s\<lparr>sv_writer := rw_PutHeader rw h (sv_writer s)\<rparr>),
      rw_WriteHeader = served_WriteHeader rw, rw_Write = served_Write rw\<rparr>"

definition settled :: "(bytes \<Rightarrow> settle_response option) \<Rightarrow> 'w response_writer \<Rightarrow> 'w servedResponse \<Rightarrow> visit option" where
  "settled parse_settle rw s =
     (if sv_status s \<noteq> 200 then None
      else case b64_decode (header_get (rw_Header rw (sv_writer s)) ''PAYMENT-RESPONSE'') of
        None \<Rightarrow> None
      | Some raw \<Rightarrow>
          (case parse_settle raw of
             None \<Rightarrow> None
           | Some settle \<Rightarrow>
               if \<not> sr_success settle \<or> sr_transaction settle = [] then None
               else Some \<lparr>v_transaction = sr_transaction settle, v_network = sr_network settle,
                 v_payer = sr_payer settle,
                 v_body = (if length (sv_body s) \<le> maxVisitBody then sv_body s else []), v_at = zero_time\<rparr>))"

text \<open>
  \<open>recordSettled\<close>: \<open>book\<close> is the book, and \<open>now\<close> the clock, when \<open>next\<close> has returned. The response and
  the book afterwards.
\<close>

definition recordSettled ::
  "(bytes \<Rightarrow> settle_response option) \<Rightarrow> 'w response_writer \<Rightarrow> handler_run \<Rightarrow> string \<Rightarrow> instant \<Rightarrow>
   'w \<Rightarrow> visit_book \<Rightarrow> 'w \<times> visit_book" where
  "recordSettled parse_settle rw handler raw_query now w book =
     (let token = query_get raw_query ''visit'' in
      if \<not> visit_token token then (serve_on rw handler w, book)
      else
        (let served = serve_on (served_writer rw) handler \<lparr>sv_writer = w, sv_status = 0, sv_body = []\<rparr> in
         (sv_writer served,
          case settled parse_settle rw served of Some v \<Rightarrow> record_visit now token v book | None \<Rightarrow> book)))"

text \<open>\<open>lookupHandler\<close>: \<open>json.NewEncoder(w).Encode(v)\<close> writes the value and a newline.\<close>

definition visit_json :: "visit \<Rightarrow> json" where
  "visit_json v =
     JObject [(''transaction'', JString (v_transaction v)), (''network'', JString (v_network v)),
       (''payer'', JString (v_payer v)), (''body'', JString (v_body v))]"

definition lookupHandler :: "instant \<Rightarrow> string \<Rightarrow> visit_book \<Rightarrow> handler_run" where
  "lookupHandler now token book =
     SetHeader ''Cache-Control'' ''no-store''
      (case lookup_visit now token book of
         None \<Rightarrow> http_not_found
       | Some v \<Rightarrow>
           SetHeader ''Content-Type'' ''application/json''
             (Write (json_marshal (visit_json v) @ [CHR 0x0A]) (\<lambda>r. Served)))"

subsection \<open>Passing a response through\<close>

lemma take_rest: "(a :: nat) - (l + min p (a - l)) = a - (l + p)"
  by arith

lemma serve_on_served:
  "serve_on (served_writer rw) h s =
     \<lparr>sv_writer = serve_on rw h (sv_writer s),
      sv_status = (if sv_status s = 0 then sent_status (sent_on rw h (sv_writer s)) else sv_status s),
      sv_body = sv_body s @ take (Suc maxVisitBody - length (sv_body s)) (sent_body (sent_on rw h (sv_writer s)))\<rparr>"
  if "length (sv_body s) \<le> Suc maxVisitBody"
  using that
proof (induction h arbitrary: s)
  case (Write p h)
  obtain r w where call: "rw_Write rw p (sv_writer s) = (r, w)" by fastforce
  let ?s = "\<lparr>sv_writer = w, sv_status = (if sv_status s = 0 then 200 else sv_status s),
    sv_body = sv_body s @ take (Suc maxVisitBody - length (sv_body s)) p\<rparr>"
  have "nat (int maxVisitBody + 1 - int (length (sv_body s))) = Suc maxVisitBody - length (sv_body s)" by linarith
  then have "take (min (length p) (nat (int maxVisitBody + 1 - int (length (sv_body s))))) p =
      take (Suc maxVisitBody - length (sv_body s)) p"
    by (simp add: min_def)
  then have step: "served_Write rw p s = (r, ?s)"
    using call by (auto simp: served_Write_def Let_def)
  have "length (sv_body ?s) \<le> Suc maxVisitBody" using Write.prems by simp
  from Write.IH [OF rangeI this] show ?case
    by (simp add: served_writer_def step call Let_def take_rest)
qed (auto simp: served_writer_def served_WriteHeader_def Let_def)

text \<open>
  C31. Remembering a response does not change it: whatever handler is behind it and whatever the
  query names, the priced route does to its writer, call by call, what the handler alone would do.
\<close>

theorem served_unchanged:
  "fst (recordSettled parse_settle rw handler raw_query now w book) = serve_on rw handler w"
  by (simp add: recordSettled_def Let_def serve_on_served)

subsection \<open>What is kept\<close>

text \<open>The visit a response leaves, of what was sent in it and of its headers at the end.\<close>

definition visit_of :: "(bytes \<Rightarrow> settle_response option) \<Rightarrow> http_header \<Rightarrow> sent list \<Rightarrow> visit option" where
  "visit_of parse_settle h cs =
     (if sent_status cs \<noteq> 200 then None
      else case Option.bind (b64_decode (header_get h ''PAYMENT-RESPONSE'')) parse_settle of
        None \<Rightarrow> None
      | Some receipt \<Rightarrow>
          if sr_success receipt \<and> sr_transaction receipt \<noteq> []
          then Some \<lparr>v_transaction = sr_transaction receipt, v_network = sr_network receipt,
            v_payer = sr_payer receipt, v_body = (if length (sent_body cs) \<le> 4096 then sent_body cs else []),
            v_at = zero_time\<rparr>
          else None)"

lemma settled_visit_of:
  "settled parse_settle rw (serve_on (served_writer rw) h \<lparr>sv_writer = w, sv_status = 0, sv_body = []\<rparr>) =
     visit_of parse_settle (rw_Header rw (serve_on rw h w)) (sent_on rw h w)"
  by (auto simp: settled_def serve_on_served visit_of_def maxVisitBody_def min_def split: option.splits bind_splits)

text \<open>
  What the book keeps of a request is decided by the request's token and by the response alone:
  a payment is kept exactly when the query names a token, 32 lower-case hexadecimal digits, the
  status sent first is 200, and the receipt among the headers reports a settled transaction. With it
  is kept the whole body, or none of a body over 4096 bytes, and never a part of one.
\<close>

theorem recordSettled_book:
  "snd (recordSettled parse_settle rw handler raw_query now w book) =
     (if visit_token (query_get raw_query ''visit'')
      then case visit_of parse_settle (rw_Header rw (serve_on rw handler w)) (sent_on rw handler w) of
        Some v \<Rightarrow> record_visit now (query_get raw_query ''visit'') v book
      | None \<Rightarrow> book
      else book)"
  by (simp add: recordSettled_def Let_def settled_visit_of)

subsection \<open>What a page is told\<close>

text \<open>The answer as a client reads it: its status, whether it may be cached, and the fields of its body.\<close>

definition visit_fields :: "visit fields" where
  "visit_fields =
     [(''transaction'', \<lambda>j v. map_option (\<lambda>s. v\<lparr>v_transaction := s\<rparr>) (into_string j (v_transaction v))),
      (''network'', \<lambda>j v. map_option (\<lambda>s. v\<lparr>v_network := s\<rparr>) (into_string j (v_network v))),
      (''payer'', \<lambda>j v. map_option (\<lambda>s. v\<lparr>v_payer := s\<rparr>) (into_string j (v_payer v))),
      (''body'', \<lambda>j v. map_option (\<lambda>s. v\<lparr>v_body := s\<rparr>) (into_string j (v_body v)))]"

definition read_visit :: "bytes \<Rightarrow> visit option" where
  "read_visit text = Option.bind (json_unmarshal text) (\<lambda>j. into_struct visit_fields j zero_visit)"

definition visit_utf8 :: "visit \<Rightarrow> bool" where
  "visit_utf8 v \<longleftrightarrow> (\<forall>s \<in> {v_transaction v, v_network v, v_payer v, v_body v}. utf8_coerce s = s)"

lemma visit_keys:
  "utf8_coerce ''transaction'' = ''transaction''" "utf8_coerce ''network'' = ''network''"
  "utf8_coerce ''payer'' = ''payer''" "utf8_coerce ''body'' = ''body''"
  by (simp_all add: utf8_ascii)

lemma unmarshal_newline:
  assumes "json_unmarshal s = Some v"
  shows "json_unmarshal (s @ [CHR 0x0A]) = Some v"
proof -
  obtain m where m: "scan s (DueValue []) = Some m" "scanned m = Some v"
    using assms by (auto simp: json_unmarshal_def split: option.splits)
  have "scan_char (CHR 0x0A) m = Some (ValueEnded v [])"
    using scanned_cases [OF m(2)] by (auto simp: json_space_def num_step_delimiter json_delimiter_def)
  then show ?thesis by (simp add: json_unmarshal_def scan_append_Some [OF m(1)])
qed

lemma read_visit_json:
  assumes "visit_utf8 v"
  shows "read_visit (json_marshal (visit_json v) @ [CHR 0x0A]) = Some (v\<lparr>v_at := zero_time\<rparr>)"
proof -
  have "json_ok maxNestingDepth (visit_json v)" by (simp add: visit_json_def maxNestingDepth_def)
  then have "json_unmarshal (json_marshal (visit_json v) @ [CHR 0x0A]) = Some (json_canon (visit_json v))"
    by (intro unmarshal_newline json_unmarshal_marshal)
  with assms show ?thesis
    by (simp add: read_visit_def visit_json_def visit_keys visit_fields_def field_of_def zero_visit_def visit_utf8_def)
qed

lemma lookup_response:
  "serve_on keeping (lookupHandler now token book) no_response =
     (case lookup_visit now token book of
        None \<Rightarrow> \<lparr>kr_header = [(''Cache-Control'', [''no-store'']), (''Content-Type'', [''text/plain; charset=utf-8'']),
            (''X-Content-Type-Options'', [''nosniff''])],
          kr_status = 404, kr_body = ''404 page not found'' @ [CHR 0x0A]\<rparr>
      | Some v \<Rightarrow> \<lparr>kr_header = [(''Cache-Control'', [''no-store'']), (''Content-Type'', [''application/json''])],
          kr_status = 200, kr_body = json_marshal (visit_json v) @ [CHR 0x0A]\<rparr>)"
proof -
  have keys: "canonical_key ''Cache-Control'' = ''Cache-Control''" "canonical_key ''Content-Type'' = ''Content-Type''"
    "canonical_key ''Content-Length'' = ''Content-Length''"
    "canonical_key ''X-Content-Type-Options'' = ''X-Content-Type-Options''"
    by code_simp+
  show ?thesis
    by (cases "lookup_visit now token book")
      (simp_all add: lookupHandler_def http_not_found_def http_error_def keeping_def no_response_def header_set_def
        header_del_def keys gm_put_def gm_del_def)
qed

text \<open>
  C30. A page learns of its payment, if it is the first: take a request to the priced route that names
  a page's token, and a response that settles it with texts of valid UTF-8, when every earlier payment
  was settled at an earlier instant and fewer than 1000 are settled after it. If no live payment
  stands under the token, then for the next 15 minutes the lookup of the token answers 200 with a text
  that reads back as the transaction, network and payer of that payment and the body that was served,
  the empty body when that was over 4096 bytes. If one stands there, the book is left as it is: the
  first payment stays.
\<close>

theorem page_learns_payment:
  fixes rw :: "'w response_writer"
  assumes "visit_token token" "query_get raw_query ''visit'' = token"
    and "visit_of parse_settle (rw_Header rw (serve_on rw handler w)) (sent_on rw handler w) = Some v" "visit_utf8 v"
    and "\<forall>(now, token, v) \<in> set (before @ after). token \<noteq> []" "\<forall>e \<in> set before. fst e < t"
    and "sorted_wrt (\<le>) (t # map fst after @ [u])" "length after < 1000" "u - t < 15 * minute"
    and book: "book = snd (recordSettled parse_settle rw handler raw_query t w (record_all before newVisitBook))"
    and answer: "answer = serve_on keeping (lookupHandler u token (record_all after book)) no_response"
  shows "(lookup_visit t token (record_all before newVisitBook) = None \<longrightarrow>
      kr_status answer = 200 \<and> read_visit (kr_body answer) = Some (v\<lparr>v_at := zero_time\<rparr>)) \<and>
    (lookup_visit t token (record_all before newVisitBook) \<noteq> None \<longrightarrow> book = record_all before newVisitBook) \<and>
    v_body v = (if length (sent_body (sent_on rw handler w)) \<le> 4096 then sent_body (sent_on rw handler w) else [])"
proof (intro conjI impI)
  have token: "token \<noteq> []" using assms(1) by (auto simp: visit_token_def)
  have kept: "book = record_visit t token v (record_all before newVisitBook)"
    using assms(1-3) by (simp add: book recordSettled_def Let_def settled_visit_of)
  show "v_body v = (if length (sent_body (sent_on rw handler w)) \<le> 4096 then sent_body (sent_on rw handler w) else [])"
    using assms(3) by (auto simp: visit_of_def split: option.splits if_splits)
  show "book = record_all before newVisitBook" if "lookup_visit t token (record_all before newVisitBook) \<noteq> None"
    using that by (auto simp: kept record_visit_def lookup_visit_def split: option.splits if_splits)
  assume "lookup_visit t token (record_all before newVisitBook) = None"
  then have "lookup_visit u token (record_all after book) = Some (v\<lparr>v_at := t\<rparr>)"
    unfolding kept by (intro payment_findable assms token)
  moreover have "visit_utf8 (v\<lparr>v_at := t\<rparr>)" using assms(4) by (simp add: visit_utf8_def)
  ultimately show "kr_status answer = 200" "read_visit (kr_body answer) = Some (v\<lparr>v_at := zero_time\<rparr>)"
    using read_visit_json [of "v\<lparr>v_at := t\<rparr>"] by (simp_all add: answer lookup_response)
qed

text \<open>A request that pays: its token, what the handler serves it, and how its receipt is read.\<close>

definition sample_token :: string where "sample_token = replicate 32 (CHR ''a'')"

definition sample_handler :: handler_run where
  "sample_handler =
     SetHeader ''PAYMENT-RESPONSE'' (b64_encode ''r'') (WriteHeader 200 (Write ''sunny'' (\<lambda>r. Served)))"

definition sample_receipt :: "bytes \<Rightarrow> settle_response option" where
  "sample_receipt raw = Some \<lparr>sr_success = True, sr_transaction = ''h'', sr_network = ''gno:dev'', sr_payer = ''g1'',
     sr_reason = []\<rparr>"

definition sample_visit :: visit where
  "sample_visit = \<lparr>v_transaction = ''h'', v_network = ''gno:dev'', v_payer = ''g1'', v_body = ''sunny'', v_at = zero_time\<rparr>"

lemma sample_visited:
  "visit_of sample_receipt (rw_Header keeping (serve_on keeping sample_handler no_response))
     (sent_on keeping sample_handler no_response) = Some sample_visit"
proof -
  have key: "canonical_key ''PAYMENT-RESPONSE'' = ''Payment-Response''" by code_simp
  show ?thesis
    by (simp add: visit_of_def sample_handler_def sample_receipt_def keeping_def no_response_def header_set_def header_get_def
        gm_put_def key b64_roundtrip sample_visit_def
        del: b64_encode.simps)
qed

theorem page_learns_payment_witness:
  "\<exists>answer. answer = serve_on keeping (lookupHandler 9 sample_token
      (snd (recordSettled sample_receipt keeping sample_handler (''visit='' @ sample_token) 5 no_response newVisitBook)))
      no_response \<and>
    kr_status answer = 200 \<and> read_visit (kr_body answer) = Some sample_visit"
proof -
  have "visit_token sample_token"
    by (simp add: visit_token_def sample_token_def list_all_iff)
  moreover have "query_get (''visit='' @ sample_token) ''visit'' = sample_token" by code_simp
  moreover have "visit_utf8 sample_visit" by (simp add: visit_utf8_def sample_visit_def utf8_ascii)
  moreover have "lookup_visit 5 sample_token (record_all [] newVisitBook) = None"
    by (simp add: lookup_visit_def newVisitBook_def)
  ultimately show ?thesis
    using page_learns_payment [OF _ _ sample_visited _ _ _ _ _ _ refl refl, of sample_token "''visit='' @ sample_token" "[]" "[]" 5 9]
    by (simp add: minute_def second_def sample_visit_def)
qed

end
