(* ===== verification/Weather_Sync.thy ===== *)
theory Weather_Sync
  imports X402_Types
begin

text \<open>
  \<open>examples/weather/sync.go\<close>: how a seller whose facilitator was not there at the start asks it again.
  The server, the facilitator client and the wait are the upstream library's and the runtime's: they
  are the functions of \<open>sync_lib\<close>, on a world. The loop ends when the server knows a facilitator or the
  context ends, and may go on for ever: it is a partial function.
\<close>

definition syncRetryMin :: duration where "syncRetryMin = second"
definition syncRetryMax :: duration where "syncRetryMax = 30 * second"
definition syncTimeout :: duration where "syncTimeout = 5 * second"

record 'w sync_lib =
  \<comment> \<open>\<open>facilitator.GetSupported\<close> and \<open>server.Initialize\<close> under a context with that timeout\<close>
  get_supported :: "duration \<Rightarrow> 'w \<Rightarrow> go_error option \<times> 'w"
  initialize :: "duration \<Rightarrow> 'w \<Rightarrow> go_error option \<times> 'w"
  \<comment> \<open>\<open>server.HasFacilitatorSupport\<close> of the network and the scheme\<close>
  has_support :: "'w \<Rightarrow> bool"
  \<comment> \<open>the \<open>select\<close>: whether the context ended before the time was over\<close>
  wait_or_done :: "duration \<Rightarrow> 'w \<Rightarrow> bool \<times> 'w"

definition syncOnce :: "'w sync_lib \<Rightarrow> 'w \<Rightarrow> go_error option \<times> 'w" where
  "syncOnce L w =
     (let (err, w') = get_supported L syncTimeout w in
      case err of Some e \<Rightarrow> (Some e, w') | None \<Rightarrow> initialize L syncTimeout w')"

datatype sync_end = ContextEnded | Synced

partial_function (option) sync_loop :: "'w sync_lib \<Rightarrow> duration \<Rightarrow> 'w \<Rightarrow> (sync_end \<times> 'w) option" where
  "sync_loop L delay w =
     (case wait_or_done L delay w of (ended, w1) \<Rightarrow>
        if ended then Some (ContextEnded, w1)
        else (case syncOnce L w1 of (err, w2) \<Rightarrow>
          if has_support L w2 then Some (Synced, w2)
          else sync_loop L (min (2 * delay) syncRetryMax) w2))"

definition keepSyncing :: "'w sync_lib \<Rightarrow> 'w \<Rightarrow> (sync_end \<times> 'w) option" where
  "keepSyncing L w = (if has_support L w then Some (Synced, w) else sync_loop L syncRetryMin w)"

text \<open>
  Time: a wait is over when its time is, unless the context ends it sooner, and a question under a
  timeout is answered by its end. \<open>served_from\<close> says that a question begun at \<open>T\<close> or later leaves the
  server with a facilitator.
\<close>

definition sync_laws :: "'w sync_lib \<Rightarrow> ('w \<Rightarrow> instant) \<Rightarrow> bool" where
  "sync_laws L clk \<longleftrightarrow> (\<forall>d \<ge> 0. \<forall>w.
     (let (ended, w') = wait_or_done L d w in
        clk w \<le> clk w' \<and> clk w' \<le> clk w + d \<and> (\<not> ended \<longrightarrow> clk w' = clk w + d)) \<and>
     clk w \<le> clk (snd (get_supported L d w)) \<and> clk (snd (get_supported L d w)) \<le> clk w + d \<and>
     clk w \<le> clk (snd (initialize L d w)) \<and> clk (snd (initialize L d w)) \<le> clk w + d)"

definition served_from :: "'w sync_lib \<Rightarrow> ('w \<Rightarrow> instant) \<Rightarrow> instant \<Rightarrow> bool" where
  "served_from L clk T \<longleftrightarrow> (\<forall>w. T \<le> clk w \<longrightarrow> has_support L (snd (syncOnce L w)))"

lemma wait_time:
  assumes "sync_laws L clk" "0 \<le> d" "wait_or_done L d w = (ended, w')"
  shows "clk w \<le> clk w'" "clk w' \<le> clk w + d" "\<not> ended \<Longrightarrow> clk w' = clk w + d"
proof -
  have "let (ended, w') = wait_or_done L d w in
      clk w \<le> clk w' \<and> clk w' \<le> clk w + d \<and> (\<not> ended \<longrightarrow> clk w' = clk w + d)"
    using assms(1,2) unfolding sync_laws_def by blast
  then show "clk w \<le> clk w'" "clk w' \<le> clk w + d" "\<not> ended \<Longrightarrow> clk w' = clk w + d"
    by (simp_all add: assms(3))
qed

lemma syncOnce_time:
  assumes "sync_laws L clk"
  shows "clk w \<le> clk (snd (syncOnce L w))" "clk (snd (syncOnce L w)) \<le> clk w + 10 * second"
proof -
  obtain e w1 where g: "get_supported L syncTimeout w = (e, w1)" by fastforce
  obtain e' w2 where i: "initialize L syncTimeout w1 = (e', w2)" by fastforce
  have d: "0 \<le> syncTimeout" by (simp add: syncTimeout_def second_def)
  have "clk w \<le> clk (snd (get_supported L syncTimeout w))" "clk (snd (get_supported L syncTimeout w)) \<le> clk w + syncTimeout"
    "clk w1 \<le> clk (snd (initialize L syncTimeout w1))" "clk (snd (initialize L syncTimeout w1)) \<le> clk w1 + syncTimeout"
    using assms d unfolding sync_laws_def by auto
  then have "clk w \<le> clk w1" "clk w1 \<le> clk w + syncTimeout" "clk w1 \<le> clk w2" "clk w2 \<le> clk w1 + syncTimeout"
    unfolding g i by simp_all
  moreover have "syncOnce L w = (case e of Some e \<Rightarrow> (Some e, w1) | None \<Rightarrow> (e', w2))"
    by (cases e) (simp_all add: syncOnce_def g i)
  ultimately show "clk w \<le> clk (snd (syncOnce L w))" "clk (snd (syncOnce L w)) \<le> clk w + 10 * second"
    by (auto simp: syncTimeout_def second_def split: option.splits)
qed

text \<open>One turn of the loop: it is the last, or its question began before \<open>T\<close>.\<close>

definition sync_over :: "'w sync_lib \<Rightarrow> ('w \<Rightarrow> instant) \<Rightarrow> instant \<Rightarrow> (sync_end \<times> 'w) option \<Rightarrow> bool" where
  "sync_over L clk by_then res \<longleftrightarrow>
     (\<exists>e w'. res = Some (e, w') \<and> clk w' \<le> by_then \<and>
        (case e of Synced \<Rightarrow> has_support L w' | ContextEnded \<Rightarrow> \<exists>d v. fst (wait_or_done L d v)))"

lemma sync_turn:
  assumes laws: "sync_laws L clk" and up: "served_from L clk T" and d: "0 \<le> delay"
  shows "sync_over L clk (clk w + delay + 10 * second) (sync_loop L delay w) \<or>
    (\<exists>w2. sync_loop L delay w = sync_loop L (min (2 * delay) syncRetryMax) w2 \<and>
      clk w + delay < T \<and> clk w + delay \<le> clk w2 \<and> clk w2 \<le> clk w + delay + 10 * second)"
proof -
  obtain ended w1 where w1: "wait_or_done L delay w = (ended, w1)" by fastforce
  obtain err w2 where w2: "syncOnce L w1 = (err, w2)" by fastforce
  note t = wait_time [OF laws d w1]
  have u: "clk w1 \<le> clk w2" "clk w2 \<le> clk w1 + 10 * second"
    using syncOnce_time [OF laws, of w1] w2 by simp_all
  consider "ended" | "\<not> ended" "has_support L w2" | "\<not> ended" "\<not> has_support L w2" by blast
  then show ?thesis
  proof cases
    case 1
    have "fst (wait_or_done L delay w)" using 1 w1 by simp
    moreover have "clk w1 \<le> clk w + delay + 10 * second" using t(2) by (simp add: second_def)
    moreover have "sync_loop L delay w = Some (ContextEnded, w1)" using 1 by (subst sync_loop.simps) (simp add: w1)
    ultimately show ?thesis by (auto simp: sync_over_def)
  next
    case 2
    have "sync_loop L delay w = Some (Synced, w2)" using 2 by (subst sync_loop.simps) (simp add: w1 w2)
    with 2 t(2) u(2) show ?thesis by (simp add: sync_over_def)
  next
    case 3
    have "clk w1 < T" using up w2 3 unfolding served_from_def by (metis not_le snd_conv)
    moreover have "sync_loop L delay w = sync_loop L (min (2 * delay) syncRetryMax) w2"
      using 3 by (subst sync_loop.simps) (simp add: w1 w2)
    ultimately show ?thesis using t(3) u 3 by auto
  qed
qed

lemma sync_over_later: "sync_over L clk t res \<Longrightarrow> t \<le> u \<Longrightarrow> sync_over L clk u res"
  by (auto simp: sync_over_def)

lemma sync_loop_catches_up:
  assumes laws: "sync_laws L clk" and up: "served_from L clk T"
  shows "second \<le> delay \<Longrightarrow> delay \<le> syncRetryMax \<Longrightarrow> clk w \<le> B + 10 * second \<Longrightarrow> T \<le> B \<Longrightarrow>
    sync_over L clk (B + 50 * second) (sync_loop L delay w)"
proof (induction "nat (T - clk w)" arbitrary: w delay rule: less_induct)
  case (less w delay)
  have d: "0 \<le> delay" using less.prems(1) by (simp add: second_def)
  consider "sync_over L clk (clk w + delay + 10 * second) (sync_loop L delay w)"
    | w2 where "sync_loop L delay w = sync_loop L (min (2 * delay) syncRetryMax) w2"
      "clk w + delay < T" "clk w + delay \<le> clk w2" "clk w2 \<le> clk w + delay + 10 * second"
    using sync_turn [OF laws up d] by blast
  then show ?case
  proof cases
    case 1
    then show ?thesis
      using less.prems by (elim sync_over_later) (simp add: syncRetryMax_def)
  next
    case 2
    have "nat (T - clk w2) < nat (T - clk w)" using 2 less.prems(1) by (simp add: second_def)
    moreover have "second \<le> min (2 * delay) syncRetryMax" "min (2 * delay) syncRetryMax \<le> syncRetryMax"
      using less.prems(1) by (auto simp: syncRetryMax_def second_def)
    moreover have "clk w2 \<le> B + 10 * second" using 2 less.prems(4) by simp
    ultimately show ?thesis using less.hyps less.prems(4) 2(1) by simp
  qed
qed

text \<open>
  C32. A seller catches up with its facilitator without a restart: when a question begun at \<open>T\<close> or later
  is answered with what the seller needs, the loop is over within 50 seconds of \<open>T\<close>, or of its start
  if that is later: payments are accepted, or the seller was stopped meanwhile.
\<close>

theorem sync_catches_up:
  assumes "sync_laws L clk" "served_from L clk T"
  shows "\<exists>e w'. keepSyncing L w = Some (e, w') \<and> clk w' \<le> max T (clk w) + 50 * second \<and>
    (case e of Synced \<Rightarrow> has_support L w' | ContextEnded \<Rightarrow> \<exists>d v. fst (wait_or_done L d v))"
proof (cases "has_support L w")
  case False
  have "sync_over L clk (max T (clk w) + 50 * second) (sync_loop L syncRetryMin w)"
    by (rule sync_loop_catches_up [OF assms]) (auto simp: syncRetryMin_def syncRetryMax_def second_def)
  with False show ?thesis by (simp add: keepSyncing_def sync_over_def)
qed (auto simp: keepSyncing_def second_def)

text \<open>A world that is its clock and whether the server is synced: the facilitator is there from \<open>T\<close> on.\<close>

definition late_facilitator :: "instant \<Rightarrow> (instant \<times> bool) sync_lib" where
  "late_facilitator T =
     \<lparr>get_supported = \<lambda>d w. (if fst w < T then Some (ErrorString ''refused'') else None, w),
      initialize = \<lambda>d w. (None, (fst w, True)), has_support = snd,
      wait_or_done = \<lambda>d w. (False, (fst w + d, snd w))\<rparr>"

theorem sync_catches_up_witness:
  "\<exists>w'. keepSyncing (late_facilitator (7 * second)) (0, False) = Some (Synced, w') \<and> fst w' \<le> 57 * second \<and> snd w'"
proof -
  have "sync_laws (late_facilitator (7 * second)) fst"
    by (simp add: sync_laws_def late_facilitator_def)
  moreover have "served_from (late_facilitator (7 * second)) fst (7 * second)"
    by (simp add: served_from_def late_facilitator_def syncOnce_def)
  ultimately obtain e w' where "keepSyncing (late_facilitator (7 * second)) (0, False) = Some (e, w')"
    "fst w' \<le> max (7 * second) (fst (0 :: instant, False)) + 50 * second"
    "case e of Synced \<Rightarrow> has_support (late_facilitator (7 * second)) w'
      | ContextEnded \<Rightarrow> \<exists>d v. fst (wait_or_done (late_facilitator (7 * second)) d v)"
    using sync_catches_up [of "late_facilitator (7 * second)" fst "7 * second" "(0, False)"] by blast
  then show ?thesis by (cases e) (auto simp: late_facilitator_def second_def)
qed

end
