(* ===== verification/Weather_Main.thy ===== *)
theory Weather_Main
  imports Go_Fmt Weather_Rate Weather_Served Weather_Sync Server_Exact Exact_Test "HOL-Library.Signed_Division"
begin

text \<open>
  \<open>examples/weather/main.go\<close>: the seller. What it offers is built from its flags, and what it serves is
  the upstream payment middleware behind a rate limit, with the lookups of \<open>visits.go\<close> beside it. The
  middleware, which asks the facilitator, is the argument \<open>paid\<close>: what it does with a request, on a
  world of its own. \<open>url.Parse\<close>, \<open>JoinPath\<close>, the coin's own text and the page's template are arguments
  too; which pattern of the mux a request matches is part of the request.
\<close>

definition paymentTimeout :: duration where "paymentTimeout = 60 * second"
definition weather_writeTimeout :: duration where "weather_writeTimeout = paymentTimeout + 10 * second"
definition drainTimeout :: duration where "drainTimeout = weather_writeTimeout"
definition paymentScheme :: string where "paymentScheme = ''exact''"
definition weatherPath :: string where "weatherPath = ''/weather''"
definition ugnotPerGNOT :: int where "ugnotPerGNOT = 1000000"

record sellerConfig =
  cfg_network :: string
  cfg_payTo :: string
  cfg_price :: coin
  cfg_publicURL :: string
  cfg_ratePerSecond :: float64
  cfg_rateBurst :: int

text \<open>\<open>/\<close> and \<open>%\<close> on an int64 truncate towards zero.\<close>

definition shownAmount :: "coin \<Rightarrow> string \<times> string" where
  "shownAmount c =
     (if coin_denom c \<noteq> ''ugnot'' then (format_int (sint (coin_amount c)), coin_denom c)
      else
        (let whole = sint (coin_amount c) sdiv ugnotPerGNOT; fraction = sint (coin_amount c) smod ugnotPerGNOT in
         if fraction = 0 then (format_int whole, ''GNOT'')
         else (format_int whole @ ''.'' @ trim_right_zeros (format_int_padded 6 fraction), ''GNOT'')))"

record reading =
  rd_celsius :: int
  rd_forecast :: string
  rd_location :: string

definition sampleReadings :: "reading list" where
  "sampleReadings =
     [\<lparr>rd_celsius = 24, rd_forecast = ''sunny'', rd_location = ''Paris''\<rparr>,
      \<lparr>rd_celsius = 14, rd_forecast = ''rain'', rd_location = ''Paris''\<rparr>,
      \<lparr>rd_celsius = 1, rd_forecast = ''snow'', rd_location = ''Paris''\<rparr>]"

definition reading_json :: "reading \<Rightarrow> json" where
  "reading_json r =
     JObject [(''celsius'', JNumber (format_int (rd_celsius r))), (''forecast'', JString (rd_forecast r)),
       (''location'', JString (rd_location r))]"

text \<open>The state of \<open>rotatingWeather\<close> is its counter, a uint64.\<close>

definition rotatingWeather :: "reading list \<Rightarrow> int \<Rightarrow> u64 \<Rightarrow> handler_run \<times> u64" where
  "rotatingWeather readings start served =
     (let served' = served + 1;
          r = readings ! unat ((word_of_int start + served' - 1) mod word_of_nat (length readings)) in
      (SetHeader ''Content-Type'' ''application/json''
        (Write (json_marshal (reading_json r) @ [CHR 0x0A]) (\<lambda>r. Served)), served'))"

definition explorerTxURL :: "string \<Rightarrow> string" where
  "explorerTxURL chainID =
     (if chainID = ''onyx-1'' then ''https://gnoscan.io/transactions/details?chainId=onyx-1&txhash='' else '''')"

definition faucetHost :: "string \<Rightarrow> string" where
  "faucetHost chainID = (if chainID = ''onyx-1'' then ''faucet.gno.land'' else '''')"

definition demoLabel :: "string \<Rightarrow> string" where
  "demoLabel chainID = (if chainID = ''dev'' then ''local demo'' else ''testnet demo'')"

subsection \<open>The seller\<close>

text \<open>The public URL the 402 names, or "" for each request's own.\<close>

definition seller_resource ::
  "(string \<Rightarrow> parsed_url option) \<Rightarrow> (parsed_url \<Rightarrow> string \<Rightarrow> string) \<Rightarrow> string \<Rightarrow> go_error + string" where
  "seller_resource url_parse join_path publicURL =
     (if publicURL = '''' then Inr ''''
      else
        (case url_parse publicURL of
           None \<Rightarrow> Inl (ErrorString (''-public-url '' @ strconv_quote publicURL @ '' is not a plain absolute http or https URL''))
         | Some base \<Rightarrow>
             if u_scheme base \<noteq> ''https'' \<and> u_scheme base \<noteq> ''http'' \<or> u_host base = '''' \<or>
               u_has_user base \<or> u_raw_query base \<noteq> '''' \<or> u_force_query base \<or> u_fragment base \<noteq> ''''
             then Inl (ErrorString (''-public-url '' @ strconv_quote publicURL @ '' is not a plain absolute http or https URL''))
             else Inr (join_path base weatherPath)))"

record paywall_page =
  pg_amount :: string
  pg_unit :: string
  pg_coin :: string
  pg_network :: string
  pg_chainID :: string
  pg_payTo :: string
  pg_txURL :: string
  pg_faucet :: string
  pg_demo :: string

definition seller_page :: "(coin \<Rightarrow> string) \<Rightarrow> sellerConfig \<Rightarrow> paywall_page" where
  "seller_page coin_string cfg =
     (let (amount, unit) = shownAmount (cfg_price cfg); chainID = trim_prefix (cfg_network cfg) ''gno:'' in
      \<lparr>pg_amount = amount, pg_unit = unit, pg_coin = coin_string (cfg_price cfg), pg_network = cfg_network cfg,
       pg_chainID = chainID, pg_payTo = cfg_payTo cfg, pg_txURL = explorerTxURL chainID,
       pg_faucet = faucetHost chainID, pg_demo = demoLabel chainID\<rparr>)"

record payment_route =
  rt_resource :: string
  rt_scheme :: string
  rt_payTo :: string
  rt_price :: asset_amount
  rt_network :: string
  rt_description :: string
  rt_mimeType :: string
  rt_html :: string

definition seller_route :: "sellerConfig \<Rightarrow> string \<Rightarrow> string \<Rightarrow> payment_route" where
  "seller_route cfg resource html =
     \<lparr>rt_resource = resource, rt_scheme = paymentScheme, rt_payTo = cfg_payTo cfg,
      rt_price = \<lparr>aa_asset = coin_denom (cfg_price cfg), aa_amount = format_int (sint (coin_amount (cfg_price cfg))),
        aa_extra = None\<rparr>,
      rt_network = cfg_network cfg, rt_description = ''Sample weather data (demo)'',
      rt_mimeType = ''application/json'', rt_html = html\<rparr>"

record 'u seller =
  sl_route :: payment_route
  sl_location :: string
  sl_limit :: rateLimit
  sl_lookups :: rateLimit
  sl_visits :: visit_book
  sl_world :: 'u

definition newSeller ::
  "(string \<Rightarrow> parsed_url option) \<Rightarrow> (parsed_url \<Rightarrow> string \<Rightarrow> string) \<Rightarrow> (coin \<Rightarrow> string) \<Rightarrow>
   (paywall_page \<Rightarrow> go_error + string) \<Rightarrow> instant \<Rightarrow> sellerConfig \<Rightarrow> 'u \<Rightarrow> go_error + 'u seller" where
  "newSeller url_parse join_path coin_string render now cfg u =
     (case seller_resource url_parse join_path (cfg_publicURL cfg) of
        Inl err \<Rightarrow> Inl err
      | Inr resource \<Rightarrow>
          (case render (seller_page coin_string cfg) of
             Inl err \<Rightarrow> Inl (WrapError ''render the paywall'' err)
           | Inr html \<Rightarrow>
               Inr \<lparr>sl_route = seller_route cfg resource html,
                    sl_location = (if resource \<noteq> '''' then resource else trim_prefix weatherPath ''/''),
                    sl_limit = newRateLimit (cfg_ratePerSecond cfg) (cfg_rateBurst cfg) now,
                    sl_lookups = newRateLimit (Fin (of_int lookupRatePerSecond)) lookupRateBurst now,
                    sl_visits = newVisitBook, sl_world = u\<rparr>))"

text \<open>A request: the pattern it matches, its query, and what else the middleware reads of it.\<close>

datatype seller_pattern = WeatherRoute | VisitRoute string | HostRoute | IconRoute

record 'r seller_request =
  sq_pattern :: seller_pattern
  sq_query :: string
  sq_rest :: 'r

definition favicon_handler :: "bytes \<Rightarrow> handler_run" where
  "favicon_handler favicon =
     SetHeader ''Content-Type'' ''image/x-icon''
      (SetHeader ''Cache-Control'' ''public, max-age=86400'' (Write favicon (\<lambda>r. Served)))"

definition host_handler :: "string \<Rightarrow> handler_run" where
  "host_handler location = SetHeader ''Location'' location (WriteHeader 303 Served)"

text \<open>
  One request, from the mux on: it comes at \<open>now\<close>, and what it asks of the middleware is done at
  \<open>later\<close>.
\<close>

definition seller_serve ::
  "bytes \<Rightarrow> (bytes \<Rightarrow> settle_response option) \<Rightarrow> (payment_route \<Rightarrow> 'r seller_request \<Rightarrow> 'u \<Rightarrow> handler_run \<times> 'u) \<Rightarrow>
   'w response_writer \<Rightarrow> instant \<Rightarrow> instant \<Rightarrow> 'r seller_request \<Rightarrow> 'w \<times> 'u seller \<Rightarrow> 'w \<times> 'u seller" where
  "seller_serve favicon parse_settle paid rw now later req ws =
     (let s = snd ws in
      case sq_pattern req of
        WeatherRoute \<Rightarrow>
          (let (l, ws') = guard rw now
             (\<lambda>(w, s). let (h, u) = paid (sl_route s) req (sl_world s);
                           (w', book) = recordSettled parse_settle rw h (sq_query req) later w (sl_visits s) in
                       (w', s\<lparr>sl_world := u, sl_visits := book\<rparr>))
             (sl_limit s) ws in
           (fst ws', snd ws'\<lparr>sl_limit := l\<rparr>))
      | VisitRoute token \<Rightarrow>
          (let (l, ws') = guard rw now
             (\<lambda>(w, s). (serve_on rw (lookupHandler now token (sl_visits s)) w, s)) (sl_lookups s) ws in
           (fst ws', snd ws'\<lparr>sl_lookups := l\<rparr>))
      | HostRoute \<Rightarrow> (serve_on rw (host_handler (sl_location s)) (fst ws), s)
      | IconRoute \<Rightarrow> (serve_on rw (favicon_handler favicon) (fst ws), s))"

subsection \<open>The command\<close>

record weather_flags =
  wf_network :: string
  wf_payTo :: string
  wf_price :: string
  wf_publicURL :: string
  wf_ratePerSecond :: float64
  wf_rateBurst :: int

datatype 'u weather_started = WeatherExited int | WeatherServing "'u seller"

definition weather_start ::
  "(string \<Rightarrow> coin option) \<Rightarrow> (sellerConfig \<Rightarrow> go_error + 'u seller) \<Rightarrow> weather_flags \<Rightarrow> bool \<Rightarrow> 'u weather_started" where
  "weather_start parse_coin new_seller fl listen_ok =
     (if wf_payTo fl = '''' then WeatherExited 2
      else
        (case parse_coin (wf_price fl) of
           None \<Rightarrow> WeatherExited 2
         | Some c \<Rightarrow>
             (case new_seller \<lparr>cfg_network = wf_network fl, cfg_payTo = wf_payTo fl, cfg_price = c,
                 cfg_publicURL = wf_publicURL fl, cfg_ratePerSecond = wf_ratePerSecond fl,
                 cfg_rateBurst = wf_rateBurst fl\<rparr> of
                Inl err \<Rightarrow> WeatherExited 1
              | Inr seller \<Rightarrow> if \<not> listen_ok then WeatherExited 1 else WeatherServing seller)))"

text \<open>
  \<open>serve\<close>: \<open>failed\<close> is what \<open>Serve\<close> returned before the context was done, if it did, \<open>drained\<close> what
  \<open>Shutdown\<close> returned within \<open>drain\<close>, and \<open>served\<close> what \<open>Serve\<close> returned then.
\<close>

definition weather_serve :: "go_error option option \<Rightarrow> go_error option \<Rightarrow> go_error option \<Rightarrow> go_error option" where
  "weather_serve failed drained served =
     (case failed of
        Some err \<Rightarrow> err
      | None \<Rightarrow>
          (case drained of
             Some err \<Rightarrow> Some (WrapError ''drain'' err)
           | None \<Rightarrow>
               (case served of
                  None \<Rightarrow> None
                | Some err \<Rightarrow> if wraps (ErrorString ''http: Server closed'') err then None else Some err)))"

text \<open>The command's exit code, and why a stop charges nobody for nothing: the drain outlasts a paid request.\<close>

fun weather_exit :: "'u weather_started \<Rightarrow> go_error option \<Rightarrow> int" where
  "weather_exit (WeatherExited code) err = code"
| "weather_exit (WeatherServing s) err = (if err \<noteq> None then 1 else 0)"

lemma drain_outlasts_payment: "paymentTimeout + 10 * second \<le> drainTimeout"
  by (simp add: drainTimeout_def weather_writeTimeout_def)

subsection \<open>The price shown\<close>

text \<open>A decimal as a person reads it.\<close>

definition decimal_value :: "string \<Rightarrow> rat" where
  "decimal_value s =
     (let (whole, fraction, _) = go_cut (CHR ''.'') s in
      of_int (digits_value whole) + of_int (digits_value fraction) / 10 ^ length fraction)"

lemma format_int_nonneg: "0 \<le> i \<Longrightarrow> format_int i = nat_digits (nat i)"
  by (simp add: format_int_def)

lemma nat_digits_no_point: "CHR ''.'' \<notin> set (nat_digits n)"
proof -
  have "\<not> is_digit (CHR ''.'')" by (simp add: is_digit_def)
  then show ?thesis using nat_digits_props(2) [of n] by (auto simp: list_all_iff)
qed

lemma trimmed_fraction:
  assumes "0 \<le> f" "f < 10 ^ 6"
  shows "of_int (digits_value (trim_right_zeros (format_int_padded 6 f))) / 10 ^ length (trim_right_zeros (format_int_padded 6 f)) =
    (of_int f :: rat) / 1000000"
proof -
  let ?p = "format_int_padded 6 f" and ?t = "trim_right_zeros (format_int_padded 6 f)"
  obtain n where n: "?p = ?t @ replicate n (CHR ''0'')" using trim_right_zeros_split by blast
  have "length ?p = 6" using format_int_padded_length [of "nat f" 6] assms by simp
  then have len: "length ?t + n = 6" by (metis n length_append length_replicate)
  have "digits_value ?p = f" using digits_value_padded assms(1) by simp
  then have f: "f = digits_value ?t * 10 ^ n" by (metis n digits_value_append digits_value_zeros length_replicate add_0_right)
  have "(1000000 :: rat) = 10 ^ (length ?t + n)" by (simp add: len)
  then have "(1000000 :: rat) = 10 ^ length ?t * 10 ^ n" by (simp add: power_add)
  moreover have "(of_int f :: rat) = of_int (digits_value ?t) * 10 ^ n"
    using arg_cong [OF f, of "of_int :: int \<Rightarrow> rat"] by simp
  ultimately have "(of_int f :: rat) / 1000000 = (of_int (digits_value ?t) * 10 ^ n) / (10 ^ length ?t * 10 ^ n)"
    by (simp only:)
  then show ?thesis by simp
qed

text \<open>
  C40. The page shows the price that is charged: an amount of ugnot, read as the decimal number of GNOT
  it is shown as, is that amount exactly, whatever its size, and it is shown without zeros at its end.
\<close>

theorem shown_amount_exact:
  assumes "coin_denom c = ''ugnot''" "0 \<le> sint (coin_amount c)"
  shows "\<exists>s. shownAmount c = (s, ''GNOT'') \<and> decimal_value s * 1000000 = of_int (sint (coin_amount c)) \<and>
    (CHR ''.'' \<in> set s \<longrightarrow> last s \<noteq> CHR ''0'')"
proof -
  let ?a = "sint (coin_amount c)" and ?w = "sint (coin_amount c) div 1000000" and ?f = "sint (coin_amount c) mod 1000000"
  have div: "?a sdiv 1000000 = ?w" "?a smod 1000000 = ?f"
    using assms(2) by (simp_all add: signed_divide_int_def signed_modulo_int_def sgn_if minus_mult_div_eq_mod)
  have a: "(of_int ?a :: rat) = of_int ?w * 1000000 + of_int ?f"
    by (metis div_mult_mod_eq of_int_add of_int_mult of_int_numeral)
  have w: "format_int ?w = nat_digits (nat ?w)" "digits_value (nat_digits (nat ?w)) = ?w"
    using assms(2) by (simp_all add: format_int_nonneg nat_digits_props(1))
  show ?thesis
  proof (cases "?f = 0")
    case True
    have "go_cut (CHR ''.'') (nat_digits (nat ?w)) = (nat_digits (nat ?w), [], False)"
      by (simp add: go_cut_def nat_digits_no_point)
    with True assms(1) a w show ?thesis
      by (simp add: shownAmount_def ugnotPerGNOT_def div Let_def decimal_value_def nat_digits_no_point)
  next
    case False
    let ?t = "trim_right_zeros (format_int_padded 6 ?f)"
    have f: "0 \<le> ?f" "?f < 10 ^ 6" by simp_all
    have "?t \<noteq> []"
    proof
      assume "?t = []"
      with trimmed_fraction [OF f] False show False by simp
    qed
    then have "last (nat_digits (nat ?w) @ CHR ''.'' # ?t) \<noteq> CHR ''0''" using trim_right_zeros_last [of "format_int_padded 6 ?f"] by simp
    moreover have "decimal_value (nat_digits (nat ?w) @ CHR ''.'' # ?t) = of_int ?w + of_int ?f / 1000000"
      using trimmed_fraction [OF f] by (simp add: decimal_value_def go_cut_fresh [OF nat_digits_no_point] w(2))
    ultimately show ?thesis
      using False assms(1) a w(1) by (simp add: shownAmount_def ugnotPerGNOT_def div Let_def)
  qed
qed

theorem shown_amount_exact_witness:
  "\<exists>s. shownAmount \<lparr>coin_denom = ''ugnot'', coin_amount = 250000\<rparr> = (s, ''GNOT'') \<and> decimal_value s * 1000000 = 250000"
  using shown_amount_exact [of "\<lparr>coin_denom = ''ugnot'', coin_amount = 250000\<rparr>"] by auto

subsection \<open>What is offered and served\<close>

text \<open>
  The price a seller offers is the price it was given: the amount on the route is the decimal of
  the coin's amount and reads back as it, and the seller's own mechanism publishes it unchanged when
  the chain reads the coin's own text as that coin.
\<close>

theorem offer_names_price:
  assumes "newSeller url_parse join_path coin_string render now cfg u = Inr s"
    and "coin_denom (cfg_price cfg) \<noteq> ''''" "0 < sint (coin_amount (cfg_price cfg))"
    and "parse_coins lib (format_int (sint (coin_amount (cfg_price cfg))) @ coin_denom (cfg_price cfg)) = Inr [cfg_price cfg]"
    and "is_positive lib (cfg_price cfg)"
  shows "ParsePrice lib (PriceAssetAmount (rt_price (sl_route s))) = Inr (rt_price (sl_route s)) \<and>
    aa_asset (rt_price (sl_route s)) = coin_denom (cfg_price cfg) \<and>
    parse_int (aa_amount (rt_price (sl_route s))) = Some (sint (coin_amount (cfg_price cfg))) \<and>
    rt_network (sl_route s) = cfg_network cfg \<and> rt_payTo (sl_route s) = cfg_payTo cfg"
proof -
  let ?c = "cfg_price cfg"
  obtain resource html where s: "sl_route s = seller_route cfg resource html"
    using assms(1) by (auto simp: newSeller_def split: sum.splits)
  have "sint (coin_amount ?c) < 2 ^ 63" "- (2 ^ 63) \<le> sint (coin_amount ?c)"
    using sint_range_size [of "coin_amount ?c"] by (simp_all add: word_size)
  then have parsed: "parse_int (format_int (sint (coin_amount ?c))) = Some (sint (coin_amount ?c))"
    by (intro parse_format_int)
  then have "format_int (sint (coin_amount ?c)) \<noteq> ''''" by (auto simp: parse_int_def)
  with assms(2-5) show ?thesis
    by (simp add: s seller_route_def ParsePrice_def checkPayable_def parsed)
qed

definition sample_config :: sellerConfig where
  "sample_config =
     \<lparr>cfg_network = ''gno:dev'', cfg_payTo = ''g1'', cfg_price = \<lparr>coin_denom = ''ugnot'', coin_amount = 250000\<rparr>,
      cfg_publicURL = '''', cfg_ratePerSecond = Fin 0, cfg_rateBurst = 0\<rparr>"

theorem offer_names_price_witness:
  "\<exists>s. newSeller (\<lambda>x. None) (\<lambda>b p. p) (\<lambda>c. ''250000ugnot'') (\<lambda>p. Inr ''page'') 0 sample_config () = Inr s \<and>
     ParsePrice test_lib (PriceAssetAmount (rt_price (sl_route s))) = Inr (rt_price (sl_route s)) \<and>
     parse_int (aa_amount (rt_price (sl_route s))) = Some 250000"
proof -
  obtain s where s: "newSeller (\<lambda>x. None) (\<lambda>b p. p) (\<lambda>c. ''250000ugnot'') (\<lambda>p. Inr ''page'') 0 sample_config () = Inr s"
    by (simp add: newSeller_def seller_resource_def sample_config_def)
  have digits: "format_int 250000 = ''250000''"
    by (simp add: format_int_def nat_digits.simps digit_char_def char_of_def bit_Suc_0_iff)
  have "coin_denom (cfg_price sample_config) \<noteq> ''''" "sint (coin_amount (cfg_price sample_config)) = 250000"
    "0 < sint (coin_amount (cfg_price sample_config))"
    by (simp_all add: sample_config_def)
  moreover have "parse_coins test_lib (format_int (sint (coin_amount (cfg_price sample_config))) @
      coin_denom (cfg_price sample_config)) = Inr [cfg_price sample_config]"
    "is_positive test_lib (cfg_price sample_config)"
    by (simp_all add: sample_config_def digits test_lib_def test_coin_def)
  ultimately have "ParsePrice test_lib (PriceAssetAmount (rt_price (sl_route s))) = Inr (rt_price (sl_route s)) \<and>
      aa_asset (rt_price (sl_route s)) = coin_denom (cfg_price sample_config) \<and>
      parse_int (aa_amount (rt_price (sl_route s))) = Some (sint (coin_amount (cfg_price sample_config))) \<and>
      rt_network (sl_route s) = cfg_network sample_config \<and> rt_payTo (sl_route s) = cfg_payTo sample_config"
    by (intro offer_names_price [OF s])
  with s \<open>sint (coin_amount (cfg_price sample_config)) = 250000\<close> show ?thesis by (intro exI [of _ s]) simp
qed

text \<open>The refusal of a configuration, and of nothing else.\<close>

definition plain_public_url :: "parsed_url \<Rightarrow> bool" where
  "plain_public_url base \<longleftrightarrow> u_scheme base \<in> {''http'', ''https''} \<and> u_host base \<noteq> '''' \<and> \<not> u_has_user base \<and>
     u_raw_query base = '''' \<and> \<not> u_force_query base \<and> u_fragment base = ''''"

lemma seller_resource_iff:
  "seller_resource url_parse join_path publicURL = Inr resource \<longleftrightarrow>
     (publicURL = '''' \<and> resource = '''') \<or>
     (publicURL \<noteq> '''' \<and> (\<exists>base. url_parse publicURL = Some base \<and> plain_public_url base \<and>
        resource = join_path base weatherPath))"
  by (auto simp: seller_resource_def plain_public_url_def split: option.splits if_splits)

text \<open>
  The readings are served in turn: the request that finds the counter at \<open>n\<close> gets the one \<open>n\<close>
  places after the start, round and round, and leaves the counter one further, until the counter's
  64 bits are spent.
\<close>

theorem readings_in_turn:
  assumes "readings \<noteq> []" "0 \<le> start" "start + int n < 2 ^ 64" "length readings < 2 ^ 64"
  shows "rotatingWeather readings start (word_of_nat n) =
    (SetHeader ''Content-Type'' ''application/json''
      (Write (json_marshal (reading_json (readings ! nat ((start + int n) mod int (length readings)))) @ [CHR 0x0A])
        (\<lambda>r. Served)), word_of_nat (Suc n))"
proof -
  let ?i = "(word_of_int start + (word_of_nat n + 1) - 1) mod word_of_nat (length readings) :: u64"
  have "uint (word_of_int start + (word_of_nat n + 1) - 1 :: u64) = start + int n"
  proof -
    have "(word_of_int start + (word_of_nat n + 1) - 1 :: u64) = word_of_int (start + int n)" by simp
    then show ?thesis using assms(2,3) by (simp only: uint_word_of_int_eq) (simp add: take_bit_int_eq_self)
  qed
  moreover have "uint (word_of_nat (length readings) :: u64) = int (length readings)"
  proof -
    have "(word_of_nat (length readings) :: u64) = word_of_int (int (length readings))" by simp
    then show ?thesis using assms(4) by (simp only: uint_word_of_int_eq) (simp add: take_bit_int_eq_self)
  qed
  ultimately have "uint ?i = (start + int n) mod int (length readings)" by (simp add: uint_mod)
  then have "unat ?i = nat ((start + int n) mod int (length readings))" by (metis nat_uint_eq)
  then show ?thesis by (simp add: rotatingWeather_def Let_def add.commute)
qed

theorem readings_in_turn_witness:
  "snd (rotatingWeather sampleReadings 2 (word_of_nat 5)) = 6"
  using readings_in_turn [of sampleReadings 2 5] by (simp add: sampleReadings_def)

subsection \<open>What requests cost\<close>

text \<open>Requests in their order, each with its own response, and the middleware's calls logged.\<close>

definition serve_requests ::
  "bytes \<Rightarrow> (bytes \<Rightarrow> settle_response option) \<Rightarrow> (payment_route \<Rightarrow> 'r seller_request \<Rightarrow> 'u \<Rightarrow> handler_run \<times> 'u) \<Rightarrow>
   (instant \<times> instant \<times> 'r seller_request) list \<Rightarrow> 'u seller \<Rightarrow> 'u seller" where
  "serve_requests favicon parse_settle paid reqs s =
     fold (\<lambda>(now, later, req) s. snd (seller_serve favicon parse_settle paid keeping now later req (no_response, s))) reqs s"

definition paid_logged ::
  "(payment_route \<Rightarrow> 'r seller_request \<Rightarrow> 'u \<Rightarrow> handler_run \<times> 'u) \<Rightarrow>
   payment_route \<Rightarrow> 'r seller_request \<Rightarrow> 'u \<times> 'r seller_request list \<Rightarrow> handler_run \<times> 'u \<times> 'r seller_request list" where
  "paid_logged paid route req = logged (paid route req) (\<lambda>h. req)"

definition weather_instants :: "(instant \<times> instant \<times> 'r seller_request) list \<Rightarrow> instant list" where
  "weather_instants reqs = map fst (filter (\<lambda>(now, later, req). sq_pattern req = WeatherRoute) reqs)"

lemma seller_serve_calls:
  assumes "seller_serve favicon parse_settle (paid_logged paid) keeping now later req (w, s) = (w', s')"
  shows "sl_limit s' = (if sq_pattern req = WeatherRoute then snd (limit_allow now (sl_limit s)) else sl_limit s)"
    and "snd (sl_world s') = snd (sl_world s) @
      (if sq_pattern req = WeatherRoute \<and> fst (limit_allow now (sl_limit s)) then [req] else [])"
  using assms
  by (auto simp: seller_serve_def guard_def paid_logged_def logged_def Let_def split: seller_pattern.splits prod.splits if_splits)

lemma serve_requests_calls:
  "length (snd (sl_world (serve_requests favicon parse_settle (paid_logged paid) reqs s))) =
     length (snd (sl_world s)) + granted limit_allow (\<lambda>now. True) (weather_instants reqs) (sl_limit s)"
proof (induction reqs arbitrary: s)
  case (Cons e reqs)
  obtain now later req where e: "e = (now, later, req)" by (cases e)
  obtain w' s' where s': "seller_serve favicon parse_settle (paid_logged paid) keeping now later req (no_response, s) = (w', s')"
    by fastforce
  have "serve_requests favicon parse_settle (paid_logged paid) (e # reqs) s =
      serve_requests favicon parse_settle (paid_logged paid) reqs s'"
    by (simp add: serve_requests_def e s')
  then show ?case
    using Cons.IH [of s'] seller_serve_calls [OF s'] by (simp add: weather_instants_def e)
qed (simp add: serve_requests_def weather_instants_def)

lemma sorted_instants:
  "sorted_wrt (\<le>) (t # map fst reqs @ [u]) \<Longrightarrow> sorted_wrt (\<le>) (t # weather_instants reqs @ [u])"
  unfolding weather_instants_def by (induction reqs) (auto simp: sorted_wrt_append)

text \<open>
  C29. What a seller can be made to cost its facilitator is bounded: from the start on, whatever requests
  come, however they are configured and whoever sends them, the payment middleware is handed at most
  the burst and, for each second, the rate of them; a refused request does not reach it, and the
  lookups and the other pages never do. The burst is at most \<open>2 ^ 53\<close>, and the rounding of binary64 may
  add a part in \<open>2 ^ 48\<close> of the rate and a part in \<open>2 ^ 21\<close> of the burst in each second.
\<close>

theorem middleware_calls_bounded:
  assumes "newSeller url_parse join_path coin_string render t cfg (u, []) = Inr s"
    and "cfg_rateBurst cfg \<le> 2 ^ 53" "sorted_wrt (\<le>) (t # map fst reqs @ [now])"
  shows "of_nat (length (snd (sl_world (serve_requests favicon parse_settle (paid_logged paid) reqs s))))
    \<le> of_int (limit_burst (cfg_rateBurst cfg)) + of_int (now - t) / 1000000000 *
      (limit_rate (cfg_ratePerSecond cfg) * (1 + 1 / 2 ^ 48) + of_int (limit_burst (cfg_rateBurst cfg)) / 2 ^ 21)"
proof -
  have "sl_limit s = newRateLimit (cfg_ratePerSecond cfg) (cfg_rateBurst cfg) t" "snd (sl_world s) = []"
    using assms(1) by (auto simp: newSeller_def split: sum.splits)
  then show ?thesis
    using backstop_holds [OF assms(2) sorted_instants [OF assms(3)]] by (simp add: serve_requests_calls)
qed

theorem middleware_calls_bounded_witness:
  "\<exists>s. newSeller (\<lambda>x. None) (\<lambda>b p. p) (\<lambda>c. ''250000ugnot'') (\<lambda>p. Inr ''page'') 0 sample_config ((), [] :: unit seller_request list) = Inr s \<and>
     of_nat (length (snd (sl_world (serve_requests [] (\<lambda>raw. None) (paid_logged (\<lambda>route req u. (Served, u)))
       [(3, 4, \<lparr>sq_pattern = WeatherRoute, sq_query = [], sq_rest = ()\<rparr>)] s)))) \<le> (16 :: rat)"
proof -
  obtain s where s: "newSeller (\<lambda>x. None) (\<lambda>b p. p) (\<lambda>c. ''250000ugnot'') (\<lambda>p. Inr ''page'') 0 sample_config ((), [] :: unit seller_request list) = Inr s"
    by (simp add: newSeller_def seller_resource_def sample_config_def)
  have "of_nat (length (snd (sl_world (serve_requests [] (\<lambda>raw. None) (paid_logged (\<lambda>route req u. (Served, u)))
      [(3, 4, \<lparr>sq_pattern = WeatherRoute, sq_query = [], sq_rest = ()\<rparr>)] s)))) \<le> (16 :: rat)"
    using middleware_calls_bounded [OF s, of "[(3, 4, \<lparr>sq_pattern = WeatherRoute, sq_query = [], sq_rest = ()\<rparr>)]" 1000000000
        "[]" "\<lambda>raw. None" "\<lambda>route req u. (Served, u)"]
    by (simp add: sample_config_def limit_burst_def limit_rate_def defaultRateBurst_def defaultRatePerSecond_def)
  with s show ?thesis by blast
qed

end
