(* ===== verification/Client_Node.thy ===== *)
theory Client_Node
  imports Go_Fmt Go_Http Buyer_Example Json_Roundtrip
begin

text \<open>
  \<open>client/exact/node.go\<close>: the buyer's access to a chain over a node's RPC server. \<open>NewRPCNode\<close> takes the
  node's address in the three forms operators write; a read is one GET whose answer is a JSON-RPC
  envelope, and what it holds is checked before a payment is built on it.

  The record \<open>rpc_lib\<close> is what the linked libraries compute: \<open>url.Parse\<close>, and amino's decoding of a
  query's answer, of an account and of a gas price, each an error or a value. \<open>http_get\<close>, a call into
  the world, is the HTTP client: no request, no answer, or an answer's status and body.
\<close>

subsection \<open>The node's address\<close>

record 'pk base_account = "'pk std_account" +
  ba_address :: address

record 'pk base_session_account = "'pk base_account" +
  ba_master :: address

record abci_answer =
  aq_error :: "abci_error option"
  aq_log :: string
  aq_data :: bytes

record 'pk rpc_lib =
  url_parse :: "string \<Rightarrow> parsed_url option"
  amino_answer :: "json \<Rightarrow> go_error + abci_answer"
  amino_account :: "json option \<Rightarrow> go_error + 'pk base_account"
  amino_session :: "json option \<Rightarrow> go_error + 'pk base_session_account"
  amino_gas_price :: "bytes \<Rightarrow> go_error + gas_price"

datatype http_result =
    NoRequest go_error
  | NoAnswer go_error
  | HttpAnswer int incoming

type_synonym 'w http_get = "string \<Rightarrow> 'w \<Rightarrow> http_result \<times> 'w"

record RPCNode =
  endpoint :: string
  shown :: string
  has_client :: bool

definition errNoNode :: go_error where
  "errNoNode = ErrorString ''x402-gno: no node to read the chain from''"

definition gasPricePath :: string where "gasPricePath = ''auth/gasprice''"
definition maxAnswerBytes :: nat where "maxAnswerBytes = 1048576"

definition node_address :: "string \<Rightarrow> string" where
  "node_address remote =
     (case go_cut_prefix ''tcp://'' remote of
        Some rest \<Rightarrow> ''http://'' @ rest
      | None \<Rightarrow> if \<not> go_contains remote ''://'' then ''http://'' @ remote else remote)"

definition NewRPCNode :: "'pk rpc_lib \<Rightarrow> string \<Rightarrow> go_error + RPCNode" where
  "NewRPCNode lib remote =
     (case url_parse lib (node_address remote) of
        None \<Rightarrow> Inl (ErrorString ''x402-gno: a node's RPC address is an http(s) URL, a tcp:// address or a host:port, with a host'')
      | Some u \<Rightarrow>
      if u_scheme u \<noteq> ''http'' \<and> u_scheme u \<noteq> ''https'' \<or> u_hostname u = ''''
      then Inl (ErrorString ''x402-gno: a node's RPC address is an http(s) URL, a tcp:// address or a host:port, with a host'')
      else if u_raw_query u \<noteq> '''' \<or> u_force_query u \<or> u_fragment u \<noteq> ''''
      then Inl (ErrorString ''x402-gno: a node's RPC address takes no query or fragment'')
      else Inr \<lparr>endpoint = trim_suffix (u_string u) ''/'', shown = trim_suffix (u_redacted u) ''/'', has_client = True\<rparr>)"

subsection \<open>One call\<close>

text \<open>The envelope's \<open>Error\<close> is a pointer: null is nil, an object is read into its two strings.\<close>

record envelope =
  env_result :: "json option"
  env_error :: "(string \<times> string) option"

definition error_fields :: "(string \<times> string) fields" where
  "error_fields =
     [(''message'', \<lambda>v e. map_option (\<lambda>m. (m, snd e)) (into_string v (fst e))),
      (''data'', \<lambda>v e. map_option (\<lambda>d. (fst e, d)) (into_string v (snd e)))]"

definition into_error :: "json \<Rightarrow> (string \<times> string) option \<Rightarrow> (string \<times> string) option option" where
  "into_error v old =
     (if v = JNull then Some None
      else map_option Some (into_struct error_fields v (case old of None \<Rightarrow> ('''', '''') | Some e \<Rightarrow> e)))"

definition envelope_fields :: "envelope fields" where
  "envelope_fields =
     [(''result'', \<lambda>v e. map_option (\<lambda>r. e\<lparr>env_result := r\<rparr>) (into_raw v (env_result e))),
      (''error'', \<lambda>v e. map_option (\<lambda>r. e\<lparr>env_error := r\<rparr>) (into_error v (env_error e)))]"

text \<open>\<open>json.Unmarshal\<close> of a text into a struct.\<close>

definition unmarshal_into :: "'a fields \<Rightarrow> string \<Rightarrow> 'a \<Rightarrow> 'a option" where
  "unmarshal_into fs s x = (case json_unmarshal s of None \<Rightarrow> None | Some v \<Rightarrow> into_struct fs v x)"

text \<open>\<open>call\<close>, with the encoded query, empty for none.\<close>

definition rpc_target :: "RPCNode \<Rightarrow> string \<Rightarrow> string \<Rightarrow> string" where
  "rpc_target n rpc_method params = endpoint n @ ''/'' @ rpc_method @ (if params = [] then [] else ''?'' @ params)"

definition rpc_call :: "'w http_get \<Rightarrow> RPCNode option \<Rightarrow> string \<Rightarrow> string \<Rightarrow> 'w \<Rightarrow> (go_error + json) \<times> 'w" where
  "rpc_call get nd rpc_method params w =
     (case nd of
        None \<Rightarrow> (Inl errNoNode, w)
      | Some n \<Rightarrow>
      if \<not> has_client n then (Inl errNoNode, w)
      else
      (let place = rpc_method @ '' at '' @ shown n in
      case get (rpc_target n rpc_method params) w of
        (NoRequest err, w1) \<Rightarrow> (Inl err, w1)
      | (NoAnswer err, w1) \<Rightarrow> (Inl (WrapError rpc_method err), w1)
      | (HttpAnswer status src, w1) \<Rightarrow>
      (case read_limited maxAnswerBytes src of
        (_, Some err) \<Rightarrow> (Inl (WrapError place err), w1)
      | (body, None) \<Rightarrow>
      if maxAnswerBytes < length body then (Inl (ErrorString (place @ '': the answer is over 1048576 bytes'')), w1)
      else
      (case unmarshal_into envelope_fields body \<lparr>env_result = None, env_error = None\<rparr> of
        None \<Rightarrow> (Inl (ErrorString (place @ '': status '' @ format_int status @ '', not a JSON-RPC answer'')), w1)
      | Some env \<Rightarrow>
      (case env_error env of
        Some (msg, data) \<Rightarrow> 
          (Inl (ErrorString (place @ '': '' @ cmp_Or [trim_space (msg @ '' '' @ data), ''an error with no message''])), w1)
      | None \<Rightarrow>
      (case env_result env of
        None \<Rightarrow> (Inl (ErrorString (place @ '': status '' @ format_int status @ '', the answer holds no result'')), w1)
      | Some v \<Rightarrow>
          if v = JNull then (Inl (ErrorString (place @ '': status '' @ format_int status @ '', the answer holds no result'')), w1)
          else (Inr v, w1)))))))"

definition status_fields :: "string fields" where
  "status_fields = [(''node_info'', into_struct [(''network'', into_string)])]"

definition NodeChainID :: "'w http_get \<Rightarrow> RPCNode option \<Rightarrow> 'w \<Rightarrow> (go_error + string) \<times> 'w" where
  "NodeChainID get nd w =
     (case rpc_call get nd ''status'' [] w of
        (Inl err, w1) \<Rightarrow> (Inl (WrapError ''query node status'' err), w1)
      | (Inr result, w1) \<Rightarrow>
      (case into_struct status_fields result '''' of
        None \<Rightarrow> (Inl (WrapError ''query node status'' (ErrorString ''json'')), w1)
      | Some net \<Rightarrow>
          if net = '''' then (Inl (ErrorString ''query node status: the node's status names no chain''), w1)
          else (Inr net, w1)))"

definition rpc_query ::
    "'pk rpc_lib \<Rightarrow> 'w http_get \<Rightarrow> RPCNode option \<Rightarrow> string \<Rightarrow> 'w \<Rightarrow> (go_error + bytes) \<times> 'w" where
  "rpc_query lib get nd path w =
     (case rpc_call get nd ''abci_query'' (encode_value ''path'' (strconv_quote path)) w of
        (Inl err, w1) \<Rightarrow> (Inl (WrapError (''query '' @ path) err), w1)
      | (Inr result, w1) \<Rightarrow>
      (case amino_answer lib result of
        Inl err \<Rightarrow> (Inl (WrapError (''query '' @ path @ '': decode the answer'') err), w1)
      | Inr answer \<Rightarrow>
      (case aq_error answer of
        Some refused \<Rightarrow> (Inl (WrapError (''query '' @ path @ '': '' @ aq_log answer) (AbciError refused)), w1)
      | None \<Rightarrow> (Inr (aq_data answer), w1))))"

subsection \<open>What a payment reads\<close>

definition no_data :: "bytes \<Rightarrow> bool" where
  "no_data data \<longleftrightarrow> data = [] \<or> data = ''null''"

definition Account ::
    "'pk gno_lib \<Rightarrow> 'pk rpc_lib \<Rightarrow> 'w http_get \<Rightarrow> RPCNode option \<Rightarrow> address \<Rightarrow> 'w
      \<Rightarrow> (go_error + 'pk base_account) \<times> 'w" where
  "Account lib rlib get nd addr w =
     (case rpc_query rlib get nd (''auth/accounts/'' @ address_string lib addr) w of
        (Inl err, w1) \<Rightarrow> (Inl err, w1)
      | (Inr data, w1) \<Rightarrow>
      if no_data data
      then (Inl (AbciError (UnknownAddressError (''unknown address: '' @ address_string lib addr))), w1)
      else
      (case unmarshal_into [(''BaseAccount'', into_raw)] data None of
        None \<Rightarrow> (Inl (WrapError (''decode the account of '' @ address_string lib addr) (ErrorString ''json'')), w1)
      | Some raw \<Rightarrow>
      (case amino_account rlib raw of
        Inl err \<Rightarrow> (Inl (WrapError (''decode the account of '' @ address_string lib addr) err), w1)
      | Inr acc \<Rightarrow>
          if ba_address acc \<noteq> addr
          then (Inl (ErrorString (''decode the account of '' @ address_string lib addr @ '': the node answered for '' @
                  strconv_quote (address_string lib (ba_address acc)))), w1)
          else (Inr acc, w1))))"

definition SessionAccount ::
    "'pk gno_lib \<Rightarrow> 'pk rpc_lib \<Rightarrow> 'w http_get \<Rightarrow> RPCNode option \<Rightarrow> address \<Rightarrow> address \<Rightarrow> 'w
      \<Rightarrow> (go_error + 'pk base_session_account) \<times> 'w" where
  "SessionAccount lib rlib get nd master session w =
     (case rpc_query rlib get nd
         (''auth/accounts/'' @ address_string lib master @ ''/session/'' @ address_string lib session) w of
        (Inl err, w1) \<Rightarrow> (Inl err, w1)
      | (Inr data, w1) \<Rightarrow>
      if no_data data
      then (Inl (AbciError (SessionNotFoundError
             (''no session '' @ address_string lib session @ '' under '' @ address_string lib master))), w1)
      else
      (case unmarshal_into [(''BaseSessionAccount'', into_raw)] data None of
        None \<Rightarrow> (Inl (WrapError (''decode session '' @ address_string lib session @ '' of '' @ address_string lib master) (ErrorString ''json'')), w1)
      | Some raw \<Rightarrow>
      (case amino_session rlib raw of
        Inl err \<Rightarrow> (Inl (WrapError (''decode session '' @ address_string lib session @ '' of '' @ address_string lib master) err), w1)
      | Inr acc \<Rightarrow>
          if ba_address acc \<noteq> session \<or> ba_master acc \<noteq> master
          then (Inl (ErrorString (''decode session '' @ address_string lib session @ '' of '' @ address_string lib master @
                  '': the node answered for session '' @ strconv_quote (address_string lib (ba_address acc)) @ '' of '' @
                  strconv_quote (address_string lib (ba_master acc)))), w1)
          else (Inr acc, w1))))"

definition GasPrice ::
    "'pk rpc_lib \<Rightarrow> 'w http_get \<Rightarrow> RPCNode option \<Rightarrow> 'w \<Rightarrow> (go_error + gas_price option) \<times> 'w" where
  "GasPrice rlib get nd w =
     (case rpc_query rlib get nd gasPricePath w of
        (Inl err, w1) \<Rightarrow> (Inl err, w1)
      | (Inr data, w1) \<Rightarrow>
      if no_data data then (Inr None, w1)
      else
      (case amino_gas_price rlib data of
        Inl err \<Rightarrow> (Inl (WrapError (''decode gas price '' @ strconv_quote data) err), w1)
      | Inr price \<Rightarrow>
          if price_gas price = 0 \<or> coin_amount (price_coin price) = 0 then (Inr None, w1)
          else (Inr (Some price), w1)))"

text \<open>The node as \<open>Prepare\<close> takes it: the four reads, an account seen through its interface.\<close>

definition rpc_buyer_node ::
    "'pk gno_lib \<Rightarrow> 'pk rpc_lib \<Rightarrow> 'w http_get \<Rightarrow> RPCNode option \<Rightarrow> ('pk, 'w) buyer_node" where
  "rpc_buyer_node lib rlib get nd =
     \<lparr>bn_chain_id = NodeChainID get nd,
      bn_account = (\<lambda>addr w. (case Account lib rlib get nd addr w of
          (Inl err, w1) \<Rightarrow> (Inl err, w1) | (Inr acc, w1) \<Rightarrow> (Inr (Some (std_account.truncate acc)), w1))),
      bn_session_account = (\<lambda>master session w. (case SessionAccount lib rlib get nd master session w of
          (Inl err, w1) \<Rightarrow> (Inl err, w1) | (Inr acc, w1) \<Rightarrow> (Inr (Some (std_account.truncate acc)), w1))),
      bn_gas_price = GasPrice rlib get nd\<rparr>"

subsection \<open>What an answered read rests on\<close>

text \<open>The node answered a call with a value: whole, within the cap, with no error, and not null.\<close>

definition rpc_answers :: "'w http_get \<Rightarrow> RPCNode option \<Rightarrow> string \<Rightarrow> string \<Rightarrow> 'w \<Rightarrow> json \<Rightarrow> 'w \<Rightarrow> bool" where
  "rpc_answers get nd rpc_method params w v w' \<longleftrightarrow>
     (\<exists>n status body env. nd = Some n \<and> has_client n \<and>
        get (rpc_target n rpc_method params) w =
          (HttpAnswer status (body, None), w') \<and>
        length body \<le> 1048576 \<and> v \<noteq> JNull \<and>
        unmarshal_into envelope_fields body \<lparr>env_result = None, env_error = None\<rparr> = Some env \<and>
        env_result env = Some v \<and> env_error env = None)"

lemma rpc_call_iff: "rpc_call get nd rpc_method params w = (Inr v, w') \<longleftrightarrow> rpc_answers get nd rpc_method params w v w'"
proof (cases nd)
  case (Some n)
  obtain r w1 where g: "get (rpc_target n rpc_method params) w = (r, w1)"
    by fastforce
  show ?thesis
  proof (cases r)
    case (HttpAnswer status src)
    obtain body e where src: "src = (body, e)" by (cases src)
    show ?thesis
      unfolding rpc_call_def Let_def rpc_answers_def Some option.case g HttpAnswer
      by (auto simp: src g HttpAnswer read_limited_def maxAnswerBytes_def split: option.splits prod.splits if_splits)
  qed (auto simp: rpc_call_def rpc_answers_def Some g)
qed (simp add: rpc_call_def rpc_answers_def)

definition query_answers :: "'pk rpc_lib \<Rightarrow> 'w http_get \<Rightarrow> RPCNode option \<Rightarrow> string \<Rightarrow> 'w \<Rightarrow> abci_answer \<Rightarrow> 'w \<Rightarrow> bool" where
  "query_answers rlib get nd path w answer w' \<longleftrightarrow>
     (\<exists>v. rpc_answers get nd ''abci_query'' (encode_value ''path'' (strconv_quote path)) w v w' \<and>
        amino_answer rlib v = Inr answer)"

lemma rpc_query_iff:
  "rpc_query rlib get nd path w = (Inr data, w') \<longleftrightarrow>
     (\<exists>answer. query_answers rlib get nd path w answer w' \<and> aq_error answer = None \<and> aq_data answer = data)"
  unfolding rpc_query_def query_answers_def
  by (auto simp flip: rpc_call_iff split: prod.splits sum.splits option.splits)

lemma Account_asked: "Account lib rlib get nd addr w = (Inr acc, w') \<Longrightarrow> ba_address acc = addr"
  by (auto simp: Account_def split: prod.splits sum.splits option.splits if_splits)

lemma SessionAccount_asked:
  "SessionAccount lib rlib get nd master session w = (Inr acc, w') \<Longrightarrow> ba_address acc = session \<and> ba_master acc = master"
  by (auto simp: SessionAccount_def split: prod.splits sum.splits option.splits if_splits)

lemma NodeChainID_answered: "NodeChainID get nd w = (Inr net, w') \<Longrightarrow> net \<noteq> ''''"
  by (auto simp: NodeChainID_def split: prod.splits sum.splits option.splits if_splits)

text \<open>
  C19. A payment prepared over an RPC node is signed for accounts the node answered for by name: the
  chain is the one the node reports for itself, and the number and sequence are those of an account
  whose address is the payer's key, or, for a session key, of a session account of exactly that key
  under exactly that master.
\<close>

theorem prepared_over_asked_account:
  assumes "Prepare lib (Some (rpc_buyer_node lib rlib get nd)) (Some pk) master req cap w = (Inr p, w')"
  shows "fst (NodeChainID get nd w) = Inr (pay_chain_id p) \<and> pay_chain_id p \<noteq> '''' \<and>
    (if address_is_zero lib master
     then \<exists>w2 acc. Account lib rlib get nd (pk_address lib pk) w2 = (Inr acc, w') \<and>
       ba_address acc = pk_address lib pk \<and> pay_number p = acc_number acc \<and> pay_sequence p = acc_sequence acc
     else \<exists>w2 acc. SessionAccount lib rlib get nd master (pk_address lib pk) w2 = (Inr acc, w') \<and>
       ba_address acc = pk_address lib pk \<and> ba_master acc = master \<and>
       pay_number p = acc_number acc \<and> pay_sequence p = acc_sequence acc)"
proof -
  let ?node = "rpc_buyer_node lib rlib get nd"
  from assms obtain t w1 w2 fee account where p: "bn_chain_id ?node w = (Inr (t_chain_id t), w1)"
    "readAccount lib ?node master (pk_address lib pk) w2 = (Inr account, w')"
    "p = payment_for lib t fee pk master account"
    unfolding Prepare_spec by auto
  from p(1) have "NodeChainID get nd w = (Inr (t_chain_id t), w1)" by (simp add: rpc_buyer_node_def)
  moreover have "pay_number p = acc_number account \<and> pay_sequence p = acc_sequence account \<and> pay_chain_id p = t_chain_id t"
    by (simp add: p(3) payment_for_def Let_def)
  moreover have "\<exists>acc. Account lib rlib get nd (pk_address lib pk) w2 = (Inr acc, w') \<and>
      ba_address acc = pk_address lib pk \<and> acc_number account = acc_number acc \<and> acc_sequence account = acc_sequence acc"
    if "address_is_zero lib master"
    using p(2) that by (auto simp: readAccount_def rpc_buyer_node_def std_account.defs Account_asked
        split: prod.splits sum.splits)
  moreover have "\<exists>acc. SessionAccount lib rlib get nd master (pk_address lib pk) w2 = (Inr acc, w') \<and>
      ba_address acc = pk_address lib pk \<and> ba_master acc = master \<and>
      acc_number account = acc_number acc \<and> acc_sequence account = acc_sequence acc"
    if "\<not> address_is_zero lib master"
    using p(2) that by (auto simp: readAccount_def rpc_buyer_node_def std_account.defs SessionAccount_asked
        split: prod.splits sum.splits)
  ultimately show ?thesis
    using NodeChainID_answered [of get nd w "t_chain_id t" w1] by auto
qed

text \<open>
  The errors of the transport and of amino are none of the chain's own: they are not an unknown address.
\<close>

definition plain_errors :: "'pk rpc_lib \<Rightarrow> 'w http_get \<Rightarrow> bool" where
  "plain_errors rlib get \<longleftrightarrow>
     (\<forall>t w r w' e. get t w = (r, w') \<and> (r = NoRequest e \<or> r = NoAnswer e \<or> (\<exists>st b. r = HttpAnswer st (b, Some e))) \<longrightarrow>
        as_type is_unknown_address e = None) \<and>
     (\<forall>v e. amino_answer rlib v = Inl e \<longrightarrow> as_type is_unknown_address e = None) \<and>
     (\<forall>v e. amino_account rlib v = Inl e \<longrightarrow> as_type is_unknown_address e = None)"

lemma rpc_call_plain:
  assumes "plain_errors rlib get" "rpc_call get nd rpc_method params w = (Inl err, w')"
  shows "as_type is_unknown_address err = None"
proof (cases nd)
  case (Some n)
  obtain r w1 where g: "get (rpc_target n rpc_method params) w = (r, w1)"
    by fastforce
  have plain: "as_type is_unknown_address e = None"
    if "r = NoRequest e \<or> r = NoAnswer e \<or> (\<exists>st b. r = HttpAnswer st (b, Some e))" for e
    using assms(1) g that unfolding plain_errors_def by blast
  show ?thesis
    using assms(2) plain unfolding rpc_call_def Let_def Some prod.case option.case g
    by (auto simp: errNoNode_def read_limited_def split: http_result.splits option.splits prod.splits if_splits)
next
  case None
  with assms(2) show ?thesis by (auto simp: rpc_call_def errNoNode_def)
qed

text \<open>
  C21. A node that cannot be read is never taken for an account that needs funding. Reading an account
  fails as an unknown address exactly when the node answered the query, whole and without a JSON-RPC
  error, and the chain's own answer is that refusal or holds no account.
\<close>

theorem unfunded_iff:
  assumes "plain_errors rlib get"
  shows "(\<exists>err. fst (Account lib rlib get nd addr w) = Inl err \<and> as_type is_unknown_address err \<noteq> None) \<longleftrightarrow>
    (\<exists>answer w'. query_answers rlib get nd (''auth/accounts/'' @ address_string lib addr) w answer w' \<and>
       (case aq_error answer of Some refused \<Rightarrow> (\<exists>m. refused = UnknownAddressError m)
        | None \<Rightarrow> no_data (aq_data answer)))"
proof -
  let ?path = "''auth/accounts/'' @ address_string lib addr"
  obtain r w1 where c: "rpc_call get nd ''abci_query'' (encode_value ''path'' (strconv_quote ?path)) w = (r, w1)"
    by fastforce
  show ?thesis
  proof (cases r)
    case (Inl err)
    moreover from this c have "as_type is_unknown_address err = None" using rpc_call_plain [OF assms] by blast
    ultimately show ?thesis
      using c by (auto simp: Account_def rpc_query_def query_answers_def simp flip: rpc_call_iff)
  next
    case (Inr v)
    with c have answered: "query_answers rlib get nd ?path w answer w' \<longleftrightarrow> amino_answer rlib v = Inr answer \<and> w' = w1"
      for answer w'
      by (auto simp: query_answers_def simp flip: rpc_call_iff)
    have plain: "as_type is_unknown_address e = None"
      if "amino_answer rlib v = Inl e \<or> (\<exists>raw. amino_account rlib raw = Inl e)" for e
      using assms that unfolding plain_errors_def by blast
    have refused: "is_unknown_address (AbciError a) = Some m \<longleftrightarrow> a = UnknownAddressError m" for a m
      by (cases a) auto
    show ?thesis
      unfolding answered Account_def rpc_query_def c Inr prod.case sum.case
      using plain by (auto simp: refused split: sum.splits option.splits)
  qed
qed


subsection \<open>A node, concretely\<close>

lemma rpc_answers_marshalled:
  assumes "nd = Some n" "has_client n" "json_ok maxNestingDepth (JObject [(''result'', v)])"
    and "get (rpc_target n rpc_method params) w = (HttpAnswer st (json_marshal (JObject [(''result'', v)]), None), w')"
    and "length (json_marshal (JObject [(''result'', v)])) \<le> 1048576" "json_canon v \<noteq> JNull"
  shows "rpc_call get nd rpc_method params w = (Inr (json_canon v), w')"
proof -
  have "unmarshal_into envelope_fields (json_marshal (JObject [(''result'', v)])) \<lparr>env_result = None, env_error = None\<rparr> =
      Some \<lparr>env_result = Some (json_canon v), env_error = None\<rparr>"
    using json_unmarshal_marshal [OF assms(3)]
    by (simp add: unmarshal_into_def envelope_fields_def field_of_def into_raw_def utf8_ascii)
  with assms show ?thesis unfolding rpc_call_iff rpc_answers_def by auto
qed

text \<open>A node that answers, one read after the other, its status, no gas price, and the payer's account.\<close>

definition test_status :: json where
  "test_status = JObject [(''node_info'', JObject [(''network'', JString ''dev'')])]"

definition test_get :: "nat http_get" where
  "test_get target w = (HttpAnswer 200 (json_marshal (JObject [(''result'',
     (if w = 0 then test_status else JBool (w = 2)))]), None), Suc w)"

definition test_rpc_lib :: "nat rpc_lib" where
  "test_rpc_lib =
     \<lparr>url_parse = (\<lambda>s. Some \<lparr>u_scheme = ''http'', u_host = ''node'', u_hostname = ''node'', u_has_user = False,
        u_raw_query = '''', u_force_query = False, u_fragment = '''', u_string = s, u_redacted = s\<rparr>),
      amino_answer = (\<lambda>v. Inr \<lparr>aq_error = None, aq_log = '''',
        aq_data = (if v = JBool True then json_marshal (JObject [(''BaseAccount'', JBool True)]) else '''')\<rparr>),
      amino_account = (\<lambda>raw. if raw = Some (JBool True)
        then Inr \<lparr>acc_pub_key = Some 11, acc_number = 7, acc_sequence = 3, ba_address = Address Payer\<rparr>
        else Inl (ErrorString ''amino'')),
      amino_session = (\<lambda>raw. Inl (ErrorString ''amino'')), amino_gas_price = (\<lambda>b. Inl (ErrorString ''amino''))\<rparr>"

definition test_rpc_node :: RPCNode where
  "test_rpc_node = \<lparr>endpoint = ''http://node'', shown = ''http://node'', has_client = True\<rparr>"

lemma test_rpc_calls:
  "rpc_call test_get (Some test_rpc_node) rpc_method params 0 = (Inr test_status, 1)"
  "rpc_call test_get (Some test_rpc_node) rpc_method params (Suc w) = (Inr (JBool (w = 1)), Suc (Suc w))"
proof -
  have q: "json_quote ''result'' = ''result''" "json_quote ''node_info'' = ''node_info''"
    "json_quote ''network'' = ''network''" "json_quote ''dev'' = ''dev''"
    by (simp_all add: json_quote.simps rune_len_ascii ascii_quote_def html_safe_def)
  show "rpc_call test_get (Some test_rpc_node) rpc_method params 0 = (Inr test_status, 1)"
    using rpc_answers_marshalled [of "Some test_rpc_node" test_rpc_node test_status test_get rpc_method params 0 200 1]
    by (simp add: test_rpc_node_def test_status_def test_get_def utf8_ascii q maxNestingDepth_def)
  show "rpc_call test_get (Some test_rpc_node) rpc_method params (Suc w) = (Inr (JBool (w = 1)), Suc (Suc w))"
    using rpc_answers_marshalled [of "Some test_rpc_node" test_rpc_node "JBool (w = 1)" test_get rpc_method params "Suc w" 200 "Suc (Suc w)"]
    by (simp add: test_rpc_node_def test_get_def q maxNestingDepth_def)
qed

lemma test_account_data:
  "unmarshal_into [(''BaseAccount'', into_raw)] (json_marshal (JObject [(''BaseAccount'', JBool True)])) None = Some (Some (JBool True))"
proof -
  have "json_unmarshal (json_marshal (JObject [(''BaseAccount'', JBool True)])) = Some (JObject [(''BaseAccount'', JBool True)])"
    using json_unmarshal_marshal [of "JObject [(''BaseAccount'', JBool True)]"] by (simp add: utf8_ascii maxNestingDepth_def)
  then show ?thesis by (simp add: unmarshal_into_def field_of_def into_raw_def)
qed

lemma test_rpc_reads:
  "NodeChainID test_get (Some test_rpc_node) 0 = (Inr ''dev'', Suc 0)"
  "GasPrice test_rpc_lib test_get (Some test_rpc_node) (Suc 0) = (Inr None, 2)"
  "Account lib test_rpc_lib test_get (Some test_rpc_node) (Address Payer) 2 =
     (Inr \<lparr>acc_pub_key = Some 11, acc_number = 7, acc_sequence = 3, ba_address = Address Payer\<rparr>, 3)"
proof -
  show "NodeChainID test_get (Some test_rpc_node) 0 = (Inr ''dev'', Suc 0)"
    by (simp add: NodeChainID_def test_rpc_calls test_status_def status_fields_def field_of_def)
  show "GasPrice test_rpc_lib test_get (Some test_rpc_node) (Suc 0) = (Inr None, 2)"
    using test_rpc_calls(2) [of _ _ 0] by (simp add: GasPrice_def rpc_query_def test_rpc_lib_def no_data_def)
  have "\<not> no_data (json_marshal (JObject [(''BaseAccount'', JBool True)]))" by (simp add: no_data_def)
  then show "Account lib test_rpc_lib test_get (Some test_rpc_node) (Address Payer) 2 =
     (Inr \<lparr>acc_pub_key = Some 11, acc_number = 7, acc_sequence = 3, ba_address = Address Payer\<rparr>, 3)"
    using test_rpc_calls(2) [of _ _ 1] test_account_data
    by (simp add: Account_def rpc_query_def test_rpc_lib_def numeral_2_eq_2 numeral_3_eq_3
        del: json_marshal.simps)
qed

lemma test_rpc_prepares:
  assumes "withinCap buyer_lib test_coin cap = None"
  shows "Prepare buyer_lib (Some (rpc_buyer_node buyer_lib test_rpc_lib test_get (Some test_rpc_node))) (Some 11)
     zero_address Requirements cap 0 = (Inr buyer_payment, 3)"
  unfolding Prepare_spec
  by (rule exI [of _ buyer_terms], intro exI conjI buyer_offer)
    (use assms in \<open>auto simp: buyer_terms_def payment_fee_def gasFee_def unpricedGasFee_def maxGasFee_def
      ugnot_Denom_def readAccount_def rpc_buyer_node_def test_rpc_reads buyer_lib_simps std_account.defs
      buyer_payment_def buyer_lib_def test_lib_def\<close>)

theorem prepared_over_asked_account_witness:
  "\<exists>w2 acc. Account buyer_lib test_rpc_lib test_get (Some test_rpc_node) (Address Payer) w2 = (Inr acc, 3) \<and>
     pay_number buyer_payment = acc_number acc \<and> pay_sequence buyer_payment = acc_sequence acc"
  using prepared_over_asked_account [OF test_rpc_prepares [of "''''"]]
  by (auto simp: buyer_lib_simps withinCap_def)

theorem unfunded_iff_witness:
  "\<exists>err. fst (Account buyer_lib test_rpc_lib test_get (Some test_rpc_node) (Address Payer) 1) = Inl err \<and>
     as_type is_unknown_address err \<noteq> None"
proof -
  have "plain_errors test_rpc_lib test_get"
    by (auto simp: plain_errors_def test_rpc_lib_def test_get_def split: if_splits)
  moreover have "query_answers test_rpc_lib test_get (Some test_rpc_node) path 1
      \<lparr>aq_error = None, aq_log = '''', aq_data = ''''\<rparr> 2" for path
    using test_rpc_calls(2) [of _ _ 0]
    by (auto simp: query_answers_def test_rpc_lib_def simp flip: rpc_call_iff intro!: exI [of _ "JBool False"])
  ultimately show ?thesis
    using unfunded_iff [of test_rpc_lib test_get buyer_lib "Some test_rpc_node" "Address Payer" 1]
    by (fastforce simp: no_data_def)
qed

end
