(* ===== verification/Buyer_Frame.thy ===== *)
theory Buyer_Frame
  imports Client_Node Keybase_Signer
begin

text \<open>
  What the making of a payment leaves alone. An operation keeps a property of the world when it holds
  after every call it held before. If the node's HTTP client and the signer keep one, so does everything
  \<open>CreatePaymentPayload\<close> does. And an operation run beside a second component of the world leaves that one
  as it is.
\<close>

subsection \<open>Keeping a property of the world\<close>

definition keeps :: "('w \<Rightarrow> bool) \<Rightarrow> ('w \<Rightarrow> 'a \<times> 'w) \<Rightarrow> bool" where
  "keeps I f \<longleftrightarrow> (\<forall>w. I w \<longrightarrow> I (snd (f w)))"

named_theorems keeps_intros

lemma keepsI: "(\<And>w r w'. I w \<Longrightarrow> f w = (r, w') \<Longrightarrow> I w') \<Longrightarrow> keeps I f"
  unfolding keeps_def by (metis prod.collapse)

lemma keepsD: "keeps I f \<Longrightarrow> f w = (r, w') \<Longrightarrow> I w \<Longrightarrow> I w'"
  unfolding keeps_def by (metis snd_conv)

lemma keeps_rpc_call [keeps_intros]:
  assumes "\<And>t. keeps I (get t)"
  shows "keeps I (rpc_call get nd rpc_method params)"
proof (rule keepsI)
  fix w r w' assume I: "I w" and call: "rpc_call get nd rpc_method params w = (r, w')"
  show "I w'"
  proof (cases nd)
    case (Some n)
    obtain x w1 where g: "get (rpc_target n rpc_method params) w = (x, w1)" by fastforce
    from keepsD [OF assms g I] I call show ?thesis
      unfolding rpc_call_def Let_def Some prod.case option.case g
      by (auto split: http_result.splits prod.splits option.splits if_splits)
  qed (use I call in \<open>simp add: rpc_call_def\<close>)
qed

lemma keeps_NodeChainID [keeps_intros]:
  assumes "\<And>t. keeps I (get t)"
  shows "keeps I (NodeChainID get nd)"
  by (rule keepsI)
    (auto simp: NodeChainID_def dest: keepsD [OF keeps_rpc_call [OF assms]] split: prod.splits sum.splits option.splits if_splits)

lemma keeps_rpc_query [keeps_intros]:
  assumes "\<And>t. keeps I (get t)"
  shows "keeps I (rpc_query rlib get nd path)"
  by (rule keepsI)
    (auto simp: rpc_query_def dest: keepsD [OF keeps_rpc_call [OF assms]] split: prod.splits sum.splits option.splits)

lemma keeps_Account [keeps_intros]:
  assumes "\<And>t. keeps I (get t)"
  shows "keeps I (Account lib rlib get nd addr)"
  by (rule keepsI)
    (auto simp: Account_def dest: keepsD [OF keeps_rpc_query [OF assms]] split: prod.splits sum.splits option.splits if_splits)

lemma keeps_SessionAccount [keeps_intros]:
  assumes "\<And>t. keeps I (get t)"
  shows "keeps I (SessionAccount lib rlib get nd master session)"
  by (rule keepsI)
    (auto simp: SessionAccount_def dest: keepsD [OF keeps_rpc_query [OF assms]] split: prod.splits sum.splits option.splits if_splits)

lemma keeps_GasPrice [keeps_intros]:
  assumes "\<And>t. keeps I (get t)"
  shows "keeps I (GasPrice rlib get nd)"
  by (rule keepsI)
    (auto simp: GasPrice_def dest: keepsD [OF keeps_rpc_query [OF assms]] split: prod.splits sum.splits option.splits if_splits)

text \<open>A node, and a signer, all whose calls keep the property.\<close>

definition node_keeps :: "('w \<Rightarrow> bool) \<Rightarrow> ('pk, 'w) buyer_node \<Rightarrow> bool" where
  "node_keeps I n \<longleftrightarrow> keeps I (bn_chain_id n) \<and> (\<forall>a. keeps I (bn_account n a)) \<and>
     (\<forall>m a. keeps I (bn_session_account n m a)) \<and> keeps I (bn_gas_price n)"

definition signer_keeps :: "('w \<Rightarrow> bool) \<Rightarrow> ('pk, 'w) signer \<Rightarrow> bool" where
  "signer_keeps I s \<longleftrightarrow> (\<forall>msg. keeps I (sg_sign s msg))"

definition keybase_keeps :: "('w \<Rightarrow> bool) \<Rightarrow> ('pk, 'w) keybase \<Rightarrow> bool" where
  "keybase_keeps I kb \<longleftrightarrow> (\<forall>name. keeps I (kb_get kb name)) \<and> (\<forall>a pw msg. keeps I (kb_sign kb a pw msg))"

lemma rpc_node_keeps:
  assumes "\<And>t. keeps I (get t)"
  shows "node_keeps I (rpc_buyer_node lib rlib get nd)"
  unfolding node_keeps_def rpc_buyer_node_def buyer_node.select_convs
  by (intro conjI allI keeps_intros assms; rule keepsI)
    (auto dest: keepsD [OF keeps_Account [OF assms]] keepsD [OF keeps_SessionAccount [OF assms]] split: prod.splits sum.splits)

lemma keeps_Signer [keeps_intros]: "keybase_keeps I kb \<Longrightarrow> keeps I (Signer lib kb name password)"
  by (rule keepsI) (auto simp: Signer_def keybase_keeps_def dest: keepsD split: prod.splits sum.splits if_splits)

lemma keybase_signer_keeps:
  assumes "keybase_keeps I (ks_kb ks)"
  shows "signer_keeps I (keybase_signer lib ks)"
proof -
  have "keeps I (kb_sign (ks_kb ks) a pw msg)" for a pw msg using assms by (simp add: keybase_keeps_def)
  note sign = this [THEN keepsD]
  show ?thesis
    unfolding signer_keeps_def keybase_signer_def signer.select_convs
    by (intro allI keepsI)
      (auto simp: keybase_Sign_def dest: sign split: prod.splits sum.splits option.splits if_splits)
qed

lemma Signer_keybase: "Signer lib kb name password w = (Inr ks, w') \<Longrightarrow> ks_kb ks = kb"
  by (auto simp: Signer_iff)

lemma keeps_readAccount [keeps_intros]:
  assumes "node_keeps I n"
  shows "keeps I (readAccount lib n master key)"
proof -
  have "keeps I (bn_account n a)" "keeps I (bn_session_account n m a)" for m a
    using assms by (simp_all add: node_keeps_def)
  note reads = this [THEN keepsD]
  show ?thesis
    by (rule keepsI)
      (auto simp: readAccount_def dest: reads split: prod.splits sum.splits option.splits if_splits)
qed

lemma keeps_Prepare [keeps_intros]:
  assumes "\<And>n. nd = Some n \<Longrightarrow> node_keeps I n"
  shows "keeps I (Prepare lib nd pub master req cap)"
proof (cases nd)
  case (Some n)
  note n = assms [OF Some]
  then have "keeps I (bn_chain_id n)" "keeps I (bn_gas_price n)" by (simp_all add: node_keeps_def)
  note reads = this [THEN keepsD] keepsD [OF keeps_readAccount [OF n]]
  show ?thesis
    by (rule keepsI)
      (auto simp: Prepare_def Some Let_def dest: reads split: prod.splits sum.splits option.splits if_splits)
qed (auto simp: keeps_def Prepare_def split: sum.splits option.splits)

lemma keeps_CreatePaymentPayload [keeps_intros]:
  assumes "\<And>n. egs_node s = Some n \<Longrightarrow> node_keeps I n" "\<And>sg. egs_signer s = Some sg \<Longrightarrow> signer_keeps I sg"
  shows "keeps I (CreatePaymentPayload s ctx_error req cap)"
proof (rule keepsI)
  fix w r w' assume I: "I w" and c: "CreatePaymentPayload s ctx_error req cap w = (r, w')"
  show "I w'"
  proof (cases "egs_signer s = None \<or> egs_node s = None")
    case False
    then obtain sg n where s: "egs_signer s = Some sg" "egs_node s = Some n" by auto
    have "keeps I (sg_sign sg msg)" for msg using assms(2) [OF s(1)] by (simp add: signer_keeps_def)
    moreover have "keeps I (Prepare (egs_lib s) (Some n) (sg_pub_key sg) (egs_master s) req cap)"
      using assms(1) s(2) by (intro keeps_Prepare) auto
    note calls = calculation [THEN keepsD] this [THEN keepsD]
    from I c show ?thesis
      by (auto simp: CreatePaymentPayload_def s dest: calls split: prod.splits sum.splits option.splits)
  qed (use I c in \<open>auto simp: CreatePaymentPayload_def split: option.splits\<close>)
qed

lemma NewExactGnoScheme_fields:
  assumes "\<forall>opt \<in> set opts. \<exists>master. opt = WithMaster master"
  shows "egs_signer (NewExactGnoScheme lib sg nd opts) = sg" "egs_node (NewExactGnoScheme lib sg nd opts) = nd"
proof -
  have "egs_signer (fold (\<lambda>opt s. opt s) opts s0) = egs_signer s0 \<and> egs_node (fold (\<lambda>opt s. opt s) opts s0) = egs_node s0"
    for s0 :: "('a, 'b) ExactGnoScheme"
    using assms by (induction opts arbitrary: s0) (auto simp: WithMaster_def)
  then show "egs_signer (NewExactGnoScheme lib sg nd opts) = sg" "egs_node (NewExactGnoScheme lib sg nd opts) = nd"
    by (simp_all add: NewExactGnoScheme_def)
qed

subsection \<open>Beside a second component\<close>

definition beside :: "('w \<Rightarrow> 'a \<times> 'w) \<Rightarrow> 'w \<times> 'c \<Rightarrow> 'a \<times> 'w \<times> 'c" where
  "beside f wc = (let (r, w') = f (fst wc) in (r, w', snd wc))"

lemma beside_call: "beside f (w, c) = (fst (f w), snd (f w), c)"
  by (simp add: beside_def split_beta)

lemma keeps_beside: "keeps (\<lambda>wc. snd wc = c) (beside f)"
  by (simp add: keeps_def beside_def split_beta)

lemma rpc_call_beside:
  "rpc_call (\<lambda>t. beside (get t)) nd rpc_method params (w, c) =
     (fst (rpc_call get nd rpc_method params w), snd (rpc_call get nd rpc_method params w), c)"
proof (cases nd)
  case (Some n)
  obtain x w1 where g: "get (rpc_target n rpc_method params) w = (x, w1)" by fastforce
  have g': "beside (get (rpc_target n rpc_method params)) (w, c) = (x, w1, c)" by (simp add: beside_call g)
  show ?thesis
    unfolding rpc_call_def Let_def Some option.case prod.case g g'
    by (simp split: http_result.split prod.split option.split)
qed (simp add: rpc_call_def)

lemma rpc_query_beside:
  "rpc_query rlib (\<lambda>t. beside (get t)) nd path (w, c) =
     (fst (rpc_query rlib get nd path w), snd (rpc_query rlib get nd path w), c)"
proof -
  obtain r w1 where "rpc_call get nd ''abci_query'' (encode_value ''path'' (strconv_quote path)) w = (r, w1)" by fastforce
  then show ?thesis by (simp add: rpc_query_def rpc_call_beside split: sum.split option.split)
qed

lemma reads_beside:
  "NodeChainID (\<lambda>t. beside (get t)) nd (w, c) = (fst (NodeChainID get nd w), snd (NodeChainID get nd w), c)"
  "GasPrice rlib (\<lambda>t. beside (get t)) nd (w, c) = (fst (GasPrice rlib get nd w), snd (GasPrice rlib get nd w), c)"
  "Account lib rlib (\<lambda>t. beside (get t)) nd a (w, c) =
     (fst (Account lib rlib get nd a w), snd (Account lib rlib get nd a w), c)"
proof -
  obtain r w1 where "rpc_call get nd ''status'' [] w = (r, w1)" by fastforce
  then show "NodeChainID (\<lambda>t. beside (get t)) nd (w, c) = (fst (NodeChainID get nd w), snd (NodeChainID get nd w), c)"
    by (simp add: NodeChainID_def rpc_call_beside split: sum.split option.split)
  obtain r w1 where "rpc_query rlib get nd gasPricePath w = (r, w1)" by fastforce
  then show "GasPrice rlib (\<lambda>t. beside (get t)) nd (w, c) = (fst (GasPrice rlib get nd w), snd (GasPrice rlib get nd w), c)"
    by (simp add: GasPrice_def rpc_query_beside split: sum.split)
  obtain r w1 where "rpc_query rlib get nd (''auth/accounts/'' @ address_string lib a) w = (r, w1)" by fastforce
  then show "Account lib rlib (\<lambda>t. beside (get t)) nd a (w, c) =
      (fst (Account lib rlib get nd a w), snd (Account lib rlib get nd a w), c)"
    by (simp add: Account_def rpc_query_beside split: sum.split option.split)
qed

end
