(* ===== verification/X402_Gno.thy ===== *)
theory X402_Gno
  imports Go_Fmt Buyer_Frame
begin

text \<open>
  \<open>examples/weather/x402-gno/main.go\<close>: the buyer, one paid GET. It asks, reads the terms of the 402,
  signs with this repository's mechanism over its own RPC node, asks again with the payment, and
  reports what came back. What is upstream's is the record \<open>x402_client\<close>: decoding the offer and the
  receipt, choosing an offer and making the payment for it with the schemes registered. The HTTP
  client is a call into the world, one \<open>Do\<close> one call, whichever redirects that follows; bip39 and the
  in-memory keybase are arguments.

  A run's value is what it prints and the outcome; the text of an error is \<open>error_text\<close>.
\<close>

subsection \<open>The environment and the node\<close>

definition test1Mnemonic :: string where
  "test1Mnemonic = ''source bonus chronic canvas draft south burst lottery vacant surface solve popular case indicate oppose farm nothing bullet exhibit title speed wink action roast''"

definition maxPrice :: string where "maxPrice = ''1000000''"
definition defaultSellerURL :: string where "defaultSellerURL = ''http://localhost:8401/weather''"
definition packagePath :: string where "packagePath = ''github.com/gnolang/x402/examples/weather/x402-gno''"
definition maxAnswer :: nat where "maxAnswer = 10485760"
definition localRPC :: string where "localRPC = ''http://127.0.0.1:26657''"

definition publicRPC :: "(string, string) gomap" where
  "publicRPC = [(''onyx-1'', ''https://rpc.onyx.testnets.gno.land:443'')]"

type_synonym getenv = "string \<Rightarrow> string"

definition rpcFor :: "string \<Rightarrow> getenv \<Rightarrow> string" where
  "rpcFor net getenv =
     (let chain = trim_prefix net ''gno:'';
          rpc = cmp_Or [getenv ''X402_GNO_RPC'', (case gm_get publicRPC chain of Some u \<Rightarrow> u | None \<Rightarrow> ''''), localRPC] in
      case go_cut_prefix ''tcp://'' rpc of
        Some addr \<Rightarrow> ''http://'' @ addr
      | None \<Rightarrow> if \<not> go_contains rpc ''://'' then ''http://'' @ rpc else rpc)"

subsection \<open>A new key\<close>

record build_info =
  bi_version :: string
  bi_replaced :: bool
  bi_settings :: "string list"

definition fetchedVersion :: "build_info option \<Rightarrow> string" where
  "fetchedVersion info =
     (case info of
        None \<Rightarrow> ''''
      | Some i \<Rightarrow>
          if bi_version i = ''(devel)'' \<or> bi_replaced i then ''''
          else if ''vcs.revision'' \<in> set (bi_settings i) then ''''
          else bi_version i)"

definition payCommand :: "string \<Rightarrow> string" where
  "payCommand version =
     (if version = '''' then ''go run '' @ packagePath else ''go run '' @ packagePath @ ''@'' @ version)"

text \<open>\<open>^[\w@%+=:,./-]+$\<close>\<close>

definition plainWord :: "string \<Rightarrow> bool" where
  "plainWord s \<longleftrightarrow> s \<noteq> [] \<and>
     list_all (\<lambda>c. is_lower c \<or> is_upper c \<or> is_digit c \<or> c \<in> set ''_@%+=:,./-'') s"

definition quote_mark :: char where "quote_mark = CHR 0x27"

definition escape_mark :: "char \<Rightarrow> string" where
  "escape_mark c = (if c = quote_mark then [quote_mark, CHR 0x5C, quote_mark, quote_mark] else [c])"

definition shellWord :: "string \<Rightarrow> string" where
  "shellWord s = (if plainWord s then s else quote_mark # concat (map escape_mark s) @ [quote_mark])"

text \<open>What a shell reads a word as: text between quotes as it is, outside them a backslash escapes.\<close>

fun shell_read :: "bool \<Rightarrow> string \<Rightarrow> string option" where
  "shell_read False [] = Some []"
| "shell_read True [] = None"
| "shell_read True (c # s) = (if c = quote_mark then shell_read False s else map_option ((#) c) (shell_read True s))"
| "shell_read False (c # s) =
     (if c = quote_mark then shell_read True s
      else if c = CHR 0x5C then (case s of [] \<Rightarrow> None | d # s' \<Rightarrow> map_option ((#) d) (shell_read False s'))
      else if plainWord [c] then map_option ((#) c) (shell_read False s)
      else None)"

subsection \<open>Asking\<close>

datatype web_result = NoWebRequest go_error | NoWebAnswer go_error | WebAnswer int http_header incoming

type_synonym 'w web_do = "string \<Rightarrow> (string, string) gomap \<Rightarrow> 'w \<Rightarrow> web_result \<times> 'w"

record answer =
  an_status :: int
  an_header :: http_header
  an_body :: bytes
  an_cut :: "go_error option"

definition get_answer :: "'w web_do \<Rightarrow> string \<Rightarrow> (string, string) gomap \<Rightarrow> 'w \<Rightarrow> (go_error + answer) \<times> 'w" where
  "get_answer web url headers w =
     (case web url headers w of
        (NoWebRequest err, w1) \<Rightarrow> (Inl err, w1)
      | (NoWebAnswer err, w1) \<Rightarrow> (Inl err, w1)
      | (WebAnswer status header src, w1) \<Rightarrow>
          (let (body, cut) = read_limited maxAnswer src;
               got = \<lparr>an_status = status, an_header = header, an_body = body, an_cut = cut\<rparr> in
           (Inr (if cut = None \<and> maxAnswer < length body
             then got\<lparr>an_body := take maxAnswer body, an_cut := Some (ErrorString ''it runs past 10485760 bytes'')\<rparr>
             else got), w1)))"

text \<open>\<open>headersOf\<close>: the first value of each name.\<close>

definition headersOf :: "http_header \<Rightarrow> (string, string) gomap" where
  "headersOf h = map (\<lambda>(name, vs). (name, header_get h name)) h"

subsection \<open>The offer\<close>

definition ugnotNetworks :: "requirements list \<Rightarrow> string list" where
  "ugnotNetworks accepts =
     fold (\<lambda>offer nets.
       if req_scheme offer = ''exact'' \<and> go_cut_prefix ''gno:'' (req_network offer) \<noteq> None \<and>
         req_asset offer = ''ugnot'' \<and> req_network offer \<notin> set nets
       then nets @ [req_network offer] else nets) accepts []"

record payment_required =
  pr_accepts :: "requirements list"
  pr_error :: string
  pr_rest :: json

record spend_asset =
  sa_network :: string
  sa_asset :: string
  sa_max :: string

record ('pk, 'w) client_state =
  cs_registered :: "(string, ('pk, 'w) ExactGnoScheme) gomap"
  cs_allowed :: "spend_asset list"

record ('pk, 'w) x402_client =
  xc_required :: "(string, string) gomap \<Rightarrow> bytes \<Rightarrow> go_error + payment_required"
  xc_receipt :: "(string, string) gomap \<Rightarrow> go_error + settle_response"
  xc_select :: "('pk, 'w) client_state \<Rightarrow> requirements list \<Rightarrow> go_error + requirements"
  xc_create :: "('pk, 'w) client_state \<Rightarrow> payment_required \<Rightarrow> requirements \<Rightarrow> 'w \<Rightarrow> (go_error + payment_payload) \<times> 'w"
  xc_marshal :: "payment_payload \<Rightarrow> go_error + bytes"
  xc_encode :: "bytes \<Rightarrow> go_error + (string, string) gomap"

record ('pk, 'w) buyer =
  by_lib :: "'pk gno_lib"
  by_rpc :: "'pk rpc_lib"
  by_http :: "'w http_get"
  by_web :: "'w web_do"
  by_client :: "('pk, 'w) x402_client"
  by_create_account :: "string \<Rightarrow> go_error + ('pk, 'w) keybase \<times> 'pk key_info"
  by_getenv :: getenv

text \<open>Step 2's loop: a node and a scheme for each network, or the first node's error.\<close>

fun register_networks ::
  "('pk, 'w) buyer \<Rightarrow> ('pk, 'w) signer \<Rightarrow> (('pk, 'w) ExactGnoScheme \<Rightarrow> ('pk, 'w) ExactGnoScheme) list \<Rightarrow>
   string list \<Rightarrow> go_error + ('pk, 'w) client_state" where
  "register_networks b signer opts [] = Inr \<lparr>cs_registered = [], cs_allowed = []\<rparr>"
| "register_networks b signer opts (net # nets) =
     (case NewRPCNode (by_rpc b) (rpcFor net (by_getenv b)) of
        Inl err \<Rightarrow> Inl err
      | Inr nd \<Rightarrow>
          (case register_networks b signer opts nets of
             Inl err \<Rightarrow> Inl err
           | Inr cs \<Rightarrow>
               Inr \<lparr>cs_registered = gm_put net
                   (NewExactGnoScheme (by_lib b) (Some signer) (Some (rpc_buyer_node (by_lib b) (by_rpc b) (by_http b) (Some nd))) opts)
                   (cs_registered cs),
                 cs_allowed = \<lparr>sa_network = net, sa_asset = ''ugnot'', sa_max = maxPrice\<rparr> # cs_allowed cs\<rparr>))"

text \<open>
  \<open>CreatePaymentPayload\<close>'s error: an address the chain knows no account of is told apart. \<open>web_step\<close> is
  steps 2 and 3, from the 402 to the headers of the paid request.
\<close>

definition sign_payment ::
  "('pk, 'w) buyer \<Rightarrow> ('pk, 'w) signer \<Rightarrow> (('pk, 'w) ExactGnoScheme \<Rightarrow> ('pk, 'w) ExactGnoScheme) list \<Rightarrow>
   address \<Rightarrow> answer \<Rightarrow> 'w \<Rightarrow> (go_error + (string, string) gomap) \<times> 'w" where
  "sign_payment b signer opts key got w =
     (let client = by_client b in
      case xc_required client (headersOf (an_header got)) (an_body got) of
        Inl err \<Rightarrow> (Inl err, w)
      | Inr offer \<Rightarrow>
      (let nets = ugnotNetworks (pr_accepts offer) in
      if nets = [] then (Inl (ErrorString ''the seller's offer names no ugnot payment on a gno network''), w)
      else
      (case register_networks b signer opts nets of
        Inl err \<Rightarrow> (Inl err, w)
      | Inr cs \<Rightarrow>
      (case xc_select client cs (pr_accepts offer) of
        Inl err \<Rightarrow> (Inl err, w)
      | Inr selected \<Rightarrow>
      (case xc_create client cs offer selected w of
        (Inl err, w1) \<Rightarrow>
          (Inl (if as_type is_unknown_address err \<noteq> None
            then ErrorString (address_string (by_lib b) key @ '' has no account at '' @
              rpcFor (req_network selected) (by_getenv b) @
              ''; fund it, then run this again (https://faucet.gno.land funds the public testnets)'')
            else err), w1)
      | (Inr payload, w1) \<Rightarrow>
      (case xc_marshal client payload of
        Inl err \<Rightarrow> (Inl err, w1)
      | Inr raw \<Rightarrow> (xc_encode client raw, w1)))))))"

text \<open>\<open>keyOf\<close>: the key of a mnemonic, in a keybase of its own, and its address.\<close>

definition keyOf :: "('pk, 'w) buyer \<Rightarrow> string \<Rightarrow> go_error + ('pk, 'w) keybase \<times> address" where
  "keyOf b mnemonic =
     (case by_create_account b mnemonic of
        Inl err \<Rightarrow> Inl err
      | Inr (kb, info) \<Rightarrow> Inr (kb, ki_address info))"

subsection \<open>The report\<close>

definition text_line :: "string \<Rightarrow> string" where
  "text_line s = s @ [CHR 0x0A]"

definition report :: "('pk, 'w) buyer \<Rightarrow> answer \<Rightarrow> string \<times> bool" where
  "report b got =
     (let headers = headersOf (an_header got); receipt = xc_receipt (by_client b) headers in
      if an_status got < 200 \<or> 299 < an_status got then
        (let (reason0, tx) = (case receipt of Inr r \<Rightarrow> (sr_reason r, sr_transaction r) | Inl err \<Rightarrow> ('''', ''''));
             reason1 = (if reason0 = ''''
               then (case xc_required (by_client b) headers (an_body got) of Inr c \<Rightarrow> pr_error c | Inl err \<Rightarrow> reason0)
               else reason0);
             reason = trim_space reason1 in
         (if (case receipt of Inr r \<Rightarrow> sr_reason r = ''settlement_pending'' | Inl err \<Rightarrow> False) then
            text_line (''not confirmed yet: tx '' @ tx @ '' ('' @ reason @ ''); the weather was withheld, and the payment may still go through'')
          else if (case receipt of Inr r \<Rightarrow> sr_reason r = ''duplicate_settlement'' | Inl err \<Rightarrow> False) then
            text_line (''already settling: '' @ (if tx \<noteq> '''' then ''tx '' @ tx @ '' '' else '''') @ ''('' @ reason @
              ''); the weather was withheld, and the payment may already have gone through'')
          else
            text_line (''not paid (status '' @ format_int (an_status got) @ '')'' @
              (if reason \<noteq> '''' then '': '' @ reason else '''') @ (if tx \<noteq> '''' then ''; tx '' @ tx else ''''))),
         False)
      else
        ((if header_get (an_header got) ''PAYMENT-RESPONSE'' = '''' then text_line ''served without payment''
          else (case receipt of
              Inl err \<Rightarrow> text_line ''served, with a receipt this buyer cannot read''
            | Inr r \<Rightarrow> text_line (''paid: tx '' @ sr_transaction r @ '' by '' @ sr_payer r))) @
         text_line (trim_space (an_body got)) @
         (case an_cut got of Some err \<Rightarrow> text_line (''the answer was cut short: '' @ error_text (by_lib b) err) | None \<Rightarrow> ''''),
         an_cut got = None))"

subsection \<open>Paying\<close>

text \<open>\<open>pay\<close>, from the key on: who pays, and what is printed about it.\<close>

definition paying_as ::
  "('pk, 'w) buyer \<Rightarrow> string \<Rightarrow> address \<Rightarrow> go_error + address \<times>
     (('pk, 'w) ExactGnoScheme \<Rightarrow> ('pk, 'w) ExactGnoScheme) list \<times> string" where
  "paying_as b mnemonic key =
     (let shown = address_string (by_lib b) in
      if by_getenv b ''X402_SESSION_MASTER'' \<noteq> '''' then
        (case address_from_bech32 (by_lib b) (by_getenv b ''X402_SESSION_MASTER'') of
           Inl err \<Rightarrow> Inl (WrapError ''X402_SESSION_MASTER'' err)
         | Inr owner \<Rightarrow>
             Inr (owner, [WithMaster owner],
               text_line (''buying as '' @ shown owner @ '', signed by its session key '' @ shown key)))
      else if mnemonic = test1Mnemonic then
        Inr (key, [], text_line (''buying as '' @ shown key @
          '', gno's public test1 key; set X402_MNEMONIC to pay from your own account''))
      else Inr (key, [], text_line (''buying as '' @ shown key)))"

text \<open>Steps 1 to 5.\<close>

definition buy ::
  "('pk, 'w) buyer \<Rightarrow> ('pk, 'w) signer \<Rightarrow> (('pk, 'w) ExactGnoScheme \<Rightarrow> ('pk, 'w) ExactGnoScheme) list \<Rightarrow>
   address \<Rightarrow> address \<Rightarrow> string \<Rightarrow> 'w \<Rightarrow> (string \<times> (go_error + bool)) \<times> 'w" where
  "buy b signer opts payer key sellerURL w =
     (case get_answer (by_web b) sellerURL [] w of
        (Inl err, w1) \<Rightarrow> (('''', Inl err), w1)
      | (Inr got, w1) \<Rightarrow>
      if an_status got \<noteq> 402
      then (let (text, served) = report b got in ((text, Inr served), w1))
      else
      (case sign_payment b signer opts key got w1 of
        (Inl err, w2) \<Rightarrow> (('''', Inl err), w2)
      | (Inr headers, w2) \<Rightarrow>
      (case get_answer (by_web b) sellerURL headers w2 of
        (Inl err, w3) \<Rightarrow>
          ((text_line (''not confirmed: the answer to the payment was lost ('' @ error_text (by_lib b) err @
              ''); it may have gone through, so check '' @ address_string (by_lib b) payer @ '' before paying again''),
            Inr False), w3)
      | (Inr got', w3) \<Rightarrow> (let (text, served) = report b got' in ((text, Inr served), w3)))))"

definition pay :: "('pk, 'w) buyer \<Rightarrow> string \<Rightarrow> 'w \<Rightarrow> (string \<times> (go_error + bool)) \<times> 'w" where
  "pay b sellerURL w =
     (let mnemonic = cmp_Or [by_getenv b ''X402_MNEMONIC'', test1Mnemonic] in
      case keyOf b mnemonic of
        Inl err \<Rightarrow> (('''', Inl err), w)
      | Inr (kb, key) \<Rightarrow>
      (case Signer (by_lib b) kb ''buyer'' '''' w of
        (Inl err, w0) \<Rightarrow> (('''', Inl err), w0)
      | (Inr ks, w0) \<Rightarrow>
      (case paying_as b mnemonic key of
        Inl err \<Rightarrow> (('''', Inl err), w0)
      | Inr (payer, opts, greeting) \<Rightarrow>
          (let ((text, res), w1) = buy b (keybase_signer (by_lib b) ks) opts payer key sellerURL w0 in
           ((greeting @ text, res), w1)))))"

subsection \<open>The command\<close>

record key_source =
  new_entropy :: "go_error + bytes"
  new_mnemonic :: "bytes \<Rightarrow> go_error + string"
  build :: "build_info option"

definition moduleVersion :: "key_source \<Rightarrow> string" where
  "moduleVersion ks = fetchedVersion (build ks)"

definition printNewKey :: "key_source \<Rightarrow> ('pk, 'w) buyer \<Rightarrow> string \<Rightarrow> go_error + string" where
  "printNewKey ks b seller =
     (case new_entropy ks of Inl err \<Rightarrow> Inl err
      | Inr entropy \<Rightarrow>
     (case new_mnemonic ks entropy of Inl err \<Rightarrow> Inl err
      | Inr mnemonic \<Rightarrow>
     (case keyOf b mnemonic of Inl err \<Rightarrow> Inl err
      | Inr (kb, addr) \<Rightarrow>
          (let target = (if seller \<noteq> '''' then shellWord seller else ''<seller URL>'');
               shown = address_string (by_lib b) addr in
           Inr (text_line ''a new key for the testnet, saved nowhere: this is the only copy of its mnemonic'' @
             text_line ''use it as a throwaway, and never send it anything you would mind losing'' @
             text_line '''' @
             text_line (''mnemonic: '' @ mnemonic) @
             text_line (''address:  '' @ shown) @
             text_line '''' @
             text_line (''fund the address at https://faucet.gno.land, then pay with it:'') @
             text_line (''  X402_MNEMONIC='' @ [quote_mark] @ mnemonic @ [quote_mark] @ '' '' @
               payCommand (moduleVersion ks) @ '' '' @ target))))))"

definition run :: "key_source \<Rightarrow> ('pk, 'w) buyer \<Rightarrow> string list \<Rightarrow> 'w \<Rightarrow> (string \<times> int) \<times> 'w" where
  "run ks b args w =
     (let newKey = (args \<noteq> [] \<and> hd args = ''--new-key'');
          args' = (if newKey then tl args else args);
          seller = (case args' of [] \<Rightarrow> '''' | a # _ \<Rightarrow> a) in
      if newKey then
        (case printNewKey ks b seller of
           Inl err \<Rightarrow> ((text_line (''no key made: '' @ error_text (by_lib b) err), 1), w)
         | Inr text \<Rightarrow> ((text, 0), w))
      else
        (case pay b (cmp_Or [seller, by_getenv b ''X402_SELLER_URL'', defaultSellerURL]) w of
           ((text, Inl err), w1) \<Rightarrow> ((text @ text_line (''not paid: '' @ error_text (by_lib b) err), 1), w1)
         | ((text, Inr served), w1) \<Rightarrow> ((text, if served then 0 else 1), w1)))"

subsection \<open>What is printed can be pasted\<close>

lemma shell_read_plain: "list_all (\<lambda>c. plainWord [c]) s \<Longrightarrow> shell_read False s = Some s"
proof (induction s)
  case (Cons c s)
  have "plainWord [CHR 0x27] \<longleftrightarrow> False" "plainWord [CHR 0x5C] \<longleftrightarrow> False"
    by (simp_all add: plainWord_def char_class_defs)
  with Cons have "c \<noteq> quote_mark" "c \<noteq> CHR 0x5C" by (auto simp: quote_mark_def)
  with Cons show ?case by simp
qed simp

lemma shell_read_quoted: "shell_read True (concat (map escape_mark s) @ [quote_mark]) = Some s"
proof (induction s)
  case (Cons c s)
  have "CHR 0x5C \<noteq> quote_mark" by (simp add: quote_mark_def)
  with Cons show ?case by (simp add: escape_mark_def)
qed simp

text \<open>
  C39. The command the buyer prints names the seller it was given: whatever bytes the URL is of, a
  shell that reads the word printed for it, quotes and backslashes resolved and nothing else expanded,
  reads exactly that URL.
\<close>

theorem shell_word_reads_back: "shell_read False (shellWord s) = Some s"
proof (cases "plainWord s")
  case True
  then have "list_all (\<lambda>c. plainWord [c]) s" by (auto simp: plainWord_def list_all_iff)
  with True show ?thesis by (simp add: shellWord_def shell_read_plain)
next
  case False
  then show ?thesis by (simp add: shellWord_def shell_read_quoted)
qed

subsection \<open>The networks of an offer\<close>

definition ugnot_offer :: "requirements \<Rightarrow> bool" where
  "ugnot_offer r \<longleftrightarrow> req_scheme r = ''exact'' \<and> (\<exists>c. req_network r = ''gno:'' @ c) \<and> req_asset r = ''ugnot''"

text \<open>
  The buyer prepares to pay on exactly the gno networks the offer prices in ugnot under the exact
  scheme, each once, in the order of their first offers.
\<close>

theorem ugnotNetworks_first_offers:
  "ugnotNetworks accepts = rev (remdups (rev (map req_network (filter ugnot_offer accepts))))"
proof (induction accepts rule: rev_induct)
  case (snoc r accepts)
  have "ugnot_offer r \<longleftrightarrow> req_scheme r = ''exact'' \<and> go_cut_prefix ''gno:'' (req_network r) \<noteq> None \<and> req_asset r = ''ugnot''"
    by (auto simp: ugnot_offer_def) (metis not_None_eq go_cut_prefix_Some append_Cons append_Nil)
  moreover have "ugnotNetworks (accepts @ [r]) =
      (if req_scheme r = ''exact'' \<and> go_cut_prefix ''gno:'' (req_network r) \<noteq> None \<and> req_asset r = ''ugnot'' \<and>
        req_network r \<notin> set (ugnotNetworks accepts) then ugnotNetworks accepts @ [req_network r] else ugnotNetworks accepts)"
    unfolding ugnotNetworks_def by simp
  ultimately show ?case using snoc by auto
qed (simp add: ugnotNetworks_def)

lemma register_networks_members:
  assumes "register_networks b signer opts nets = Inr cs"
  shows "gm_get (cs_registered cs) n = Some s \<Longrightarrow>
      \<exists>nd. n \<in> set nets \<and> NewRPCNode (by_rpc b) (rpcFor n (by_getenv b)) = Inr nd \<and>
        s = NewExactGnoScheme (by_lib b) (Some signer) (Some (rpc_buyer_node (by_lib b) (by_rpc b) (by_http b) (Some nd))) opts"
    and "a \<in> set (cs_allowed cs) \<Longrightarrow> sa_network a \<in> set nets \<and> sa_asset a = ''ugnot'' \<and> sa_max a = maxPrice"
  using assms
proof (induction nets arbitrary: cs)
  case (Cons n' nets)
  {
    case 1
    then show ?case
      using Cons.IH(1) by (fastforce simp: gm_simps split: sum.splits if_splits)
  next
    case 2
    then show ?case
      using Cons.IH(2) by (fastforce split: sum.splits)
  }
qed auto

subsection \<open>What a payment may cost\<close>

text \<open>
  What the buyer relies on of the upstream client: it chooses among the offers, and makes a payment
  with the scheme registered for the chosen offer's network, under the cap its spend controls give
  the network and the asset.
\<close>

definition client_law :: "('pk, 'w) x402_client \<Rightarrow> bool" where
  "client_law c \<longleftrightarrow>
     (\<forall>cs accepts sel. xc_select c cs accepts = Inr sel \<longrightarrow> sel \<in> set accepts) \<and>
     (\<forall>cs offer sel w payload w'. xc_create c cs offer sel w = (Inr payload, w') \<longrightarrow>
        (\<exists>s a ctx sp. gm_get (cs_registered cs) (req_network sel) = Some s \<and>
           a \<in> set (cs_allowed cs) \<and> sa_network a = req_network sel \<and> sa_asset a = req_asset sel \<and>
           CreatePaymentPayload s ctx sel (sa_max a) w = (Inr sp, w') \<and> pp_payload payload = sp_payload sp))"

lemma sign_payment_cases:
  assumes "sign_payment b signer opts key got w = (Inr headers, w')"
  obtains offer cs sel payload raw where
    "xc_required (by_client b) (headersOf (an_header got)) (an_body got) = Inr offer"
    "register_networks b signer opts (ugnotNetworks (pr_accepts offer)) = Inr cs"
    "xc_select (by_client b) cs (pr_accepts offer) = Inr sel"
    "xc_create (by_client b) cs offer sel w = (Inr payload, w')"
    "xc_marshal (by_client b) payload = Inr raw" "xc_encode (by_client b) raw = Inr headers"
  using assms by (auto simp: sign_payment_def Let_def split: sum.splits prod.splits if_splits)

lemma price_within_cap:
  assumes "withinCap lib price maxPrice = None"
  shows "sint (coin_amount price) \<le> 1000000"
proof -
  have "decimal maxPrice = 1000000" by (simp add: decimal_def maxPrice_def)
  with assms show ?thesis by (auto simp: withinCap_def maxPrice_def split: if_splits)
qed

lemma fee_within_cap:
  assumes "payment_fee lib price = Inr fee"
  shows "coin_denom fee = ''ugnot'' \<and> sint (coin_amount fee) \<le> 1000000"
  using assms by (auto simp: payment_fee_def maxGasFee_def ugnot_Denom_def split: sum.splits if_splits)

lemma prepared_within_caps:
  assumes "Prepare lib nd pub master sel maxPrice w = (Inr p, w1)" "req_asset sel = ''ugnot''"
  obtains c payee src where "ugnot_offer sel" "address_from_bech32 lib (req_pay_to sel) = Inr payee"
    "parse_coins lib (req_amount sel @ ''ugnot'') = Inr [c]" "sint (coin_amount c) \<le> 1000000"
    "tx_msgs (pay_tx p) = [BankSend \<lparr>from_address = src, to_address = payee, send_amount = [c]\<rparr>]"
    "coin_denom (gas_fee (tx_fee (pay_tx p))) = ''ugnot''" "sint (coin_amount (gas_fee (tx_fee (pay_tx p)))) \<le> 1000000"
proof -
  from assms(1) obtain t pk price fee account where t: "acceptable_offer lib sel t"
    "withinCap lib (t_price t) maxPrice = None" "payment_fee lib price = Inr fee"
    "p = payment_for lib t fee pk master account"
    unfolding Prepare_spec by blast
  have "chainIDOf (req_network sel) = Some (t_chain_id t)" "req_scheme sel = ''exact''"
    "address_from_bech32 lib (req_pay_to sel) = Inr (t_pay_to t)"
    "parse_coins lib (req_amount sel @ req_asset sel) = Inr [t_price t]"
    using t(1) by (auto simp: acceptable_offer_def)
  moreover from this(1) have "req_network sel = ''gno:'' @ t_chain_id t" by (simp add: chainIDOf_iff)
  moreover obtain src where "tx_msgs (pay_tx p) = [BankSend \<lparr>from_address = src, to_address = t_pay_to t, send_amount = [t_price t]\<rparr>]"
    "gas_fee (tx_fee (pay_tx p)) = fee"
    by (simp add: t(4) payment_for_def Let_def)
  ultimately show thesis
    using assms(2) price_within_cap [OF t(2)] fee_within_cap [OF t(3)]
    by (intro that [of "t_pay_to t" "t_price t" src]) (auto simp: ugnot_offer_def)
qed

text \<open>
  C12. What one run can cost is bounded: whatever a seller answers 402 with, the payment the buyer sends
  back is made for one of its offers, an exact one in ugnot on a gno network, with one bank send of
  that offer's price to that offer's payee, and costs at most 1 GNOT besides a network fee of at most
  1 GNOT. The upstream client is assumed to pay with the registered scheme under the cap it is given.
\<close>

theorem buyer_spends_at_most:
  assumes "client_law (by_client b)" "sign_payment b signer opts key got w = (Inr headers, w')"
    and opts: "\<forall>opt \<in> set opts. \<exists>master. opt = WithMaster master"
  shows "\<exists>offer sel payload p sig sp c raw from payee.
    xc_required (by_client b) (headersOf (an_header got)) (an_body got) = Inr offer \<and>
    sel \<in> set (pr_accepts offer) \<and> ugnot_offer sel \<and>
    address_from_bech32 (by_lib b) (req_pay_to sel) = Inr payee \<and>
    parse_coins (by_lib b) (req_amount sel @ ''ugnot'') = Inr [c] \<and> sint (coin_amount c) \<le> 1000000 \<and>
    tx_msgs (pay_tx p) = [BankSend \<lparr>from_address = from, to_address = payee, send_amount = [c]\<rparr>] \<and>
    coin_denom (gas_fee (tx_fee (pay_tx p))) = ''ugnot'' \<and>
    sint (coin_amount (gas_fee (tx_fee (pay_tx p)))) \<le> 1000000 \<and>
    Payload (by_lib b) p sig = Inr sp \<and> pp_payload payload = sp_payload sp \<and>
    xc_marshal (by_client b) payload = Inr raw \<and> xc_encode (by_client b) raw = Inr headers"
proof -
  obtain offer cs sel payload raw where
    o: "xc_required (by_client b) (headersOf (an_header got)) (an_body got) = Inr offer"
    and cs: "register_networks b signer opts (ugnotNetworks (pr_accepts offer)) = Inr cs"
    and sel: "xc_select (by_client b) cs (pr_accepts offer) = Inr sel"
    and made: "xc_create (by_client b) cs offer sel w = (Inr payload, w')"
    and sent: "xc_marshal (by_client b) payload = Inr raw" "xc_encode (by_client b) raw = Inr headers"
    using sign_payment_cases [OF assms(2)] by blast
  from assms(1) made obtain s a ctx sp where
    s: "gm_get (cs_registered cs) (req_network sel) = Some s" "a \<in> set (cs_allowed cs)"
      "sa_network a = req_network sel" "sa_asset a = req_asset sel"
    and sp: "CreatePaymentPayload s ctx sel (sa_max a) w = (Inr sp, w')" "pp_payload payload = sp_payload sp"
    unfolding client_law_def by meson
  have chosen: "sel \<in> set (pr_accepts offer)" using assms(1) sel unfolding client_law_def by blast
  have a: "sa_asset a = ''ugnot''" "sa_max a = maxPrice"
    using register_networks_members(2) [OF cs s(2)] by simp_all
  obtain nd where s_def: "s = NewExactGnoScheme (by_lib b) (Some signer)
      (Some (rpc_buyer_node (by_lib b) (by_rpc b) (by_http b) (Some nd))) opts"
    using register_networks_members(1) [OF cs s(1)] by blast
  have "egs_lib (fold (\<lambda>opt s. opt s) opts s0) = egs_lib s0" for s0 :: "('a, 'b) ExactGnoScheme"
    using opts by (induction opts arbitrary: s0) (auto simp: WithMaster_def)
  then have lib: "egs_lib s = by_lib b" by (simp add: s_def NewExactGnoScheme_def)
  obtain sg p w1 msg sig where "egs_signer s = Some sg" "SignBytes (by_lib b) p = Inr msg"
    and p: "Prepare (by_lib b) (egs_node s) (sg_pub_key sg) (egs_master s) sel maxPrice w = (Inr p, w1)"
    and "sg_sign sg msg w1 = (Inr sig, w')" and made_of: "Payload (by_lib b) p sig = Inr sp"
    by (rule CreatePaymentPayload_signed [OF sp(1), unfolded lib a(2)])
  have "req_asset sel = ''ugnot''" using a(1) s(4) by simp
  from prepared_within_caps [OF p this] obtain c payee src where paid: "ugnot_offer sel"
    "address_from_bech32 (by_lib b) (req_pay_to sel) = Inr payee"
    "parse_coins (by_lib b) (req_amount sel @ ''ugnot'') = Inr [c]" "sint (coin_amount c) \<le> 1000000"
    "tx_msgs (pay_tx p) = [BankSend \<lparr>from_address = src, to_address = payee, send_amount = [c]\<rparr>]"
    "coin_denom (gas_fee (tx_fee (pay_tx p))) = ''ugnot''" "sint (coin_amount (gas_fee (tx_fee (pay_tx p)))) \<le> 1000000" .
  show ?thesis
    by (intro exI conjI) (rule o chosen paid sent sp(2) made_of)+
qed

subsection \<open>What is asked of the seller\<close>

text \<open>
  A run over a world that also keeps the requests made to the seller and what each got. Nothing else
  the buyer does asks the seller: neither its keybase nor the making of a payment.
\<close>

type_synonym request_log = "(string \<times> (string, string) gomap \<times> web_result) list"

definition asking :: "'w web_do \<Rightarrow> ('w \<times> request_log) web_do" where
  "asking web url headers = logged (web url headers) (\<lambda>r. (url, headers, r))"

text \<open>
  What the run relies on for that: the RPC client and the keybase do not touch the log of the seller's
  requests, and the upstream client changes the world only through the schemes registered in it, in
  whatever order and however often it uses them. That signing a payment then leaves the log alone is
  proved of this repository's own scheme (\<open>sign_payment_asks_nothing\<close>).
\<close>

definition log_is :: "request_log \<Rightarrow> 'w \<times> request_log \<Rightarrow> bool" where
  "log_is l wl \<longleftrightarrow> snd wl = l"

definition schemes_alone :: "('pk, 'w) x402_client \<Rightarrow> bool" where
  "schemes_alone c \<longleftrightarrow>
     (\<forall>cs I. (\<forall>net s ctx sel cap. gm_get (cs_registered cs) net = Some s \<longrightarrow> keeps I (CreatePaymentPayload s ctx sel cap)) \<longrightarrow>
        (\<forall>offer sel. keeps I (xc_create c cs offer sel)))"

definition asks_seller_alone :: "('pk, 'w \<times> request_log) buyer \<Rightarrow> 'w web_do \<Rightarrow> bool" where
  "asks_seller_alone b web \<longleftrightarrow> by_web b = asking web \<and> (\<forall>l t. keeps (log_is l) (by_http b t)) \<and>
     (\<forall>m kb key l. keyOf b m = Inr (kb, key) \<longrightarrow> keybase_keeps (log_is l) kb) \<and> schemes_alone (by_client b)"

lemma get_answer_asking:
  assumes "get_answer (asking web) url headers (w, l) = (r, w', l')"
  shows "l' = l @ [(url, headers, fst (web url headers w))]"
    and "r = Inr got \<Longrightarrow> \<exists>h src. fst (web url headers w) = WebAnswer (an_status got) h src"
  using assms
  by (auto simp: get_answer_def asking_def logged_call Let_def split: web_result.splits prod.splits if_splits)

lemma register_networks_keeps:
  assumes "register_networks b signer opts nets = Inr cs" "gm_get (cs_registered cs) net = Some s"
    and "\<And>t. keeps I (by_http b t)" "signer_keeps I signer" "\<forall>opt \<in> set opts. \<exists>master. opt = WithMaster master"
  shows "keeps I (CreatePaymentPayload s ctx sel cap)"
proof -
  obtain nd where s: "s = NewExactGnoScheme (by_lib b) (Some signer)
      (Some (rpc_buyer_node (by_lib b) (by_rpc b) (by_http b) (Some nd))) opts"
    using register_networks_members(1) [OF assms(1,2)] by blast
  show ?thesis
    using NewExactGnoScheme_fields [OF assms(5)] assms(4) rpc_node_keeps [of I "by_http b", OF assms(3)]
    by (intro keeps_CreatePaymentPayload) (auto simp: s)
qed

lemma sign_payment_asks_nothing:
  assumes "asks_seller_alone b web" "\<And>l. signer_keeps (log_is l) signer"
    and "\<forall>opt \<in> set opts. \<exists>master. opt = WithMaster master"
    and "sign_payment b signer opts key got (w, l) = (r, w', l')"
  shows "l' = l"
proof -
  have http: "keeps (log_is l) (by_http b t)" for l t using assms(1) by (simp add: asks_seller_alone_def)
  have create: "l1 = l" if "register_networks b signer opts nets = Inr cs"
      "xc_create (by_client b) cs offer sel (w, l) = (x, w1, l1)" for nets cs offer sel x w1 l1
  proof -
    have "keeps (log_is l) (CreatePaymentPayload s ctx sel cap)"
      if "gm_get (cs_registered cs) net = Some s" for net s ctx sel cap
      using register_networks_keeps [OF \<open>register_networks b signer opts nets = Inr cs\<close> that http assms(2,3)] .
    then have "keeps (log_is l) (xc_create (by_client b) cs offer sel)"
      using assms(1) unfolding asks_seller_alone_def schemes_alone_def by blast
    from keepsD [OF this that(2)] show ?thesis by (simp add: log_is_def)
  qed
  show ?thesis
    using assms(4) by (auto simp: sign_payment_def Let_def dest: create split: sum.splits prod.splits if_splits)
qed

lemma paying_as_opts:
  "paying_as b mnemonic key = Inr (payer, opts, greeting) \<Longrightarrow> \<forall>opt \<in> set opts. \<exists>master. opt = WithMaster master"
  by (auto simp: paying_as_def Let_def split: sum.splits if_splits)

text \<open>An answer served whole, and what a run may have asked, from its start, with what it returns.\<close>

definition served_whole :: "web_result \<Rightarrow> bool" where
  "served_whole r \<longleftrightarrow> (\<exists>status h body. r = WebAnswer status h (body, None) \<and> 200 \<le> status \<and> status \<le> 299 \<and>
     length body \<le> 10485760)"

definition asked_outcome :: "string \<Rightarrow> request_log \<Rightarrow> go_error + bool \<Rightarrow> bool" where
  "asked_outcome url asked res \<longleftrightarrow>
     asked = [] \<and> isl res \<or>
     (\<exists>r. asked = [(url, [], r)] \<and> (res = Inr True \<longleftrightarrow> served_whole r)) \<or>
     (\<exists>h src headers r served. asked = [(url, [], WebAnswer 402 h src), (url, headers, r)] \<and> res = Inr served \<and>
        (served \<longleftrightarrow> served_whole r))"

lemma report_served:
  assumes "get_answer web url headers w = (Inr got, w')"
  shows "snd (report b got) \<longleftrightarrow> served_whole (fst (web url headers w))"
  using assms
  by (auto simp: report_def Let_def get_answer_def served_whole_def read_limited_def maxAnswer_def
      split: web_result.splits prod.splits if_splits)

lemma get_answer_lost:
  assumes "get_answer web url headers w = (Inl err, w')"
  shows "\<not> served_whole (fst (web url headers w))"
  using assms by (auto simp: get_answer_def served_whole_def Let_def split: web_result.splits prod.splits)

lemma asking_fst: "fst (asking web url headers (w, l)) = fst (web url headers w)"
  by (simp add: asking_def logged_call)

lemma buy_asks:
  assumes alone: "asks_seller_alone b web" and signer: "\<And>l. signer_keeps (log_is l) signer"
    and opts: "\<forall>opt \<in> set opts. \<exists>master. opt = WithMaster master" and b: "buy b signer opts payer key url (w, l) = ((text, res), (w', l'))"
  shows "\<exists>asked. l' = l @ asked \<and> asked_outcome url asked res"
proof -
  have web: "by_web b = asking web" using alone by (simp add: asks_seller_alone_def)
  obtain r1 w1 l1 where ask: "get_answer (by_web b) url [] (w, l) = (r1, w1, l1)" by (metis prod.exhaust)
  note first = get_answer_asking [OF ask [unfolded web]]
  let ?r = "fst (web url [] w)"
  show ?thesis
  proof (cases r1)
    case (Inl err)
    with b ask have "l' = l1" "res = Inl err" by (simp_all add: buy_def)
    moreover have "\<not> served_whole ?r" using get_answer_lost [of "by_web b" url "[]" "(w, l)"] ask Inl web asking_fst by metis
    ultimately show ?thesis using first(1) by (auto simp: asked_outcome_def)
  next
    case got: (Inr got)
    obtain r2 w2 l2 where sign: "sign_payment b signer opts key got (w1, l1) = (r2, w2, l2)"
      by (metis prod.exhaust)
    note l2 = sign_payment_asks_nothing [OF alone signer opts sign]
    have served: "snd (report b got) \<longleftrightarrow> served_whole ?r"
      using report_served [of "by_web b" url "[]" "(w, l)" got "(w1, l1)" b] ask got web by (simp add: asking_fst)
    consider "an_status got \<noteq> 402" | err where "an_status got = 402" "r2 = Inl err"
      | headers where "an_status got = 402" "r2 = Inr headers" by (cases r2) auto
    then show ?thesis
    proof cases
      case 1
      with b ask got have "l' = l1" "res = Inr (snd (report b got))" by (auto simp: buy_def split: prod.splits)
      with served first(1) show ?thesis by (auto simp: asked_outcome_def)
    next
      case 2
      with b ask got sign l2 have "l' = l1" "res = Inl err" by (simp_all add: buy_def)
      moreover have "\<not> served_whole ?r" using first(2) [OF got] 2(1) by (auto simp: served_whole_def)
      ultimately show ?thesis using first(1) by (auto simp: asked_outcome_def)
    next
      case 3
      obtain r3 w3 l3 where again: "get_answer (by_web b) url headers (w2, l2) = (r3, w3, l3)" by (metis prod.exhaust)
      note second = get_answer_asking(1) [OF again [unfolded web]]
      have "l' = l3 \<and> (\<exists>served. res = Inr served \<and> (served \<longleftrightarrow> served_whole (fst (web url headers w2))))"
      proof (cases r3)
        case (Inl err)
        moreover have "\<not> served_whole (fst (web url headers w2))"
          using get_answer_lost [of "by_web b" url headers "(w2, l2)"] again Inl web asking_fst by metis
        ultimately show ?thesis using b ask got sign 3 again by (auto simp: buy_def)
      next
        case (Inr got')
        have "snd (report b got') \<longleftrightarrow> served_whole (fst (web url headers w2))"
          using report_served [of "by_web b" url headers "(w2, l2)" got' "(w3, l3)" b] again Inr web by (simp add: asking_fst)
        with b ask got sign 3 again Inr show ?thesis by (auto simp: buy_def split: prod.splits)
      qed
      with second l2 first got 3 show ?thesis by (auto simp: asked_outcome_def)
    qed
  qed
qed

lemma pay_asks:
  assumes "asks_seller_alone b web" "pay b url (w, l) = ((text, res), (w', l'))"
  shows "\<exists>asked. l' = l @ asked \<and> asked_outcome url asked res"
proof -
  let ?m = "cmp_Or [by_getenv b ''X402_MNEMONIC'', test1Mnemonic]"
  show ?thesis
  proof (cases "keyOf b ?m")
    case (Inl err)
    with assms(2) show ?thesis by (auto simp: pay_def asked_outcome_def)
  next
    case (Inr kk)
    obtain kb key where kk: "kk = (kb, key)" by (cases kk)
    obtain rs w0 l0 where signer: "Signer (by_lib b) kb ''buyer'' '''' (w, l) = (rs, w0, l0)" by (metis prod.exhaust)
    have kb: "keybase_keeps (log_is l) kb" for l
      using assms(1) Inr kk unfolding asks_seller_alone_def by blast
    have l0: "l0 = l" using keepsD [OF keeps_Signer [OF kb] signer] by (simp add: log_is_def)
    show ?thesis
    proof (cases "isl rs \<or> isl (paying_as b ?m key)")
      case True
      with assms(2) Inr kk signer l0 show ?thesis
        by (auto simp: pay_def asked_outcome_def split: sum.splits)
    next
      case False
      then obtain ks payer opts greeting where ks: "rs = Inr ks" "paying_as b ?m key = Inr (payer, opts, greeting)"
        by (cases rs; cases "paying_as b ?m key") auto
      obtain t where "buy b (keybase_signer (by_lib b) ks) opts payer key url (w0, l) = ((t, res), w', l')"
        using assms(2) Inr kk signer ks l0 by (auto simp: pay_def split: prod.splits)
      moreover have "signer_keeps (log_is l) (keybase_signer (by_lib b) ks)" for l
        using keybase_signer_keeps [of "log_is l" ks "by_lib b"] Signer_keybase [OF signer [unfolded ks(1)]] kb by simp
      ultimately show ?thesis using buy_asks [OF assms(1) _ paying_as_opts [OF ks(2)]] by blast
    qed
  qed
qed


text \<open>
  C33. The exit code says what a script needs to know: a run that buys exits 0 exactly when the last
  answer of the seller came with a 2xx status and whole, at most 10 MiB of it, and 1 otherwise,
  a run that could ask nothing included.
\<close>

theorem exit_zero_iff_served:
  assumes "asks_seller_alone b web" "args = [] \<or> hd args \<noteq> ''--new-key''"
    and "run ks b args (w, l) = ((text, code), (w', l'))"
  shows "code \<in> {0, 1} \<and>
    (code = 0 \<longleftrightarrow> (\<exists>asked url headers r. l' = l @ asked @ [(url, headers, r)] \<and> served_whole r))"
proof -
  let ?url = "cmp_Or [case args of [] \<Rightarrow> '''' | a # _ \<Rightarrow> a, by_getenv b ''X402_SELLER_URL'', defaultSellerURL]"
  obtain t res where p: "pay b ?url (w, l) = ((t, res), w', l')" and code: "code = (if res = Inr True then 0 else 1)"
    using assms(2,3) by (auto simp: run_def Let_def split: prod.splits sum.splits if_splits)
  obtain asked where "l' = l @ asked" "asked_outcome ?url asked res" using pay_asks [OF assms(1) p] by blast
  moreover have "\<not> served_whole (WebAnswer 402 h src)" for h src by (auto simp: served_whole_def)
  ultimately show ?thesis
    by (auto simp: asked_outcome_def code Cons_eq_append_conv append_eq_Cons_conv split: if_splits)
qed

subsection \<open>A buyer, concretely\<close>

text \<open>
  A client that pays the offer it finds first, with the scheme registered for it; a buyer of it whose
  seller serves what it is asked for, and one whose payment is made over the RPC node of \<open>Client_Node\<close>.
\<close>

definition first_client :: "('pk, 'w) x402_client" where
  "first_client =
     \<lparr>xc_required = \<lambda>h body. Inr \<lparr>pr_accepts = [Requirements], pr_error = '''', pr_rest = JNull\<rparr>,
      xc_receipt = \<lambda>h. Inl (ErrorString ''no receipt''),
      xc_select = \<lambda>cs accepts. (case accepts of [] \<Rightarrow> Inl (ErrorString ''no offer'') | r # _ \<Rightarrow> Inr r),
      xc_create = \<lambda>cs offer sel w.
        (case (gm_get (cs_registered cs) (req_network sel),
            filter (\<lambda>a. sa_network a = req_network sel \<and> sa_asset a = req_asset sel) (cs_allowed cs)) of
           (Some s, a # _) \<Rightarrow>
             (case CreatePaymentPayload s (\<lambda>w. None) sel (sa_max a) w of
                (Inl err, w') \<Rightarrow> (Inl err, w')
              | (Inr sp, w') \<Rightarrow> (Inr \<lparr>pp_version = 2, pp_accepted = sel, pp_payload = sp_payload sp\<rparr>, w'))
         | _ \<Rightarrow> (Inl (ErrorString ''no scheme''), w)),
      xc_marshal = \<lambda>p. Inr ''payment'', xc_encode = \<lambda>raw. Inr [(''PAYMENT-SIGNATURE'', raw)]\<rparr>"

lemma first_client_law: "client_law first_client"
proof -
  have "\<exists>s a ctx sp. gm_get (cs_registered cs) (req_network sel) = Some s \<and>
      a \<in> set (cs_allowed cs) \<and> sa_network a = req_network sel \<and> sa_asset a = req_asset sel \<and>
      CreatePaymentPayload s ctx sel (sa_max a) w = (Inr sp, w') \<and> pp_payload payload = sp_payload sp"
    if "xc_create first_client cs offer sel w = (Inr payload, w')" for cs offer sel w payload w'
  proof -
    let ?as = "filter (\<lambda>a. sa_network a = req_network sel \<and> sa_asset a = req_asset sel) (cs_allowed cs)"
    from that obtain s a as sp where "gm_get (cs_registered cs) (req_network sel) = Some s" "?as = a # as"
      "CreatePaymentPayload s (\<lambda>w. None) sel (sa_max a) w = (Inr sp, w')" "pp_payload payload = sp_payload sp"
      by (auto simp: first_client_def split: option.splits list.splits prod.splits sum.splits)
    moreover from this(2) have "a \<in> set ?as" by (metis list.set_intros(1))
    then have "a \<in> set (cs_allowed cs) \<and> sa_network a = req_network sel \<and> sa_asset a = req_asset sel"
      by (simp only: set_filter mem_Collect_eq)
    ultimately show ?thesis by (intro exI [of _ s] exI [of _ a] exI [of _ "\<lambda>w. None"] exI [of _ sp]) simp
  qed
  moreover have "xc_select first_client cs accepts = Inr sel \<Longrightarrow> sel \<in> set accepts" for cs accepts sel
    by (auto simp: first_client_def split: list.splits)
  ultimately show ?thesis unfolding client_law_def by blast
qed

lemma first_client_alone: "schemes_alone first_client"
  unfolding schemes_alone_def
proof (intro allI impI)
  fix cs :: "('a, 'b) client_state" and I offer sel
  assume keeps: "\<forall>net s ctx sel cap. gm_get (cs_registered cs) net = Some s \<longrightarrow> keeps I (CreatePaymentPayload s ctx sel cap)"
  have scheme: "I w \<Longrightarrow> CreatePaymentPayload s ctx r cap w = (x, w') \<Longrightarrow> gm_get (cs_registered cs) net = Some s \<Longrightarrow> I w'"
    for w w' x net s ctx r cap using keeps keepsD by metis
  show "keeps I (xc_create first_client cs offer sel)"
    by (rule keepsI)
      (auto simp: first_client_def dest: scheme split: option.splits list.splits prod.splits sum.splits)
qed

definition node_buyer :: "(nat, nat) buyer" where
  "node_buyer =
     \<lparr>by_lib = buyer_lib, by_rpc = test_rpc_lib, by_http = test_get,
      by_web = (\<lambda>url headers w. (WebAnswer 402 [] ('''', None), w)), by_client = first_client,
      by_create_account = (\<lambda>m. Inl (ErrorString ''no key'')),
      by_getenv = (\<lambda>name. if name = ''X402_GNO_RPC'' then ''http://node'' else '''')\<rparr>"

definition node_signer :: "(nat, nat) signer" where
  "node_signer = \<lparr>sg_pub_key = Some 11, sg_sign = (\<lambda>b w. (Inr ''sig'', w))\<rparr>"

lemma sample_network:
  "ugnotNetworks [Requirements] = [''gno:dev'']" "req_network Requirements = ''gno:dev''" "req_asset Requirements = ''ugnot''"
  "rpcFor ''gno:dev'' (\<lambda>name. if name = ''X402_GNO_RPC'' then ''http://node'' else '''') = ''http://node''"
  "NewRPCNode test_rpc_lib ''http://node'' = Inr test_rpc_node" "withinCap buyer_lib test_coin maxPrice = None"
proof -
  have r: "req_scheme Requirements = ''exact''" "req_network Requirements = ''gno:dev''" "req_asset Requirements = ''ugnot''"
    by (simp_all add: Requirements_def ChainID_def)
  then show "ugnotNetworks [Requirements] = [''gno:dev'']" "req_network Requirements = ''gno:dev''"
    "req_asset Requirements = ''ugnot''" by (simp_all add: ugnotNetworks_def)
  show "rpcFor ''gno:dev'' (\<lambda>name. if name = ''X402_GNO_RPC'' then ''http://node'' else '''') = ''http://node''"
    by (simp add: rpcFor_def cmp_Or_Cons go_contains_def)
  show "NewRPCNode test_rpc_lib ''http://node'' = Inr test_rpc_node"
    by (simp add: NewRPCNode_def node_address_def go_contains_def test_rpc_lib_def test_rpc_node_def trim_suffix_def)
  show "withinCap buyer_lib test_coin maxPrice = None"
    by (simp add: withinCap_def maxPrice_def atomicAmount_def decimal_def test_coin_def char_class_defs)
qed

lemma node_buyer_signs:
  "sign_payment node_buyer node_signer [] (Address Payer) \<lparr>an_status = 402, an_header = [], an_body = '''', an_cut = None\<rparr> 0 =
     (Inr [(''PAYMENT-SIGNATURE'', ''payment'')], 3)"
proof -
  let ?s = "NewExactGnoScheme buyer_lib (Some node_signer)
    (Some (rpc_buyer_node buyer_lib test_rpc_lib test_get (Some test_rpc_node))) []"
  have "CreatePaymentPayload ?s (\<lambda>w. None) Requirements maxPrice 0 =
      (Inr \<lparr>sp_version = 2, sp_payload = Some [(''transaction'', AnyString (b64_encode pay_raw))]\<rparr>, 3)"
    using test_rpc_prepares [OF sample_network(6)]
    by (simp add: CreatePaymentPayload_def NewExactGnoScheme_def node_signer_def buyer_signs del: b64_encode.simps)
  then show ?thesis
    using sample_network
    by (simp add: sign_payment_def Let_def first_client_def node_buyer_def gm_put_def del: b64_encode.simps)
qed

theorem buyer_spends_at_most_witness:
  "\<exists>sel c p from payee. ugnot_offer sel \<and> sint (coin_amount c) \<le> 1000000 \<and>
     tx_msgs (pay_tx (p :: nat payment)) = [BankSend \<lparr>from_address = from, to_address = payee, send_amount = [c]\<rparr>]"
proof -
  have "client_law (by_client node_buyer)" by (simp add: node_buyer_def first_client_law)
  from buyer_spends_at_most [OF this node_buyer_signs] show ?thesis by simp blast
qed

text \<open>
  A buyer that asks a seller which serves it once it pays, and pays over the RPC node of \<open>Client_Node\<close>, in a
  world that keeps the log.
\<close>

definition paid_web :: "nat web_do" where
  "paid_web url headers w =
     ((if headers = [] then WebAnswer 402 [] ('''', None) else WebAnswer 200 [] (''sunny'', None)), w)"

definition log_keybase :: "(nat, 'w) keybase" where
  "log_keybase =
     \<lparr>kb_get = (\<lambda>name w. (Inr \<lparr>ki_type = TypeLocal, ki_address = Address Payer, ki_pub_key = 11\<rparr>, w)),
      kb_sign = (\<lambda>a pw msg w. (Inr (''sig'', Some 11), w)), kb_type_text = (\<lambda>t. ''local'')\<rparr>"

definition log_buyer :: "(nat, nat \<times> request_log) buyer" where
  "log_buyer =
     \<lparr>by_lib = buyer_lib, by_rpc = test_rpc_lib, by_http = (\<lambda>t. beside (test_get t)), by_web = asking paid_web,
      by_client = first_client,
      by_create_account = (\<lambda>m. Inr (log_keybase, \<lparr>ki_type = TypeLocal, ki_address = Address Payer, ki_pub_key = 11\<rparr>)),
      by_getenv = (\<lambda>name. if name = ''X402_GNO_RPC'' then ''http://node'' else '''')\<rparr>"

lemma log_buyer_alone: "asks_seller_alone log_buyer paid_web"
  using first_client_alone
  by (auto simp: asks_seller_alone_def keyOf_def log_buyer_def log_keybase_def keybase_keeps_def keeps_def log_is_def
      beside_def split_beta)

definition log_signer :: "(nat, 'w) signer" where
  "log_signer = keybase_signer buyer_lib \<lparr>ks_kb = log_keybase, ks_address = Payer, ks_password = '''', ks_pub = 11\<rparr>"

lemma log_signer_fields: "sg_pub_key log_signer = Some 11" "sg_sign log_signer msg w = (Inr ''sig'', w)"
  by (simp_all add: log_signer_def keybase_signer_def keybase_Sign_def log_keybase_def buyer_lib_def test_lib_def)

lemma beside_prepares:
  assumes "withinCap buyer_lib test_coin cap = None"
  shows "Prepare buyer_lib (Some (rpc_buyer_node buyer_lib test_rpc_lib (\<lambda>t. beside (test_get t)) (Some test_rpc_node)))
     (Some 11) zero_address Requirements cap (0, l) = (Inr buyer_payment, 3, l)"
  unfolding Prepare_spec
  by (rule exI [of _ buyer_terms], intro exI conjI buyer_offer)
    (use assms in \<open>auto simp: buyer_terms_def payment_fee_def gasFee_def unpricedGasFee_def maxGasFee_def
      ugnot_Denom_def readAccount_def rpc_buyer_node_def reads_beside test_rpc_reads buyer_lib_simps std_account.defs
      buyer_payment_def buyer_lib_def test_lib_def\<close>)

lemma log_buyer_signs:
  "sign_payment log_buyer log_signer [] (Address Payer) \<lparr>an_status = 402, an_header = [], an_body = '''', an_cut = None\<rparr> (0, l) =
     (Inr [(''PAYMENT-SIGNATURE'', ''payment'')], 3, l)"
proof -
  let ?s = "NewExactGnoScheme buyer_lib (Some log_signer)
    (Some (rpc_buyer_node buyer_lib test_rpc_lib (\<lambda>t. beside (test_get t)) (Some test_rpc_node))) []"
  have "CreatePaymentPayload ?s (\<lambda>w. None) Requirements maxPrice (0, l) =
      (Inr \<lparr>sp_version = 2, sp_payload = Some [(''transaction'', AnyString (b64_encode pay_raw))]\<rparr>, 3, l)"
    using beside_prepares [OF sample_network(6), of l]
    by (simp add: CreatePaymentPayload_def NewExactGnoScheme_def log_signer_fields buyer_signs del: b64_encode.simps)
  then show ?thesis
    using sample_network
    by (simp add: sign_payment_def Let_def first_client_def log_buyer_def gm_put_def del: b64_encode.simps)
qed

definition paid_log :: request_log where
  "paid_log = [(''u'', [], WebAnswer 402 [] ('''', None)),
     (''u'', [(''PAYMENT-SIGNATURE'', ''payment'')], WebAnswer 200 [] (''sunny'', None))]"

lemma log_buyer_runs: "\<exists>printed. pay log_buyer ''u'' (0, []) = ((printed, Inr True), (3, paid_log))"
proof -
  let ?m = "cmp_Or [by_getenv log_buyer ''X402_MNEMONIC'', test1Mnemonic]"
  have key: "keyOf log_buyer ?m = Inr (log_keybase, Address Payer)" by (simp add: keyOf_def log_buyer_def)
  have "\<exists>g. paying_as log_buyer ?m (Address Payer) = Inr (Address Payer, [], g)"
    by (simp add: paying_as_def log_buyer_def Let_def)
  then obtain g where greeting: "paying_as log_buyer ?m (Address Payer) = Inr (Address Payer, [], g)" by blast
  obtain ks where signer: "Signer (by_lib log_buyer) log_keybase ''buyer'' '''' (0 :: nat, [] :: request_log) = (Inr ks, 0, [])"
    and ks: "keybase_signer (by_lib log_buyer) ks = log_signer"
    by (simp add: Signer_def log_keybase_def log_signer_def log_buyer_def buyer_lib_simps)
  let ?got = "\<lparr>an_status = 402, an_header = [], an_body = '''', an_cut = None\<rparr>"
  have first: "get_answer (by_web log_buyer) ''u'' [] (0, []) = (Inr ?got, 0, [(''u'', [], WebAnswer 402 [] ('''', None))])"
    by (simp add: log_buyer_def get_answer_def asking_def paid_web_def logged_call read_limited_def maxAnswer_def)
  have again: "get_answer (by_web log_buyer) ''u'' [(''PAYMENT-SIGNATURE'', ''payment'')] (3, [(''u'', [], WebAnswer 402 [] ('''', None))]) =
      (Inr \<lparr>an_status = 200, an_header = [], an_body = ''sunny'', an_cut = None\<rparr>, 3, paid_log)"
    by (simp add: log_buyer_def get_answer_def asking_def paid_web_def logged_call read_limited_def maxAnswer_def paid_log_def)
  have "snd (report log_buyer \<lparr>an_status = 200, an_header = [], an_body = ''sunny'', an_cut = None\<rparr>)"
    by (simp add: report_def Let_def)
  then obtain t where "buy log_buyer log_signer [] (Address Payer) (Address Payer) ''u'' (0, []) = ((t, Inr True), (3, paid_log))"
    by (simp add: buy_def first log_buyer_signs again split_beta)
  with key greeting signer ks show ?thesis by (simp add: pay_def)
qed


theorem exit_zero_iff_served_witness:
  "\<exists>text w' asked headers r. run \<lparr>new_entropy = Inr [], new_mnemonic = (\<lambda>e. Inr []), build = None\<rparr> log_buyer [''u''] (0, []) =
     ((text, 0), (w', asked @ [(''u'', headers, r)])) \<and> headers \<noteq> [] \<and> served_whole r"
proof -
  let ?ks = "\<lparr>new_entropy = Inr [], new_mnemonic = (\<lambda>e. Inr []), build = None\<rparr>"
  obtain printed where p: "pay log_buyer ''u'' (0, []) = ((printed, Inr True), (3, paid_log))"
    using log_buyer_runs by blast
  then have r: "run ?ks log_buyer [''u''] (0, []) = ((printed, 0), (3, paid_log))"
    by (simp add: run_def cmp_Or_Cons)
  have "paid_log = [(''u'', [], WebAnswer 402 [] ('''', None))] @
      [(''u'', [(''PAYMENT-SIGNATURE'', ''payment'')], WebAnswer 200 [] (''sunny'', None))]" by (simp add: paid_log_def)
  moreover obtain asked url headers x where asked: "paid_log = asked @ [(url, headers, x)]" "served_whole x"
    using exit_zero_iff_served [OF log_buyer_alone _ r] by auto
  have "(url, headers, x) = last paid_log" unfolding asked(1) by (rule last_snoc [symmetric])
  with asked(2) have "served_whole (WebAnswer 200 [] (''sunny'', None))" by (simp add: paid_log_def)
  ultimately show ?thesis using r by (metis list.distinct(1))
qed

end
