(* ===== verification/Settle_Machine.thy ===== *)
theory Settle_Machine
  imports Facilitator_Settle
begin

text \<open>
  \<open>Facilitator.Settle\<close> run by many goroutines at once, over one node, one clock and one settlement
  table. \<open>Facilitator_Settle\<close> runs a settle in one go and \<open>Settle_Steps\<close> interleaves only what
  settles do to the table; here a settle is the sequence of its stages, each of which reads the clock,
  takes the mutex once, or makes one call into the node, and between two stages of one settle any
  other may run.

  \<^item> \<open>advance\<close> runs one stage; run alone, the stages are \<open>Settle\<close> (\<open>settle_stages\<close>).
  \<^item> \<open>machine_step\<close> interleaves them. The world also moves by itself (blocks, other requests, time),
    a request may arrive at any idle goroutine, and a node call may panic, which runs the deferred
    release.
  \<^item> Every run is a run of \<open>Settle_Steps\<close> over the same table (\<open>machine_refines\<close>), so the invariant
    proved there holds here.
\<close>

datatype ('pk, 'w) routine =
    Ready
  | Started "'w go_context" payment_payload requirements
  | Claiming "'w go_context" "'pk std_tx" bytes string instant
  | Checking "'w go_context" string "'pk std_tx" bytes string
  | Simulating "'w go_context" string "'pk std_tx" bytes string
  | Confirming "'w go_context" string bytes string
  | Sending "'w go_context" string bytes string
  | Delivering "'w go_context" string string string
  | Awaiting string instant string string
  | Concluding string "go_error + settle_response"
  | Recording string "go_error + settle_response" instant
  | Finished "go_error + settle_response"

text \<open>What \<open>delivery\<close> answers once the wait for the hash has ended.\<close>

definition deliveryAnswer ::
    "('pk, 'w) facilitator \<Rightarrow> string \<Rightarrow> string \<Rightarrow> go_error option \<Rightarrow> go_error + settle_response" where
  "deliveryAnswer f hash payer err =
     (case err of
        None \<Rightarrow> Inr \<lparr>sr_success = True, sr_transaction = hash, sr_network = network f,
                     sr_payer = payer, sr_reason = ''''\<rparr>
      | Some e \<Rightarrow>
          if chainRefused e then Inl (SettleError ReasonBroadcastFailed payer (network f) hash (error_text (fac_lib f) e))
          else Inl (SettleError ErrSettlementPending payer (network f) hash (error_text (fac_lib f) e)))"

text \<open>What the claim of a payment leads to.\<close>

definition afterClaim ::
    "('pk, 'w) facilitator \<Rightarrow> 'w go_context \<Rightarrow> 'pk std_tx \<Rightarrow> bytes \<Rightarrow> string \<Rightarrow> settlement \<times> bool \<Rightarrow> ('pk, 'w) routine" where
  "afterClaim f ctx tx raw payer claimed =
     (let (prior, ok) = claimed; key = payment_key f raw in
      if \<not> ok then Finished (Inl (SettleError ReasonDuplicateSettlement '''' (network f) (st_hash prior)
        ''this facilitator is settling or has settled this payment''))
      else if st_state prior = Pending then Delivering ctx key (st_hash prior) (st_payer prior)
      else Checking ctx key tx raw payer)"

text \<open>
  One stage: the routine, the table and the world after it, and the broadcast it made, if it made
  one, with the node's answer.
\<close>

fun advance ::
    "('pk, 'w) facilitator \<Rightarrow> ('pk, 'w) routine \<Rightarrow> settlements \<Rightarrow> 'w
      \<Rightarrow> (('pk, 'w) routine \<times> settlements \<times> 'w) \<times> (bytes \<times> (go_error + string)) option" where
  "advance f (Started ctx payload req) st w =
     (case checkOffline f payload req of
        PaymentAccepted tx raw payer \<Rightarrow>
          (let (t, w') = fac_clock f w in ((Claiming ctx tx raw payer t, st, w'), None))
      | offline \<Rightarrow> ((Finished (Inl (settleRefusal f offline)), st, w), None))"
| "advance f (Claiming ctx tx raw payer t) st w =
     (let (claimed, st') = claim (payment_key f raw) t st in
      ((afterClaim f ctx tx raw payer claimed, st', w), None))"
| "advance f (Checking ctx key tx raw payer) st w =
     (case verifyAccountChecks (fac_lib f) tx (fac_node f) (fac_chain_id f) w of
        (AccountNoVerdict cause, w') \<Rightarrow>
          ((Concluding key (Inl (settleRefusal f (NoVerdict payer cause))), st, w'), None)
      | (AccountRefused reason cause, w') \<Rightarrow>
          ((Concluding key (Inl (settleRefusal f
             (refusePayment (if reason = ReasonSequenceMismatch then payer else '''') reason cause))), st, w'), None)
      | (AccountAccepted, w') \<Rightarrow> ((Simulating ctx key tx raw payer, st, w'), None))"
| "advance f (Simulating ctx key tx raw payer) st w =
     (case node_simulate (fac_node f) tx w of
        (Some err, w') \<Rightarrow>
          ((Concluding key (Inl (settleRefusal f (if \<not> chainRefused err then NoVerdict payer err
             else refusePayment payer ReasonSimulationFailed (Some err)))), st, w'), None)
      | (None, w') \<Rightarrow> ((Confirming ctx key raw payer, st, w'), None))"
| "advance f (Confirming ctx key raw payer) st w =
     (case ctx_err ctx w of
        Some err \<Rightarrow> ((Concluding key (Inl (NoVerdictError payer err)), st, w), None)
      | None \<Rightarrow> ((Sending ctx key raw payer, st, w), None))"
| "advance f (Sending ctx key raw payer) st w =
     (case node_broadcast (fac_node f) raw w of
        (Inl err, w') \<Rightarrow>
          ((Concluding key (Inl (if \<not> chainRefused err then NoVerdictError payer err
             else SettleError ReasonBroadcastFailed payer (network f) '''' (error_text (fac_lib f) err))), st, w'),
           Some (raw, Inl err))
      | (Inr hash, w') \<Rightarrow> ((Delivering ctx key hash payer, st, w'), Some (raw, Inr hash)))"
| "advance f (Delivering ctx key hash payer) st w =
     (let (t, w') = fac_clock f w in ((Awaiting key (deliveryDeadline ctx t) hash payer, st, w'), None))"
| "advance f (Awaiting key deadline hash payer) st w =
     (let (err, w') = node_await_delivery (fac_node f) deadline hash w in
      ((Concluding key (deliveryAnswer f hash payer err), st, w'), None))"
| "advance f (Concluding key res) st w =
     (let (t, w') = fac_clock f w in ((Recording key res t, st, w'), None))"
| "advance f (Recording key res t) st w = ((Finished res, recordOutcome key res t st, w), None)"
| "advance f r st w = ((r, st, w), None)"

subsection \<open>The stages are a settle\<close>

primrec run_stages ::
    "('pk, 'w) facilitator \<Rightarrow> nat \<Rightarrow> ('pk, 'w) routine \<times> settlements \<times> 'w
      \<Rightarrow> ('pk, 'w) routine \<times> settlements \<times> 'w" where
  "run_stages f 0 c = c"
| "run_stages f (Suc n) c = (case c of (r, st, w) \<Rightarrow> run_stages f n (fst (advance f r st w)))"

text \<open>How many stages are left before a settle has finished.\<close>

fun stages_left :: "('pk, 'w) routine \<Rightarrow> nat" where
  "stages_left (Started ctx payload req) = 10"
| "stages_left (Claiming ctx tx raw payer t) = 9"
| "stages_left (Checking ctx key tx raw payer) = 8"
| "stages_left (Simulating ctx key tx raw payer) = 7"
| "stages_left (Confirming ctx key raw payer) = 6"
| "stages_left (Sending ctx key raw payer) = 5"
| "stages_left (Delivering ctx key hash payer) = 4"
| "stages_left (Awaiting key deadline hash payer) = 3"
| "stages_left (Concluding key res) = 2"
| "stages_left (Recording key res t) = 1"
| "stages_left Ready = 0"
| "stages_left (Finished res) = 0"

lemma advance_progress:
  assumes "0 < stages_left r"
  shows "stages_left (fst (fst (advance f r st w))) < stages_left r"
  using assms
  by (cases r) (auto simp: afterClaim_def Let_def split: payment_check.split prod.split
      account_check.split option.split sum.split)

lemma run_stages_idle: "stages_left r = 0 \<Longrightarrow> run_stages f n (r, st, w) = (r, st, w)"
proof (induction n)
  case (Suc n)
  then show ?case by (cases r) simp_all
qed simp

lemma run_stages_step:
  "0 < n \<Longrightarrow> run_stages f n (r, st, w) = run_stages f (n - 1) (fst (advance f r st w))"
  by (cases n) simp_all

definition finish ::
    "('pk, 'w) facilitator \<Rightarrow> string \<Rightarrow> (go_error + settle_response) \<times> 'w \<Rightarrow> settlements
      \<Rightarrow> ('pk, 'w) routine \<times> settlements \<times> 'w" where
  "finish f key resw st =
     (let (res, w) = resw; (t, w') = fac_clock f w in (Finished res, recordOutcome key res t st, w'))"

lemma run_concluding:
  "2 \<le> n \<Longrightarrow> run_stages f n (Concluding key res, st, w) = finish f key (res, w) st"
  by (simp add: run_stages_step run_stages_idle finish_def split: prod.split)

lemma run_delivering:
  "4 \<le> n \<Longrightarrow> run_stages f n (Delivering ctx key hash payer, st, w) = finish f key (delivery f ctx hash payer w) st"
  by (auto simp: run_stages_step run_stages_idle finish_def delivery_def deliveryAnswer_def Let_def
      split: prod.split option.split)

lemma run_sending:
  "5 \<le> n \<Longrightarrow> run_stages f n (Sending ctx key raw payer, st, w) =
     finish f key (case node_broadcast (fac_node f) raw w of
                (Inl err, w2) \<Rightarrow>
                  (if \<not> chainRefused err then (Inl (NoVerdictError payer err), w2)
                   else (Inl (SettleError ReasonBroadcastFailed payer (network f) '''' (error_text (fac_lib f) err)), w2))
              | (Inr hash, w2) \<Rightarrow> delivery f ctx hash payer w2) st"
  by (subst run_stages_step) (auto simp: run_concluding run_delivering split: prod.split sum.split)

lemma run_confirming:
  "6 \<le> n \<Longrightarrow> run_stages f n (Confirming ctx key raw payer, st, w) =
     (case ctx_err ctx w of
        Some err \<Rightarrow> finish f key (Inl (NoVerdictError payer err), w) st
      | None \<Rightarrow> run_stages f (n - 1) (Sending ctx key raw payer, st, w))"
  by (subst run_stages_step) (auto simp: run_concluding split: option.split)

lemma run_simulating:
  "7 \<le> n \<Longrightarrow> run_stages f n (Simulating ctx key tx raw payer, st, w) =
     (case node_simulate (fac_node f) tx w of
        (Some err, w') \<Rightarrow> finish f key (Inl (settleRefusal f (if \<not> chainRefused err then NoVerdict payer err
             else refusePayment payer ReasonSimulationFailed (Some err))), w') st
      | (None, w') \<Rightarrow> run_stages f (n - 1) (Confirming ctx key raw payer, st, w'))"
  by (subst run_stages_step) (auto simp: run_concluding split: option.split prod.split)

lemma run_checking:
  "8 \<le> n \<Longrightarrow> run_stages f n (Checking ctx key tx raw payer, st, w) = finish f key (settle f ctx tx raw payer w) st"
  by (subst run_stages_step)
    (auto simp: run_concluding run_simulating run_confirming run_sending settle_def checkOnChain_def refusePayment_def
      settleRefusal_def split: prod.split sum.split option.split account_check.split)

text \<open>
  The stages of one settle, run with nothing between them, are \<open>Settle\<close>: within ten stages it has
  finished with that answer, that table and that world.
\<close>

theorem settle_stages:
  "run_stages f 10 (Started ctx payload req, st, w) =
     (let (res, st', w') = Settle f ctx payload req st w in (Finished res, st', w'))"
proof (cases "checkOffline f payload req")
  case (PaymentAccepted tx raw payer)
  obtain t w0 where t: "fac_clock f w = (t, w0)" by fastforce
  obtain prior ok st1 where c: "claim (payment_key f raw) t st = ((prior, ok), st1)" by (metis surj_pair)
  have "run_stages f 10 (Started ctx payload req, st, w) = run_stages f 8 (afterClaim f ctx tx raw payer (prior, ok), st1, w0)"
    by (simp add: run_stages_step PaymentAccepted t c)
  then show ?thesis
    by (auto simp: run_stages_idle run_delivering run_checking Settle_def PaymentAccepted t c [unfolded payment_key_def]
        afterClaim_def finish_def payment_key_def split: prod.split)
qed (auto simp: run_stages_step run_stages_idle Settle_def)

subsection \<open>Many settles at once\<close>

record ('pk, 'w) machine =
  mc_table :: settlements
  mc_world :: 'w
  mc_routine :: "nat \<Rightarrow> ('pk, 'w) routine"

text \<open>The payment a goroutine has claimed and not yet let go of.\<close>

fun holds :: "('pk, 'w) routine \<Rightarrow> string option" where
  "holds (Checking ctx key tx raw payer) = Some key"
| "holds (Simulating ctx key tx raw payer) = Some key"
| "holds (Confirming ctx key raw payer) = Some key"
| "holds (Sending ctx key raw payer) = Some key"
| "holds (Delivering ctx key hash payer) = Some key"
| "holds (Awaiting key deadline hash payer) = Some key"
| "holds (Concluding key res) = Some key"
| "holds (Recording key res t) = Some key"
| "holds r = None"

datatype happening =
    Outside
  | Arrived nat
  | Ran nat "(bytes \<times> (go_error + string)) option"
  | Panicked nat string

definition now_of :: "('pk, 'w) facilitator \<Rightarrow> 'w \<Rightarrow> instant" where
  "now_of f w = fst (fac_clock f w)"

inductive machine_step ::
    "('pk, 'w) facilitator \<Rightarrow> ('pk, 'w) machine \<Rightarrow> happening \<Rightarrow> ('pk, 'w) machine \<Rightarrow> bool"
  for f :: "('pk, 'w) facilitator" where
  outside: "now_of f (mc_world m) \<le> now_of f w \<Longrightarrow> machine_step f m Outside (m\<lparr>mc_world := w\<rparr>)"
| arrives: "stages_left (mc_routine m i) = 0 \<Longrightarrow>
    machine_step f m (Arrived i) (m\<lparr>mc_routine := (mc_routine m)(i := Started ctx payload req)\<rparr>)"
| runs: "0 < stages_left (mc_routine m i) \<Longrightarrow>
    advance f (mc_routine m i) (mc_table m) (mc_world m) = ((r, st, w), b) \<Longrightarrow>
    machine_step f m (Ran i b) \<lparr>mc_table = st, mc_world = w, mc_routine = (mc_routine m)(i := r)\<rparr>"
| panics: "holds (mc_routine m i) = Some key \<Longrightarrow>
    machine_step f m (Panicked i key)
      (m\<lparr>mc_table := release key (mc_table m), mc_routine := (mc_routine m)(i := Ready)\<rparr>)"

inductive_cases outsideE: "machine_step f m Outside m'"
inductive_cases ranE: "machine_step f m (Ran i b) m'"
inductive_cases panickedE: "machine_step f m (Panicked i key) m'"

inductive machine_run ::
    "('pk, 'w) facilitator \<Rightarrow> ('pk, 'w) machine \<Rightarrow> happening list \<Rightarrow> ('pk, 'w) machine \<Rightarrow> bool"
  for f :: "('pk, 'w) facilitator" where
  mrun_nil: "machine_run f m [] m"
| mrun_cons: "machine_step f m h m' \<Longrightarrow> machine_run f m' hs m'' \<Longrightarrow> machine_run f m (h # hs) m''"

lemma machine_run_append:
  "machine_run f m hs m' \<Longrightarrow> machine_run f m' hs' m'' \<Longrightarrow> machine_run f m (hs @ hs') m''"
  by (induction rule: machine_run.induct) (auto intro: mrun_cons)

definition initial_machine :: "'w \<Rightarrow> ('pk, 'w) machine" where
  "initial_machine w = \<lparr>mc_table = newSettlements, mc_world = w, mc_routine = (\<lambda>_. Ready)\<rparr>"

text \<open>
  The clock does not go back: not between two readings, nor over a call into the node. Go's readings
  carry a monotonic one, which is what the code subtracts.
\<close>

definition steady :: "('pk, 'w) facilitator \<Rightarrow> bool" where
  "steady f = (\<forall>w. now_of f w \<le> now_of f (snd (fac_clock f w)) \<and>
     (\<forall>tx. now_of f w \<le> now_of f (snd (node_signer_account (fac_node f) tx w))) \<and>
     (\<forall>tx. now_of f w \<le> now_of f (snd (node_simulate (fac_node f) tx w))) \<and>
     (\<forall>b. now_of f w \<le> now_of f (snd (node_broadcast (fac_node f) b w))) \<and>
     (\<forall>d h. now_of f w \<le> now_of f (snd (node_await_delivery (fac_node f) d h w))))"

lemma steadyD:
  assumes "steady f"
  shows "fac_clock f w = (t, w') \<Longrightarrow> t = now_of f w \<and> now_of f w \<le> now_of f w'"
    and "node_signer_account (fac_node f) tx w = (r1, w') \<Longrightarrow> now_of f w \<le> now_of f w'"
    and "node_simulate (fac_node f) tx w = (r2, w') \<Longrightarrow> now_of f w \<le> now_of f w'"
    and "node_broadcast (fac_node f) b w = (r3, w') \<Longrightarrow> now_of f w \<le> now_of f w'"
    and "node_await_delivery (fac_node f) d h w = (r4, w') \<Longrightarrow> now_of f w \<le> now_of f w'"
proof -
  note s = assms [unfolded steady_def, rule_format, of w]
  show "fac_clock f w = (t, w') \<Longrightarrow> t = now_of f w \<and> now_of f w \<le> now_of f w'"
    using s by (simp add: now_of_def)
  show "node_signer_account (fac_node f) tx w = (r1, w') \<Longrightarrow> now_of f w \<le> now_of f w'"
    using s by (metis snd_conv)
  show "node_simulate (fac_node f) tx w = (r2, w') \<Longrightarrow> now_of f w \<le> now_of f w'"
    using s by (metis snd_conv)
  show "node_broadcast (fac_node f) b w = (r3, w') \<Longrightarrow> now_of f w \<le> now_of f w'"
    using s by (metis snd_conv)
  show "node_await_delivery (fac_node f) d h w = (r4, w') \<Longrightarrow> now_of f w \<le> now_of f w'"
    using s by (metis snd_conv)
qed

lemma steady_checks:
  "steady f \<Longrightarrow> verifyAccountChecks lib tx (fac_node f) c w = (v, w') \<Longrightarrow> now_of f w \<le> now_of f w'"
  by (auto simp: verifyAccountChecks_def dest: steadyD split: sum.splits prod.splits if_splits signature_state.splits)

lemma advance_clock:
  assumes "steady f" "advance f r st w = ((r', st', w'), b)"
  shows "now_of f w \<le> now_of f w'"
  using assms(2)
  by (cases r) (auto dest: steadyD [OF assms(1)] steady_checks [OF assms(1)]
      split: payment_check.splits prod.splits account_check.splits option.splits sum.splits)

subsection \<open>The machine refines the table under concurrency\<close>

text \<open>The times a goroutine has read lie in the past.\<close>

fun dated :: "instant \<Rightarrow> ('pk, 'w) routine \<Rightarrow> bool" where
  "dated now (Claiming ctx tx raw payer t) = (t \<le> now)"
| "dated now (Recording key res t) = (t \<le> now)"
| "dated now r = True"

fun recorded_since :: "instant \<Rightarrow> ('pk, 'w) routine \<Rightarrow> bool" where
  "recorded_since since (Recording key res t) = (since \<le> t)"
| "recorded_since since r = True"

definition matches :: "instant \<Rightarrow> phase \<Rightarrow> ('pk, 'w) routine \<Rightarrow> bool" where
  "matches now ph r =
     (dated now r \<and>
      (case holds r of
         None \<Rightarrow> ph = Idle
       | Some key \<Rightarrow> \<exists>prior since. ph = Working key prior since \<and> since \<le> now \<and> recorded_since since r))"

definition simulates :: "('pk, 'w) facilitator \<Rightarrow> system \<Rightarrow> ('pk, 'w) machine \<Rightarrow> bool" where
  "simulates f s m =
     (sys_table s = mc_table m \<and> sys_now s = now_of f (mc_world m) \<and>
      (\<forall>i. matches (now_of f (mc_world m)) (sys_phase s i) (mc_routine m i)))"

lemma simulatesD:
  assumes "simulates f s m"
  shows "sys_table s = mc_table m" "sys_now s = now_of f (mc_world m)"
    "matches (now_of f (mc_world m)) (sys_phase s i) (mc_routine m i)"
  using assms unfolding simulates_def by blast+

lemma matches_later: "matches now ph r \<Longrightarrow> now \<le> now' \<Longrightarrow> matches now' ph r"
  by (cases r) (auto simp: matches_def)

lemma simulates_working: "simulates f s m \<Longrightarrow> working_on s i key \<longleftrightarrow> holds (mc_routine m i) = Some key"
  by (auto simp: simulates_def matches_def working_on_def dest!: spec [of _ i] split: option.splits)

lemma holds_afterClaim:
  "holds (afterClaim f ctx tx raw payer (prior, ok)) = (if ok then Some (payment_key f raw) else None)"
  by (simp add: afterClaim_def Let_def)

lemma dated_afterClaim: "dated now (afterClaim f ctx tx raw payer c) \<and> recorded_since t (afterClaim f ctx tx raw payer c)"
  by (simp add: afterClaim_def Let_def split: prod.split)

text \<open>Every stage but the claim and the record leaves the table and what the goroutine holds.\<close>

fun touches_table :: "('pk, 'w) routine \<Rightarrow> bool" where
  "touches_table (Claiming ctx tx raw payer t) = True"
| "touches_table (Recording key res t) = True"
| "touches_table r = False"

lemma machine_step_clock:
  assumes "steady f" "machine_step f m h m'"
  shows "now_of f (mc_world m) \<le> now_of f (mc_world m')"
  using assms(2) by cases (auto dest: advance_clock [OF assms(1)])

lemma machine_run_clock:
  assumes "steady f"
  shows "machine_run f m hs m' \<Longrightarrow> now_of f (mc_world m) \<le> now_of f (mc_world m')"
  by (induction rule: machine_run.induct) (auto dest: machine_step_clock [OF assms])

lemma quiet_stage:
  assumes "advance f r st w = ((r', st', w'), b)" "\<not> touches_table r"
  shows "st' = st" "holds r' = holds r"
  using assms
  by (cases r; auto split: payment_check.splits prod.splits account_check.splits option.splits sum.splits)+

lemma quiet_matches:
  assumes "steady f" "advance f r st w = ((r', st', w'), b)" "\<not> touches_table r"
    and "matches (now_of f w) ph r"
  shows "matches (now_of f w') ph r'"
proof -
  have t: "fac_clock f w = (t, w'') \<Longrightarrow> t = now_of f w" for t w'' using steadyD(1) [OF assms(1)] by blast
  have "now_of f w \<le> now_of f w'" using advance_clock [OF assms(1,2)] .
  with assms(2,3,4) t show ?thesis
    by (cases r; auto simp: matches_def split: payment_check.splits prod.splits account_check.splits
        option.splits sum.splits)
qed

text \<open>What a record does to the table is one of the three ends of a settle.\<close>

lemma record_step:
  assumes "sys_phase s i = Working key prior since" "since \<le> t" "t \<le> sys_now s"
  shows "\<exists>e. settle_step s e (s\<lparr>sys_table := recordOutcome key res t (sys_table s),
     sys_phase := (sys_phase s)(i := Idle)\<rparr>)"
  using release_step [OF assms(1)] settled_step [OF assms] pending_step [OF assms]
  unfolding recordOutcome_def by (cases res) (auto split: option.split)

lemma claim_step:
  assumes "sys_phase s i = Idle" "t \<le> sys_now s" "claim key t (sys_table s) = ((prior, ok), tbl)"
  shows "\<exists>e. settle_step s e (if ok
     then s\<lparr>sys_table := tbl, sys_phase := (sys_phase s)(i := Working key prior (sys_now s))\<rparr>
     else s\<lparr>sys_table := tbl\<rparr>)"
proof (cases ok)
  case True
  with claim_granted_step [OF assms(1,2), of key prior tbl] assms(3) show ?thesis by auto
next
  case False
  with claim_refused_step [OF assms(1,2), of key prior tbl] assms(3) show ?thesis by auto
qed

lemma run_two: "settle_step s e s' \<Longrightarrow> settle_step s' e' s'' \<Longrightarrow> settle_run s [e, e'] s''"
  by (blast intro: run_nil run_cons)

text \<open>
  A stage of the machine is the clock moving, and then at most one step of the table.
\<close>

lemma simulation:
  assumes "steady f" "simulates f s m" "machine_step f m h m'"
  shows "\<exists>es s'. settle_run s es s' \<and> simulates f s' m'"
  using assms(3)
proof cases
  case (outside w)
  have "settle_run s [Tick] (s\<lparr>sys_now := now_of f w\<rparr>)"
    using run_cons [OF settle_step.tick [of s "now_of f w"] run_nil] outside(3) simulatesD(2) [OF assms(2)] by simp
  moreover have "simulates f (s\<lparr>sys_now := now_of f w\<rparr>) m'"
    using assms(2) outside matches_later by (fastforce simp: simulates_def)
  ultimately show ?thesis by blast
next
  case (arrives i ctx payload req)
  from arrives(3) simulatesD(3) [OF assms(2), of i] have "sys_phase s i = Idle"
    by (cases "mc_routine m i") (auto simp: matches_def)
  then have "matches (now_of f (mc_world m)) (sys_phase s i) (Started ctx payload req)" by (simp add: matches_def)
  with assms(2) arrives(2) have "simulates f s m'" by (simp add: simulates_def)
  with run_nil show ?thesis by blast
next
  case (panics i key)
  from panics(3) simulatesD(3) [OF assms(2), of i] obtain p t where "sys_phase s i = Working key p t"
    by (auto simp: matches_def)
  from release_step [OF this] have "settle_run s [Released i key]
      (s\<lparr>sys_table := release key (sys_table s), sys_phase := (sys_phase s)(i := Idle)\<rparr>)"
    by (blast intro: run_nil run_cons)
  moreover have "simulates f (s\<lparr>sys_table := release key (sys_table s), sys_phase := (sys_phase s)(i := Idle)\<rparr>) m'"
    using assms(2) panics(2) by (auto simp: simulates_def matches_def)
  ultimately show ?thesis by blast
next
  case (runs i r st w b)
  note sim = simulatesD [OF assms(2)]
  have later: "now_of f (mc_world m) \<le> now_of f w" using advance_clock [OF assms(1) runs(4)] .
  let ?s = "s\<lparr>sys_now := now_of f w\<rparr>"
  have tick: "settle_step s Tick ?s" using later sim(2) by (intro settle_step.tick) simp
  have others: "matches (now_of f w) (sys_phase s j) (mc_routine m j)" for j
    using matches_later [OF sim(3) later] .
  have m': "mc_table m' = st" "mc_world m' = w" "mc_routine m' = (mc_routine m)(i := r)"
    using runs(2) by simp_all
  consider (quiet) "\<not> touches_table (mc_routine m i)"
    | (claims) ctx tx raw payer t where "mc_routine m i = Claiming ctx tx raw payer t"
    | (records) key res t where "mc_routine m i = Recording key res t"
    by (cases "mc_routine m i") auto
  then show ?thesis
  proof cases
    case quiet
    have "simulates f ?s m'"
      using quiet_stage [OF runs(4) quiet] quiet_matches [OF assms(1) runs(4) quiet] others sim m'
      by (auto simp: simulates_def)
    with run_cons [OF tick run_nil] show ?thesis by blast
  next
    case claims
    obtain prior ok tbl where c: "claim (payment_key f raw) t (mc_table m) = ((prior, ok), tbl)" by (metis surj_pair)
    have r: "r = afterClaim f ctx tx raw payer (prior, ok)" "st = tbl" "w = mc_world m"
      using runs(4) claims c by simp_all
    have idle: "sys_phase ?s i = Idle" "t \<le> sys_now ?s"
      using others [of i] claims by (auto simp: matches_def)
    let ?s' = "if ok then ?s\<lparr>sys_table := tbl, sys_phase := (sys_phase ?s)(i := Working (payment_key f raw) prior (sys_now ?s))\<rparr>
      else ?s\<lparr>sys_table := tbl\<rparr>"
    obtain e where e: "settle_step ?s e ?s'"
      using claim_step [OF idle, of "payment_key f raw" prior ok tbl] c sim(1) by auto
    have "matches (now_of f w) (sys_phase ?s' i) r"
      using idle(1) dated_afterClaim [of "now_of f w" f ctx tx raw payer] by (auto simp: matches_def r(1) holds_afterClaim)
    then have "simulates f ?s' m'" using others m' r(2,3) by (auto simp: simulates_def)
    with run_two [OF tick e] show ?thesis by blast
  next
    case records
    have r: "r = Finished res" "st = recordOutcome key res t (mc_table m)"
      using runs(4) records by simp_all
    from others [of i] records obtain p since where ph: "sys_phase ?s i = Working key p since" "since \<le> t" "t \<le> sys_now ?s"
      by (auto simp: matches_def)
    from record_step [OF this] obtain e where
      e: "settle_step ?s e (?s\<lparr>sys_table := st, sys_phase := (sys_phase ?s)(i := Idle)\<rparr>)"
      using r(2) sim(1) by auto
    have "simulates f (?s\<lparr>sys_table := st, sys_phase := (sys_phase ?s)(i := Idle)\<rparr>) m'"
      using others m' r(1) by (auto simp: simulates_def matches_def)
    with run_two [OF tick e] show ?thesis by blast
  qed
qed

lemma simulation_run:
  assumes "steady f"
  shows "machine_run f m hs m' \<Longrightarrow> simulates f s m \<Longrightarrow> \<exists>es s'. settle_run s es s' \<and> simulates f s' m'"
proof (induction arbitrary: s rule: machine_run.induct)
  case (mrun_nil m)
  with run_nil show ?case by blast
next
  case (mrun_cons m h m' hs m'')
  from simulation [OF assms mrun_cons.prems mrun_cons.hyps(1)] obtain es s'
    where s': "settle_run s es s'" "simulates f s' m'" by blast
  from mrun_cons.IH [OF s'(2)] obtain es' s'' where "settle_run s' es' s''" "simulates f s'' m''" by blast
  with settle_run_append [OF s'(1)] show ?case by blast
qed

lemma simulates_initial: "simulates f (initial_system (now_of f w)) (initial_machine w)"
  by (simp add: simulates_def initial_system_def initial_machine_def matches_def)

text \<open>
  C6. The machine refines the table under concurrency: whatever many settles do, stage by stage, and
  whatever the world does meanwhile, some run of \<open>Settle_Steps\<close> has the same table, the same clock and
  the same payments held by the same goroutines.
\<close>

theorem machine_refines:
  assumes "steady f" "zero_time < now_of f w" "machine_run f (initial_machine w) hs m"
  shows "\<exists>s. reachable s \<and> sys_table s = mc_table m \<and> sys_now s = now_of f (mc_world m) \<and>
    (\<forall>i key. working_on s i key \<longleftrightarrow> holds (mc_routine m i) = Some key)"
proof -
  from simulation_run [OF assms(1,3) simulates_initial] obtain es s
    where s: "settle_run (initial_system (now_of f w)) es s" "simulates f s m" by blast
  have "reachable s" using s(1) assms(2) unfolding reachable_def by blast
  with simulatesD [OF s(2)] simulates_working [OF s(2)] show ?thesis by blast
qed

subsection \<open>A payment is broadcast once\<close>

text \<open>An answer that is recorded, and so keeps the payment from being claimed afresh.\<close>

definition carries_hash :: "go_error + settle_response \<Rightarrow> bool" where
  "carries_hash res =
     (case res of
        Inr r \<Rightarrow> True
      | Inl err \<Rightarrow> (case as_type is_settle_error err of None \<Rightarrow> False | Some (reason, payer, transaction, msg) \<Rightarrow> transaction \<noteq> ''''))"

lemma deliveryAnswer_carries: "hash \<noteq> '''' \<Longrightarrow> carries_hash (deliveryAnswer f hash payer err)"
  by (auto simp: deliveryAnswer_def carries_hash_def split: option.split)

lemma recorded_entry:
  assumes "gm_ok st"
  shows "\<not> carries_hash res \<Longrightarrow> entry_at (recordOutcome key res t st) key = unclaimed_entry"
    and "carries_hash res \<Longrightarrow>
      st_state (entry_at (recordOutcome key res t st) key) \<in> {Settled, Pending} \<and>
      (st_state (entry_at (recordOutcome key res t st) key) = Pending \<longrightarrow>
         st_hash (entry_at (recordOutcome key res t st) key) \<noteq> '''') \<and>
      (st_at (entry_at (recordOutcome key res t st) key) = t \<or>
       st_at (entry_at st key) \<noteq> zero_time \<and> st_at (entry_at (recordOutcome key res t st) key) = st_at (entry_at st key))"
  using assms by (auto simp: recordOutcome_def carries_hash_def entry_after split: sum.splits option.splits)

text \<open>
  What the machine keeps: the payments being settled are the ones held, each by one goroutine; no
  entry is later than the clock; an entry found absent is the zero one, one found pending has a hash,
  and a goroutine that has not broadcast yet holds its payment's own key, with no broadcast on record.
\<close>

fun unsent :: "('pk, 'w) facilitator \<Rightarrow> settlements \<Rightarrow> ('pk, 'w) routine \<Rightarrow> bool" where
  "unsent f st (Checking ctx key tx raw payer) = (key = payment_key f raw \<and> st_at (entry_at st key) = zero_time)"
| "unsent f st (Simulating ctx key tx raw payer) = (key = payment_key f raw \<and> st_at (entry_at st key) = zero_time)"
| "unsent f st (Confirming ctx key raw payer) = (key = payment_key f raw \<and> st_at (entry_at st key) = zero_time)"
| "unsent f st (Sending ctx key raw payer) = (key = payment_key f raw \<and> st_at (entry_at st key) = zero_time)"
| "unsent f st r = True"

definition well_held :: "('pk, 'w) facilitator \<Rightarrow> ('pk, 'w) machine \<Rightarrow> bool" where
  "well_held f m =
     (gm_ok (mc_table m) \<and> zero_time < now_of f (mc_world m) \<and>
      (\<forall>i j k. holds (mc_routine m i) = Some k \<and> holds (mc_routine m j) = Some k \<longrightarrow> i = j) \<and>
      (\<forall>k. (\<exists>i. holds (mc_routine m i) = Some k) \<longleftrightarrow> st_state (entry_at (mc_table m) k) = Settling) \<and>
      (\<forall>i. dated (now_of f (mc_world m)) (mc_routine m i)))"

definition entries_known :: "settlements \<Rightarrow> bool" where
  "entries_known st =
     (\<forall>k. (st_state (entry_at st k) = Unclaimed \<longrightarrow> entry_at st k = unclaimed_entry) \<and>
        (st_state (entry_at st k) = Pending \<longrightarrow> st_hash (entry_at st k) \<noteq> ''''))"

definition machine_inv :: "('pk, 'w) facilitator \<Rightarrow> ('pk, 'w) machine \<Rightarrow> bool" where
  "machine_inv f m = (well_held f m \<and> entries_known (mc_table m) \<and> (\<forall>i. unsent f (mc_table m) (mc_routine m i)))"

lemma well_heldD:
  assumes "well_held f m"
  shows "gm_ok (mc_table m)" "zero_time < now_of f (mc_world m)"
    and "holds (mc_routine m i) = Some k \<Longrightarrow> holds (mc_routine m j) = Some k \<Longrightarrow> i = j"
    and "holds (mc_routine m i) = Some k \<Longrightarrow> st_state (entry_at (mc_table m) k) = Settling"
    and "dated (now_of f (mc_world m)) (mc_routine m i)"
  using assms unfolding well_held_def by blast+

lemma simulated_well_held: "simulates f s m \<Longrightarrow> system_inv s \<Longrightarrow> well_held f m"
proof -
  assume sim: "simulates f s m" and inv: "system_inv s"
  note D = system_invD [OF inv]
  have "dated (now_of f (mc_world m)) (mc_routine m i)" for i
    using simulatesD(3) [OF sim, of i] by (simp add: matches_def)
  with D(1,2,3,4) show ?thesis
    unfolding well_held_def simulates_working [OF sim, symmetric] simulatesD(1,2) [OF sim, symmetric]
    by blast
qed

text \<open>A claim leaves alone what it does not grant and what has not expired.\<close>

lemma claim_keeps:
  assumes "gm_ok st" "claim key' t st = ((prior, ok), st')" "\<not> expired t (entry_at st key)" "key' \<noteq> key \<or> \<not> ok"
  shows "entry_at st' key = entry_at st key"
  using assms claim_prior [OF assms(1,2)] entry_after_claim_granted [OF assms(1), of key' t prior st' key]
    entry_after_claim_refused [OF assms(1), of key' t prior st' key]
  by (cases ok) auto

lemma claim_settling_refused:
  assumes "gm_ok st" "claim key t st = ((prior, ok), st')" "st_state (entry_at st key) = Settling"
  shows "\<not> ok"
  using assms claim_prior [OF assms(1,2)] claim_granted(2) [OF assms(1), of key t prior st'] settling_not_expired
  by (cases ok) auto

text \<open>What a goroutine holds is left alone by every other, and what is on record and fresh by all.\<close>

lemma held_kept:
  assumes "well_held f m" "machine_step f m h m'" "holds (mc_routine m i) = Some k"
    and "\<And>b. h \<noteq> Ran i b" "\<And>key. h \<noteq> Panicked i key"
  shows "entry_at (mc_table m') k = entry_at (mc_table m) k \<and> mc_routine m' i = mc_routine m i"
proof -
  note W = well_heldD [OF assms(1)]
  have settling: "st_state (entry_at (mc_table m) k) = Settling" using W(4) [OF assms(3)] .
  from assms(2) show ?thesis
  proof cases
    case (outside w)
    then show ?thesis by simp
  next
    case (arrives j ctx payload req)
    then have "holds (mc_routine m j) = None" by (cases "mc_routine m j") auto
    with arrives assms(3) show ?thesis by auto
  next
    case (panics j key)
    with W(3) [of j k i] assms(3,5) have "key \<noteq> k" "i \<noteq> j" by auto
    with panics show ?thesis by (simp add: entry_after [OF W(1)])
  next
    case (runs j r st w b)
    with assms(4) have ij: "i \<noteq> j" by auto
    have "entry_at st k = entry_at (mc_table m) k" if "touches_table (mc_routine m j)"
    proof (cases "mc_routine m j")
      case (Claiming ctx tx raw payer t)
      obtain prior ok st' where c: "claim (payment_key f raw) t (mc_table m) = ((prior, ok), st')" by (metis surj_pair)
      have "payment_key f raw \<noteq> k \<or> \<not> ok" using claim_settling_refused [OF W(1) c] settling by auto
      with claim_keeps [OF W(1) c settling_not_expired [OF settling]] runs(4) Claiming c show ?thesis by simp
    next
      case (Recording key res t)
      with W(3) [of j k i] assms(3) ij have "k \<noteq> key" by auto
      with runs(4) Recording show ?thesis by (auto simp: entry_after_record(1) [OF W(1)])
    qed (use that in simp_all)
    with quiet_stage(1) [OF runs(4)] have "entry_at st k = entry_at (mc_table m) k" by blast
    with runs(2) ij show ?thesis by simp
  qed
qed

lemma unsent_cong:
  assumes "unsent f st r" "\<And>k. holds r = Some k \<Longrightarrow> entry_at st' k = entry_at st k"
  shows "unsent f st' r"
  using assms by (cases r) auto

lemma unsent_after:
  assumes "machine_inv f m" "advance f (mc_routine m i) (mc_table m) (mc_world m) = ((r, st, w), b)"
  shows "unsent f st r"
proof -
  note inv = assms(1) [unfolded machine_inv_def]
  note W = well_heldD [OF conjunct1 [OF inv]]
  have u: "unsent f (mc_table m) (mc_routine m i)" using inv by blast
  show ?thesis
  proof (cases "mc_routine m i")
    case (Claiming ctx tx raw payer t)
    obtain prior ok st' where c: "claim (payment_key f raw) t (mc_table m) = ((prior, ok), st')" by (metis surj_pair)
    have r: "r = afterClaim f ctx tx raw payer (prior, ok)" "st = st'" using assms(2) Claiming c by simp_all
    show ?thesis
    proof (cases "ok \<and> st_state prior \<noteq> Pending")
      case True
      with c have c': "claim (payment_key f raw) t (mc_table m) = ((prior, True), st')" by simp
      from claim_granted(2) [OF W(1) c'] True have "st_state prior = Unclaimed" by simp
      with claim_prior [OF W(1) c'] inv have "prior = unclaimed_entry"
        unfolding entries_known_def by (metis (full_types))
      with entry_after_claim_granted [OF W(1) c', of "payment_key f raw"] True r
      show ?thesis by (simp add: afterClaim_def Let_def)
    next
      case False
      then show ?thesis by (auto simp: r(1) afterClaim_def Let_def)
    qed
  qed (use assms(2) u in \<open>auto split: payment_check.splits prod.splits account_check.splits option.splits sum.splits\<close>)
qed

lemma entries_known_after:
  assumes "gm_ok st" "entries_known st" "advance f r st w = ((r', st', w'), b)"
  shows "entries_known st'"
proof (cases "touches_table r")
  case False
  from quiet_stage(1) [OF assms(3) this] assms(2) show ?thesis by simp
next
  case True
  then consider (claims) ctx tx raw payer t where "r = Claiming ctx tx raw payer t"
    | (records) key res t where "r = Recording key res t" by (cases r) auto
  then show ?thesis
  proof cases
    case claims
    obtain prior ok tbl where c: "claim (payment_key f raw) t st = ((prior, ok), tbl)" by (metis surj_pair)
    have st': "st' = tbl" using assms(3) claims c by simp
    show ?thesis
    proof (cases ok)
      case True
      with c have c': "claim (payment_key f raw) t st = ((prior, True), tbl)" by simp
      from entry_after_claim_granted [OF assms(1) c'] assms(2) show ?thesis
        unfolding st' entries_known_def by simp
    next
      case False
      with c have c': "claim (payment_key f raw) t st = ((prior, False), tbl)" by simp
      from entry_after_claim_refused [OF assms(1) c'] claim_refused(2) [OF assms(1) c'] assms(2) show ?thesis
        unfolding st' entries_known_def by auto
    qed
  next
    case records
    then have st': "st' = recordOutcome key res t st" using assms(3) by simp
    have "(st_state (entry_at st' k) = Unclaimed \<longrightarrow> entry_at st' k = unclaimed_entry) \<and>
        (st_state (entry_at st' k) = Pending \<longrightarrow> st_hash (entry_at st' k) \<noteq> '''')" for k
      using recorded_entry [OF assms(1), of res key t] entry_after_record(1) [OF assms(1), of k key res t] assms(2)
      unfolding st' entries_known_def by (cases "k = key"; cases "carries_hash res") auto
    then show ?thesis unfolding entries_known_def by blast
  qed
qed

lemma machine_inv_step:
  assumes "machine_inv f m" "machine_step f m h m'" "well_held f m'"
  shows "machine_inv f m'"
proof -
  note inv = assms(1) [unfolded machine_inv_def]
  note W = well_heldD [OF conjunct1 [OF inv]]
  have unsent_other: "unsent f (mc_table m') (mc_routine m' i)"
    if "\<And>b. h \<noteq> Ran i b" "\<And>key. h \<noteq> Panicked i key" "mc_routine m' i = mc_routine m i" for i
    using inv that held_kept [OF conjunct1 [OF inv] assms(2) _ that(1,2)] by (metis unsent_cong)
  from assms(2) have "entries_known (mc_table m') \<and> (\<forall>i. unsent f (mc_table m') (mc_routine m' i))"
  proof cases
    case (outside w)
    with inv show ?thesis by simp
  next
    case (arrives j ctx payload req)
    with inv show ?thesis by simp
  next
    case (panics j key)
    have "entries_known (mc_table m')"
      using inv panics(2) unfolding entries_known_def by (simp add: entry_after [OF W(1)])
    moreover have "unsent f (mc_table m') (mc_routine m' i)" for i
      using unsent_other [of i] panics by (cases "i = j") auto
    ultimately show ?thesis by blast
  next
    case (runs j r st w b)
    have "unsent f (mc_table m') (mc_routine m' i)" for i
      using unsent_other [of i] runs unsent_after [OF assms(1) runs(4)] by (cases "i = j") auto
    with entries_known_after [OF W(1) _ runs(4)] inv runs(2) show ?thesis by simp
  qed
  with assms(3) show ?thesis unfolding machine_inv_def by blast
qed

lemma machine_inv_run:
  assumes "steady f" "zero_time < now_of f w" "machine_run f (initial_machine w) hs m"
  shows "machine_inv f m"
proof -
  have "machine_run f m0 hs m1 \<Longrightarrow> simulates f s m0 \<Longrightarrow> system_inv s \<Longrightarrow> machine_inv f m0 \<Longrightarrow> machine_inv f m1"
    for m0 m1 s
  proof (induction arbitrary: s rule: machine_run.induct)
    case (mrun_cons m h m' hs m'')
    from simulation [OF assms(1) mrun_cons.prems(1) mrun_cons.hyps(1)] obtain es s'
      where s': "settle_run s es s'" "simulates f s' m'" by blast
    from settle_run_inv [OF s'(1) mrun_cons.prems(2)] have i: "system_inv s'" .
    from machine_inv_step [OF mrun_cons.prems(3) mrun_cons.hyps(1) simulated_well_held [OF s'(2) i]]
    show ?case using mrun_cons.IH [OF s'(2) i] by blast
  qed
  note this [OF assms(3) simulates_initial initial_inv [OF assms(2)]]
  moreover have "machine_inv f (initial_machine w)"
    using simulated_well_held [OF simulates_initial initial_inv [OF assms(2)]]
    by (simp add: machine_inv_def entries_known_def initial_machine_def newSettlements_def entry_at_def)
  ultimately show ?thesis by blast
qed

text \<open>
  A payment a node admitted at \<open>a\<close> or later: its settle is still under way and will record it, or it
  is on record.
\<close>

fun admitted :: "instant \<Rightarrow> string \<Rightarrow> ('pk, 'w) routine \<Rightarrow> bool" where
  "admitted a k (Delivering ctx key hash payer) = (key = k \<and> hash \<noteq> '''')"
| "admitted a k (Awaiting key deadline hash payer) = (key = k \<and> hash \<noteq> '''')"
| "admitted a k (Concluding key res) = (key = k \<and> carries_hash res)"
| "admitted a k (Recording key res t) = (key = k \<and> carries_hash res \<and> a \<le> t)"
| "admitted a k r = False"

definition recorded_at :: "instant \<Rightarrow> string \<Rightarrow> settlements \<Rightarrow> bool" where
  "recorded_at a k st = (st_state (entry_at st k) \<in> {Settled, Pending} \<and> a \<le> st_at (entry_at st k))"

definition secured :: "instant \<Rightarrow> string \<Rightarrow> ('pk, 'w) machine \<Rightarrow> bool" where
  "secured a k m =
     ((\<exists>i. admitted a k (mc_routine m i) \<and>
        (st_at (entry_at (mc_table m) k) = zero_time \<or> a \<le> st_at (entry_at (mc_table m) k))) \<or>
      recorded_at a k (mc_table m))"

lemma admitted_holds: "admitted a k r \<Longrightarrow> holds r = Some k \<and> (\<forall>ctx key raw payer. r \<noteq> Sending ctx key raw payer)"
  by (cases r) auto

lemma broadcast_from: "advance f r st w = ((r', st', w'), Some (raw, res)) \<Longrightarrow>
    \<exists>ctx key payer. r = Sending ctx key raw payer"
  by (cases r) (auto split: payment_check.splits prod.splits account_check.splits option.splits sum.splits)

lemma admitted_quiet:
  assumes "steady f" "advance f r st w = ((r', st', w'), b)" "\<not> touches_table r" "admitted a k r" "a \<le> now_of f w"
  shows "admitted a k r'"
  using assms(2,3,4,5) steadyD(1) [OF assms(1)]
  by (cases r) (auto simp: deliveryAnswer_carries split: prod.splits)

text \<open>The payment's own goroutine carries it to the record.\<close>

lemma secured_own:
  assumes "steady f" "gm_ok (mc_table m)" "a \<le> now_of f (mc_world m)" "admitted a k (mc_routine m i)"
    and "st_at (entry_at (mc_table m) k) = zero_time \<or> a \<le> st_at (entry_at (mc_table m) k)"
    and "advance f (mc_routine m i) (mc_table m) (mc_world m) = ((r, st, w), b)"
    and "m' = \<lparr>mc_table = st, mc_world = w, mc_routine = (mc_routine m)(i := r)\<rparr>"
  shows "secured a k m'"
proof (cases "touches_table (mc_routine m i)")
  case False
  have "admitted a k (mc_routine m' i)" "mc_table m' = mc_table m"
    using admitted_quiet [OF assms(1,6) False assms(4,3)] quiet_stage(1) [OF assms(6) False] assms(7) by simp_all
  with assms(5) show ?thesis unfolding secured_def by auto
next
  case True
  with assms(4) obtain res t where r: "mc_routine m i = Recording k res t" "carries_hash res" "a \<le> t"
    by (cases "mc_routine m i") auto
  then have "st = recordOutcome k res t (mc_table m)" using assms(6) by simp
  with recorded_entry(2) [OF assms(2) r(2), of k t] r(3) assms(5,7)
  have "recorded_at a k (mc_table m')" by (auto simp: recorded_at_def)
  then show ?thesis by (simp add: secured_def)
qed

text \<open>A payment on record stays there, or is claimed to be reconciled under its hash.\<close>

lemma secured_record:
  assumes "machine_inv f m" "recorded_at a k (mc_table m)" "now_of f (mc_world m) - a \<le> settlementTTL"
    and "advance f (mc_routine m i) (mc_table m) (mc_world m) = ((r, st, w), b)"
    and "m' = \<lparr>mc_table = st, mc_world = w, mc_routine = (mc_routine m)(i := r)\<rparr>"
  shows "secured a k m'"
proof -
  note inv = assms(1) [unfolded machine_inv_def]
  note W = well_heldD [OF conjunct1 [OF inv]]
  note rec = assms(2) [unfolded recorded_at_def]
  show ?thesis
  proof (cases "mc_routine m i")
    case (Claiming ctx tx raw payer t)
    obtain prior ok st' where c: "claim (payment_key f raw) t (mc_table m) = ((prior, ok), st')" by (metis surj_pair)
    have r: "r = afterClaim f ctx tx raw payer (prior, ok)" "st = st'" using assms(4) Claiming c by simp_all
    have "t \<le> now_of f (mc_world m)" using W(5) [of i] Claiming by simp
    with assms(3) rec have fresh: "\<not> expired t (entry_at (mc_table m) k)" by (intro not_expired_within) simp
    show ?thesis
    proof (cases "payment_key f raw = k \<and> ok")
      case False
      with claim_keeps [OF W(1) c fresh] assms(2,5) r(2) show ?thesis by (auto simp: secured_def recorded_at_def)
    next
      case True
      with c have c': "claim k t (mc_table m) = ((prior, True), st')" by simp
      have prior: "prior = entry_at (mc_table m) k" using claim_prior [OF W(1) c'] fresh by simp
      with claim_granted(2) [OF W(1) c'] rec have "st_state prior = Pending" by auto
      moreover from this prior inv have "st_hash prior \<noteq> ''''" unfolding entries_known_def by blast
      ultimately have "admitted a k r" using True by (simp add: r(1) afterClaim_def)
      moreover have "a \<le> st_at (entry_at st k)"
        using entry_after_claim_granted [OF W(1) c', of k] rec prior r(2) by simp
      ultimately show ?thesis using assms(5) by (auto simp: secured_def)
    qed
  next
    case (Recording key res t)
    with W(4) [of i key] rec have "k \<noteq> key" by auto
    with entry_after_record(1) [OF W(1)] Recording assms(2,4,5) show ?thesis
      by (auto simp: secured_def recorded_at_def)
  qed (use quiet_stage(1) [OF assms(4)] assms(2,5) in \<open>simp_all add: secured_def\<close>)
qed

lemma secured_step:
  assumes "steady f" "machine_inv f m" "machine_step f m h m'" "secured a k m"
    and "a \<le> now_of f (mc_world m)" "now_of f (mc_world m) - a \<le> settlementTTL" "\<And>j. h \<noteq> Panicked j k"
  shows "secured a k m'"
proof -
  note inv = assms(2) [unfolded machine_inv_def]
  note W = well_heldD [OF conjunct1 [OF inv]]
  show ?thesis
  proof (cases "recorded_at a k (mc_table m)")
    case True
    from assms(3) show ?thesis
    proof cases
      case (runs i r st w b)
      from secured_record [OF assms(2) True assms(6) runs(4) runs(2)] show ?thesis .
    next
      case (panics i key)
      with assms(7) have "k \<noteq> key" by auto
      with True panics show ?thesis by (simp add: secured_def recorded_at_def entry_after [OF W(1)])
    qed (use True in \<open>simp_all add: secured_def\<close>)
  next
    case False
    with assms(4) obtain i where i: "admitted a k (mc_routine m i)"
        "st_at (entry_at (mc_table m) k) = zero_time \<or> a \<le> st_at (entry_at (mc_table m) k)"
      unfolding secured_def by blast
    have hold: "holds (mc_routine m i) = Some k" using admitted_holds [OF i(1)] by blast
    show ?thesis
    proof (cases "\<exists>b. h = Ran i b")
      case True
      then obtain b where "machine_step f m (Ran i b) m'" using assms(3) by blast
      then show ?thesis by (elim ranE) (rule secured_own [OF assms(1) W(1) assms(5) i])
    next
      case nran: False
      have "h \<noteq> Panicked i key" for key
        using assms(3,7) hold by (auto elim: panickedE)
      with held_kept [OF conjunct1 [OF inv] assms(3) hold] nran i show ?thesis
        unfolding secured_def by metis
    qed
  qed
qed

lemma secured_no_broadcast:
  assumes "machine_inv f m" "secured a k m" "machine_step f m (Ran j (Some (raw, res))) m'"
  shows "payment_key f raw \<noteq> k"
proof
  assume k: "payment_key f raw = k"
  note inv = assms(1) [unfolded machine_inv_def]
  note W = well_heldD [OF conjunct1 [OF inv]]
  from assms(3) obtain ctx key payer where s: "mc_routine m j = Sending ctx key raw payer"
    by (elim ranE) (frule broadcast_from, auto split: sum.splits prod.splits)
  moreover have "unsent f (mc_table m) (mc_routine m j)" using inv by blast
  ultimately have h: "holds (mc_routine m j) = Some k" using k by simp
  with W(4) have "\<not> recorded_at a k (mc_table m)" unfolding recorded_at_def by force
  with assms(2) obtain i where i: "admitted a k (mc_routine m i)" unfolding secured_def by blast
  then have "holds (mc_routine m i) = Some k" using admitted_holds by blast
  from W(3) [OF this h] have "i = j" .
  with i s show False by simp
qed

lemma secured_run:
  assumes "steady f" "machine_run f m hs m'" "simulates f s m" "system_inv s" "machine_inv f m" "secured a k m"
    and "a \<le> now_of f (mc_world m)" "now_of f (mc_world m') - a \<le> settlementTTL" "\<And>j. Panicked j k \<notin> set hs"
  shows "secured a k m' \<and> machine_inv f m'"
  using assms(2-9)
proof (induction arbitrary: s rule: machine_run.induct)
  case (mrun_cons m h m' hs m'')
  from simulation [OF assms(1) mrun_cons.prems(1) mrun_cons.hyps(1)] obtain es s'
    where s': "settle_run s es s'" "simulates f s' m'" by blast
  from settle_run_inv [OF s'(1) mrun_cons.prems(2)] have i: "system_inv s'" .
  from machine_inv_step [OF mrun_cons.prems(3) mrun_cons.hyps(1) simulated_well_held [OF s'(2) i]]
  have inv: "machine_inv f m'" .
  have t: "now_of f (mc_world m) \<le> now_of f (mc_world m')" "now_of f (mc_world m') \<le> now_of f (mc_world m'')"
    using settle_run_clock [OF s'(1)] simulatesD(2) [OF mrun_cons.prems(1)] simulatesD(2) [OF s'(2)]
      machine_run_clock [OF assms(1) mrun_cons.hyps(2)] by simp_all
  have "now_of f (mc_world m) - a \<le> settlementTTL" "\<And>j. h \<noteq> Panicked j k"
    using mrun_cons.prems(6,7) t by auto
  from secured_step [OF assms(1) mrun_cons.prems(3) mrun_cons.hyps(1) mrun_cons.prems(4,5) this]
  have "secured a k m'" .
  with mrun_cons.IH [OF s'(2) i inv] mrun_cons.prems(5-7) t show ?case by simp
qed simp

lemma secured_reachable:
  assumes "steady f" "zero_time < now_of f w" "machine_run f (initial_machine w) hs m" "machine_run f m hs' m'"
    and "secured a k m" "a \<le> now_of f (mc_world m)" "now_of f (mc_world m') - a \<le> settlementTTL"
    and "\<And>j. Panicked j k \<notin> set hs'"
  shows "secured a k m' \<and> machine_inv f m'"
proof -
  from simulation_run [OF assms(1,3) simulates_initial] obtain es s
    where s: "settle_run (initial_system (now_of f w)) es s" "simulates f s m" by blast
  from secured_run [OF assms(1,4) s(2) settle_run_inv [OF s(1) initial_inv [OF assms(2)]]
      machine_inv_run [OF assms(1-3)] assms(5-8)]
  show ?thesis .
qed

text \<open>
  C5. A payment is broadcast once. Whatever many settles do at once, stage by stage, and whatever the
  node answers them: when a node admitted the broadcast of some bytes under a hash, the next
  broadcast of the same payment by this process, by any settle of any offer, comes more than
  \<open>settlementTTL\<close> later. The one exception is a settle of it that panicked meanwhile, whose deferred
  release drops the record.
\<close>

theorem broadcast_once:
  assumes "steady f" "zero_time < now_of f w" "machine_run f (initial_machine w) hs m"
    and "machine_step f m (Ran i (Some (raw, Inr hash))) m1" "hash \<noteq> ''''"
    and "machine_run f m1 hs' m2" "\<And>j. Panicked j (payment_key f raw) \<notin> set hs'"
    and "machine_step f m2 (Ran j (Some (raw', res))) m3" "payment_key f raw' = payment_key f raw"
  shows "settlementTTL < now_of f (mc_world m2) - now_of f (mc_world m1)"
proof (rule ccontr)
  assume "\<not> settlementTTL < now_of f (mc_world m2) - now_of f (mc_world m1)"
  then have soon: "now_of f (mc_world m2) - now_of f (mc_world m1) \<le> settlementTTL" by simp
  have inv: "machine_inv f m" by (rule machine_inv_run [OF assms(1-3)])
  from assms(4) have "secured (now_of f (mc_world m1)) (payment_key f raw) m1"
  proof (rule ranE)
    fix r st w'
    assume m1: "m1 = \<lparr>mc_table = st, mc_world = w', mc_routine = (mc_routine m)(i := r)\<rparr>"
      and adv: "advance f (mc_routine m i) (mc_table m) (mc_world m) = ((r, st, w'), Some (raw, Inr hash))"
    from broadcast_from [OF adv] obtain ctx key raw0 payer where s: "mc_routine m i = Sending ctx key raw0 payer"
      by blast
    then have "raw0 = raw" "st = mc_table m" "r = Delivering ctx key hash payer"
      using adv by (auto split: sum.splits prod.splits)
    moreover have "unsent f (mc_table m) (mc_routine m i)" using inv by (simp add: machine_inv_def)
    ultimately show ?thesis using s m1 assms(5) by (auto simp: secured_def)
  qed
  moreover have "machine_run f (initial_machine w) (hs @ [Ran i (Some (raw, Inr hash))]) m1"
    using machine_run_append [OF assms(3)] assms(4) mrun_cons mrun_nil by blast
  ultimately have "secured (now_of f (mc_world m1)) (payment_key f raw) m2 \<and> machine_inv f m2"
    using secured_reachable [OF assms(1,2) _ assms(6) _ order_refl soon assms(7)] by blast
  with secured_no_broadcast assms(8,9) show False by blast
qed

subsection \<open>A settle with no rival\<close>

text \<open>Any goroutine may run its next stages with nothing between them.\<close>

lemma run_alone:
  "\<exists>hs. machine_run f \<lparr>mc_table = st, mc_world = w, mc_routine = R(i := r)\<rparr> hs
      \<lparr>mc_table = fst (snd (run_stages f n (r, st, w))), mc_world = snd (snd (run_stages f n (r, st, w))),
       mc_routine = R(i := fst (run_stages f n (r, st, w)))\<rparr> \<and> (\<forall>h \<in> set hs. \<exists>b. h = Ran i b)"
proof (induction n arbitrary: r st w)
  case 0
  show ?case by (intro exI [of _ "[]"]) (simp add: mrun_nil)
next
  case (Suc n)
  show ?case
  proof (cases "stages_left r = 0")
    case True
    then show ?thesis by (intro exI [of _ "[]"]) (simp add: run_stages_idle mrun_nil del: run_stages.simps)
  next
    case False
    obtain r' st' w' b where a: "advance f r st w = ((r', st', w'), b)" by (metis surj_pair)
    let ?m = "\<lambda>st w r. \<lparr>mc_table = st, mc_world = w, mc_routine = R(i := r)\<rparr>"
    have "machine_step f (?m st w r) (Ran i b) (?m st' w' r')"
      using machine_step.runs [of "?m st w r" i f r' st' w' b] False a by simp
    moreover obtain hs where "machine_run f (?m st' w' r') hs
        (?m (fst (snd (run_stages f n (r', st', w')))) (snd (snd (run_stages f n (r', st', w')))) (fst (run_stages f n (r', st', w'))))"
        "\<forall>h \<in> set hs. \<exists>b. h = Ran i b"
      using Suc.IH by blast
    ultimately show ?thesis
      by (intro exI [of _ "Ran i b # hs"]) (simp add: a mrun_cons del: fun_upd_apply)
  qed
qed

end
