(* ===== verification/Settle_Provenance.thy ===== *)
theory Settle_Provenance
  imports Settle_Machine
begin

text \<open>
  Where the transaction hashes that settles report come from, over the machine of \<open>Settle_Machine\<close>. A hash
  reaches an answer by many ways: the node's own answer to a broadcast, the record of a payment that is
  pending, the record of one that is settled or being settled, each written by any settle before. The
  argument is that of authenticity in a protocol: what is reported was once said, and said of this payment.
\<close>

subsection \<open>Runs all of whose states have a property\<close>

inductive run_within ::
    "(('pk, 'w) machine \<Rightarrow> bool) \<Rightarrow> ('pk, 'w) facilitator \<Rightarrow> ('pk, 'w) machine \<Rightarrow> happening list \<Rightarrow> ('pk, 'w) machine \<Rightarrow> bool"
  for P :: "('pk, 'w) machine \<Rightarrow> bool" and f :: "('pk, 'w) facilitator" where
  within_nil: "P m \<Longrightarrow> run_within P f m [] m"
| within_cons: "P m \<Longrightarrow> machine_step f m h m' \<Longrightarrow> run_within P f m' hs m'' \<Longrightarrow> run_within P f m (h # hs) m''"

text \<open>
  An error of the node or of a request's context is none of x402's: it is no \<open>SettleError\<close> and wraps
  none. A context ends with \<open>context.Canceled\<close> or \<open>context.DeadlineExceeded\<close>.
\<close>

definition plain_error :: "go_error \<Rightarrow> bool" where
  "plain_error e \<longleftrightarrow> as_type is_settle_error e = None"

definition plain_node :: "('pk, 'w) facilitator \<Rightarrow> bool" where
  "plain_node f \<longleftrightarrow>
     (\<forall>tx w e. fst (node_signer_account (fac_node f) tx w) = Inl e \<longrightarrow> plain_error e) \<and>
     (\<forall>tx w e. fst (node_simulate (fac_node f) tx w) = Some e \<longrightarrow> plain_error e) \<and>
     (\<forall>b w e. fst (node_broadcast (fac_node f) b w) = Inl e \<longrightarrow> plain_error e)"

definition plain_ctx :: "'w go_context \<Rightarrow> bool" where
  "plain_ctx ctx \<longleftrightarrow> (\<forall>w e. ctx_err ctx w = Some e \<longrightarrow> plain_error e)"

fun plain_routine :: "('pk, 'w) routine \<Rightarrow> bool" where
  "plain_routine (Started ctx payload req) = plain_ctx ctx"
| "plain_routine (Claiming ctx tx raw payer t) = plain_ctx ctx"
| "plain_routine (Checking ctx key tx raw payer) = plain_ctx ctx"
| "plain_routine (Simulating ctx key tx raw payer) = plain_ctx ctx"
| "plain_routine (Confirming ctx key raw payer) = plain_ctx ctx"
| "plain_routine (Sending ctx key raw payer) = plain_ctx ctx"
| "plain_routine (Delivering ctx key hash payer) = plain_ctx ctx"
| "plain_routine r = True"

definition plain_requests :: "('pk, 'w) machine \<Rightarrow> bool" where
  "plain_requests m \<longleftrightarrow> (\<forall>i. plain_routine (mc_routine m i))"

lemma plain_afterClaim: "plain_ctx ctx \<Longrightarrow> plain_routine (afterClaim f ctx tx raw payer c)"
  by (simp add: afterClaim_def Let_def split: prod.split)

lemma plain_advance: "plain_routine r \<Longrightarrow> advance f r st w = ((r', st', w'), b) \<Longrightarrow> plain_routine r'"
  by (cases r) (auto simp: plain_afterClaim split: payment_check.splits prod.splits account_check.splits
      option.splits sum.splits)

lemma plain_step:
  assumes "plain_requests m" "machine_step f m h m'" "\<And>i. h \<noteq> Arrived i"
  shows "plain_requests m'"
  using assms(2)
  by cases (use assms(1,3) in \<open>auto simp: plain_requests_def dest: plain_advance\<close>)

lemma run_within_plain:
  "machine_run f m hs m' \<Longrightarrow> plain_requests m \<Longrightarrow> (\<And>i. Arrived i \<notin> set hs) \<Longrightarrow> run_within plain_requests f m hs m'"
proof (induction rule: machine_run.induct)
  case (mrun_cons m h m' hs m'')
  have "plain_requests m'" by (rule plain_step [OF mrun_cons.prems(1) mrun_cons.hyps(1)]) (use mrun_cons.prems(2) in auto)
  with mrun_cons show ?case by (auto intro: within_cons)
qed (rule within_nil)

subsection \<open>What is known of a hash\<close>

text \<open>A node admitted a broadcast of the payment under the hash.\<close>

definition node_gave :: "('pk, 'w) facilitator \<Rightarrow> happening list \<Rightarrow> string \<Rightarrow> string \<Rightarrow> bool" where
  "node_gave f hs key hash \<longleftrightarrow> (\<exists>i raw. Ran i (Some (raw, Inr hash)) \<in> set hs \<and> payment_key f raw = key)"

text \<open>The transaction an answer carries, the one the transport reports; none is the empty string.\<close>

definition reported_hash :: "go_error + settle_response \<Rightarrow> string" where
  "reported_hash res =
     (case res of
        Inr r \<Rightarrow> sr_transaction r
      | Inl err \<Rightarrow> (case as_type is_settle_error err of None \<Rightarrow> '''' | Some (reason, payer, transaction, msg) \<Rightarrow> transaction))"

definition hash_known :: "('pk, 'w) facilitator \<Rightarrow> happening list \<Rightarrow> string \<Rightarrow> string \<Rightarrow> bool" where
  "hash_known f hs key hash \<longleftrightarrow> hash = '''' \<or> node_gave f hs key hash"

lemma hash_known_Nil [simp]: "hash_known f hs key ''''"
  by (simp add: hash_known_def)

lemma hash_known_later: "hash_known f hs key hash \<Longrightarrow> hash_known f (hs @ hs') key hash"
  by (auto simp: hash_known_def node_gave_def)

lemma hash_known_given: "hash_known f (hs @ [Ran i (Some (raw, Inr hash))]) (payment_key f raw) hash"
  by (auto simp: hash_known_def node_gave_def)

text \<open>A settle of the payment under \<open>key\<close>, all whose hashes are known.\<close>

fun settles :: "('pk, 'w) facilitator \<Rightarrow> happening list \<Rightarrow> string \<Rightarrow> ('pk, 'w) routine \<Rightarrow> bool" where
  "settles f hs k (Started ctx payload req) =
     (\<forall>tx raw payer. checkOffline f payload req = PaymentAccepted tx raw payer \<longrightarrow> payment_key f raw = k)"
| "settles f hs k (Claiming ctx tx raw payer t) = (payment_key f raw = k)"
| "settles f hs k (Checking ctx key tx raw payer) = (key = k \<and> payment_key f raw = k)"
| "settles f hs k (Simulating ctx key tx raw payer) = (key = k \<and> payment_key f raw = k)"
| "settles f hs k (Confirming ctx key raw payer) = (key = k \<and> payment_key f raw = k)"
| "settles f hs k (Sending ctx key raw payer) = (key = k \<and> payment_key f raw = k)"
| "settles f hs k (Delivering ctx key hash payer) = (key = k \<and> hash_known f hs k hash)"
| "settles f hs k (Awaiting key deadline hash payer) = (key = k \<and> hash_known f hs k hash)"
| "settles f hs k (Concluding key res) = (key = k \<and> hash_known f hs k (reported_hash res))"
| "settles f hs k (Recording key res t) = (key = k \<and> hash_known f hs k (reported_hash res))"
| "settles f hs k (Finished res) = hash_known f hs k (reported_hash res)"
| "settles f hs k Ready = True"

definition record_known :: "('pk, 'w) facilitator \<Rightarrow> happening list \<Rightarrow> settlements \<Rightarrow> bool" where
  "record_known f hs st \<longleftrightarrow> gm_ok st \<and> (\<forall>k. hash_known f hs k (st_hash (entry_at st k)))"

lemma settles_later: "settles f hs k r \<Longrightarrow> settles f (hs @ hs') k r"
  by (cases r) (auto intro: hash_known_later)

lemma record_known_later: "record_known f hs st \<Longrightarrow> record_known f (hs @ hs') st"
  by (auto simp: record_known_def intro: hash_known_later)

lemma settles_some: "\<exists>k. settles f hs k (Started ctx payload req)"
  by (cases "checkOffline f payload req") auto

subsection \<open>Every stage keeps it\<close>

lemma reported_delivery: "reported_hash (deliveryAnswer f hash payer err) = hash"
  by (simp add: deliveryAnswer_def reported_hash_def split: option.split)

lemma reported_refusal:
  "reported_hash (Inl (settleRefusal f (refusePayment payer reason cause))) = []"
  by (simp add: settleRefusal_def refusePayment_def reported_hash_def)

lemma reported_plain: "plain_error cause \<Longrightarrow> reported_hash (Inl (NoVerdictError payer cause)) = []"
  by (simp add: reported_hash_def plain_error_def)

lemma reported_no_verdict: "plain_error cause \<Longrightarrow> reported_hash (Inl (settleRefusal f (NoVerdict payer cause))) = []"
  by (simp add: settleRefusal_def reported_plain)

lemma plain_checks:
  assumes "plain_node f" "verifyAccountChecks (fac_lib f) tx (fac_node f) c w = (AccountNoVerdict cause, w')"
  shows "plain_error cause"
  using assms unfolding plain_node_def
  by (auto simp: verifyAccountChecks_def split: sum.splits prod.splits if_splits signature_state.splits)
    (metis fst_conv)

lemma claim_known:
  assumes "record_known f hs st" "claim k t st = ((prior, ok), st')"
  shows "record_known f hs st' \<and> hash_known f hs k (st_hash prior)"
proof -
  have ok: "gm_ok st" and known: "\<And>k. hash_known f hs k (st_hash (entry_at st k))"
    using assms(1) by (auto simp: record_known_def)
  have "gm_ok st'" using table_ok(2) [OF ok] assms(2) by (metis snd_conv)
  moreover have prior: "hash_known f hs k (st_hash prior)"
    using claim_prior [OF ok assms(2)] known by (auto split: if_splits)
  moreover have "hash_known f hs k' (st_hash (entry_at st' k'))" for k'
  proof (cases ok)
    case True
    with assms(2) have "claim k t st = ((prior, True), st')" by simp
    from entry_after_claim_granted [OF ok this, of k'] prior known show ?thesis by auto
  next
    case False
    with assms(2) have "claim k t st = ((prior, False), st')" by simp
    from entry_after_claim_refused [OF ok this, of k'] prior known show ?thesis by auto
  qed
  ultimately show ?thesis by (simp add: record_known_def)
qed

lemma record_known_outcome:
  assumes "record_known f hs st" "hash_known f hs key (reported_hash res)"
  shows "record_known f hs (recordOutcome key res t st)"
proof -
  have ok: "gm_ok st" using assms(1) by (simp add: record_known_def)
  have "hash_known f hs key (st_hash (entry_at (recordOutcome key res t st) key))"
    using assms(2) by (auto simp: recordOutcome_def reported_hash_def entry_after [OF ok] split: sum.splits option.splits)
  with assms(1) entry_after_record(1) [OF ok] recordOutcome_ok [OF ok] show ?thesis
    unfolding record_known_def by metis
qed

lemma settles_afterClaim:
  assumes "hash_known f hs (payment_key f raw) (st_hash prior)"
  shows "settles f hs (payment_key f raw) (afterClaim f ctx tx raw payer (prior, ok))"
  using assms by (simp add: afterClaim_def Let_def reported_hash_def)

lemma advance_known:
  assumes "plain_node f" "plain_routine r" "settles f hs k r" "record_known f hs st"
    and "advance f r st w = ((r', st', w'), b)"
  shows "settles f (hs @ [Ran i b]) k r' \<and> record_known f (hs @ [Ran i b]) st'"
proof -
  note plain = assms(1) [unfolded plain_node_def]
  have "settles f hs k r' \<and> record_known f hs st'" if "\<not> (\<exists>ctx key raw payer. r = Sending ctx key raw payer)"
  proof (cases r)
    case (Claiming ctx tx raw payer t)
    obtain prior ok st1 where c: "claim (payment_key f raw) t st = ((prior, ok), st1)" by (metis surj_pair)
    from claim_known [OF assms(4) c] settles_afterClaim [of f hs raw prior ctx tx payer ok] Claiming assms(3,5) c
    show ?thesis by auto
  next
    case (Checking ctx key tx raw payer)
    with assms(3-5) plain_checks [OF assms(1)] show ?thesis
      by (auto simp: reported_refusal reported_no_verdict split: prod.splits account_check.splits)
  next
    case (Simulating ctx key tx raw payer)
    moreover have "plain_error e" if "node_simulate (fac_node f) tx w = (Some e, x)" for e x
      using plain that by (metis fst_conv)
    ultimately show ?thesis
      using assms(3-5) by (auto simp: reported_refusal reported_no_verdict split: prod.splits option.splits)
  next
    case (Confirming ctx key raw payer)
    moreover have "plain_error e" if "ctx_err ctx w = Some e" for e
      using assms(2) that Confirming by (simp add: plain_ctx_def)
    ultimately show ?thesis
      using assms(3-5) by (auto simp: reported_hash_def plain_error_def split: option.splits)
  next
    case (Awaiting key deadline hash payer)
    with assms(3-5) show ?thesis by (auto simp: reported_delivery split: prod.splits)
  next
    case (Recording key res t)
    with assms(3-5) record_known_outcome show ?thesis by auto
  next
    case (Started ctx payload req)
    with assms(3-5) show ?thesis
      by (auto simp: settleRefusal_def reported_hash_def checkOffline_def refusePayment_def split: check_splits)
  qed (use that assms(3-5) in \<open>auto split: prod.splits\<close>)
  moreover have "settles f (hs @ [Ran i b]) k r' \<and> record_known f (hs @ [Ran i b]) st'"
    if "r = Sending ctx key raw payer" for ctx key raw payer
  proof -
    have plainb: "plain_error e" if "node_broadcast (fac_node f) raw w = (Inl e, x)" for e x
      using plain that by (metis fst_conv)
    have "settles f (hs @ [Ran i b]) k r' \<and> st' = st"
      using assms(3,5) that plainb
      by (auto simp: reported_hash_def plain_error_def hash_known_given split: prod.splits sum.splits)
    with record_known_later [OF assms(4)] show ?thesis by simp
  qed
  ultimately show ?thesis using settles_later record_known_later by blast
qed

definition hashes_known :: "('pk, 'w) facilitator \<Rightarrow> happening list \<Rightarrow> ('pk, 'w) machine \<Rightarrow> bool" where
  "hashes_known f hs m \<longleftrightarrow> record_known f hs (mc_table m) \<and> (\<forall>i. \<exists>k. settles f hs k (mc_routine m i))"

inductive_cases arrivedE: "machine_step f m (Arrived i) m'"

lemma step_record:
  assumes "plain_node f" "plain_requests m" "hashes_known f hs m" "machine_step f m h m'"
  shows "record_known f (hs @ [h]) (mc_table m')"
proof -
  have known: "record_known f hs (mc_table m)" using assms(3) by (simp add: hashes_known_def)
  from assms(4) show ?thesis
  proof cases
    case (panics i key)
    have "record_known f hs (release key (mc_table m))"
      using known table_ok(3) entry_after(1) unfolding record_known_def by simp
    with panics(2) record_known_later show ?thesis by auto
  next
    case (runs i r st w b)
    obtain k where "settles f hs k (mc_routine m i)" using assms(3) by (auto simp: hashes_known_def)
    moreover have "plain_routine (mc_routine m i)" using assms(2) by (simp add: plain_requests_def)
    ultimately show ?thesis using advance_known [OF assms(1) _ _ known runs(4)] runs(1,2) by simp
  qed (use known record_known_later in auto)
qed

lemma step_settles:
  assumes "plain_node f" "plain_requests m" "hashes_known f hs m" "machine_step f m h m'"
    and "settles f hs k (mc_routine m i)" "h \<noteq> Arrived i"
  shows "settles f (hs @ [h]) k (mc_routine m' i)"
  using assms(4)
proof cases
  case (runs j r st w b)
  have "plain_routine (mc_routine m i)" "record_known f hs (mc_table m)"
    using assms(2,3) by (simp_all add: plain_requests_def hashes_known_def)
  with advance_known [OF assms(1) _ assms(5), of "mc_table m" "mc_world m" r st w b j] assms(5) runs settles_later
  show ?thesis by (cases "i = j") auto
qed (use assms(5,6) settles_later in auto)

lemma step_known:
  assumes "plain_node f" "plain_requests m" "hashes_known f hs m" "machine_step f m h m'"
  shows "hashes_known f (hs @ [h]) m'"
proof -
  have "\<exists>k. settles f (hs @ [h]) k (mc_routine m' i)" for i
  proof (cases "h = Arrived i")
    case True
    with assms(4) obtain ctx payload req where "mc_routine m' i = Started ctx payload req"
      by (auto elim: arrivedE)
    then show ?thesis using settles_some by metis
  next
    case False
    obtain k where "settles f hs k (mc_routine m i)" using assms(3) by (auto simp: hashes_known_def)
    from step_settles [OF assms this False] show ?thesis ..
  qed
  with step_record [OF assms] show ?thesis by (simp add: hashes_known_def)
qed

lemma run_known:
  assumes "plain_node f" "run_within plain_requests f m hs' m'" "hashes_known f hs m"
  shows "hashes_known f (hs @ hs') m'"
    and "settles f hs k (mc_routine m i) \<Longrightarrow> Arrived i \<notin> set hs' \<Longrightarrow> settles f (hs @ hs') k (mc_routine m' i)"
  using assms(2,3)
proof (induction arbitrary: hs rule: run_within.induct)
  case (within_cons m h m' hs' m'')
  {
    case 1
    with within_cons.IH(1) [OF step_known [OF assms(1) within_cons.hyps(1) _ within_cons.hyps(2)], of hs]
    show ?case by simp
  next
    case 2
    then have "settles f (hs @ [h]) k (mc_routine m' i)"
      using step_settles [OF assms(1) within_cons.hyps(1) _ within_cons.hyps(2)] by fastforce
    with 2 within_cons.IH(2) [of "hs @ [h]"] step_known [OF assms(1) within_cons.hyps(1) _ within_cons.hyps(2), of hs]
    show ?case by simp
  }
qed simp_all

lemma initial_known: "hashes_known f [] (initial_machine w)"
proof -
  have "settles f [] k (mc_routine (initial_machine w) i)" for k i by (simp add: initial_machine_def)
  then show ?thesis
    by (auto simp: hashes_known_def record_known_def initial_machine_def table_ok(1))
      (simp add: entry_at_def newSettlements_def)
qed

text \<open>
  C7. No settle reports a hash the chain did not give it for this very payment. Whatever many settles do
  at once, stage by stage, and whoever's record it is answered from: when a settle that started with a
  payload and an offer is answered, a success, a duplicate, a payment pending or one the chain refused,
  then any transaction the answer carries is one under which a node admitted, earlier in the same run, a
  broadcast of that payment by this process. The node's errors and those of the requests' contexts are
  none of x402's own.
\<close>

theorem reported_hash_given:
  assumes "plain_node f" "run_within plain_requests f (initial_machine w) hs m"
    and "mc_routine m i = Started ctx payload req" "checkOffline f payload req = PaymentAccepted tx raw payer"
    and "run_within plain_requests f m hs' m'" "Arrived i \<notin> set hs'"
    and "mc_routine m' i = Finished res" "reported_hash res \<noteq> ''''"
  shows "\<exists>j raw'. Ran j (Some (raw', Inr (reported_hash res))) \<in> set (hs @ hs') \<and> payment_key f raw' = payment_key f raw"
proof -
  have "hashes_known f hs m" using run_known(1) [OF assms(1,2) initial_known] by simp
  moreover have "settles f hs (payment_key f raw) (mc_routine m i)" by (simp add: assms(3,4))
  ultimately have "settles f (hs @ hs') (payment_key f raw) (mc_routine m' i)"
    using run_known(2) [OF assms(1,5) _ _ assms(6)] by blast
  with assms(7,8) show ?thesis by (simp add: hash_known_def node_gave_def)
qed

end
