(* ===== verification/Machine_Example.thy ===== *)
theory Machine_Example
  imports Settle_Provenance Exact_Test
begin

text \<open>
  A concrete process, for the properties of \<open>Settle_Machine\<close>: the fixtures of \<open>Exact_Test\<close> over a node
  whose only state is the time. It settles the fixture payment at one goroutine, and settles it again
  once the record of it has expired.
\<close>

definition timed_chain :: "(nat, instant) chain_node" where
  "timed_chain = \<lparr>node_signer_account = (\<lambda>tx t. (Inr (AccountWithKey (Some 11) 7 3), t)),
     node_simulate = (\<lambda>tx t. (None, t)), node_broadcast = (\<lambda>b t. (Inr ''ab'', t)),
     node_await_delivery = (\<lambda>d h t. (None, t))\<rparr>"

definition timed_fac :: "(nat, instant) facilitator" where
  "timed_fac = \<lparr>fac_lib = test_lib, fac_node = timed_chain, fac_chain_id = ChainID, fac_clock = (\<lambda>t. (t, t))\<rparr>"

definition timed_ctx :: "instant go_context" where
  "timed_ctx = \<lparr>ctx_deadline = None, ctx_err = (\<lambda>_. None)\<rparr>"

lemma timed_fields [simp]:
  "fac_lib timed_fac = test_lib" "fac_chain_id timed_fac = ''dev''" "fac_clock timed_fac t = (t, t)"
  "node_signer_account (fac_node timed_fac) tx t = (Inr (AccountWithKey (Some 11) 7 3), t)"
  "node_simulate (fac_node timed_fac) tx t = (None, t)" "node_broadcast (fac_node timed_fac) b t = (Inr ''ab'', t)"
  "node_await_delivery (fac_node timed_fac) d h t = (None, t)"
  "ctx_err timed_ctx t = None"
  by (simp_all add: timed_fac_def timed_chain_def timed_ctx_def ChainID_def)

lemma timed_now [simp]: "now_of timed_fac t = t"
  by (simp add: now_of_def)

lemma timed_steady: "steady timed_fac"
  by (simp add: steady_def)

lemma timed_key: "payment_key timed_fac ''tx'' = hex_encode ''tx''"
  by (simp add: payment_key_def test_lib_def)

lemma timed_offline: "checkOffline timed_fac test_payload Requirements = PaymentAccepted test_tx ''tx'' Payer"
proof -
  have "checkOffline timed_fac p r = checkOffline test_fac p r" for p r
    unfolding checkOffline_def network_def timed_fields test_fields by (rule refl)
  with test_offline show ?thesis by simp
qed

text \<open>The fixture payment as it is about to be broadcast, and once it has been settled at \<open>t\<close>.\<close>

definition timed_sending :: "(nat, instant) routine" where
  "timed_sending = Sending timed_ctx (hex_encode ''tx'') ''tx'' Payer"

definition settled_table :: "instant \<Rightarrow> settlements" where
  "settled_table t = [(hex_encode ''tx'', \<lparr>st_state = Settled, st_payer = '''', st_hash = ''ab'', st_at = t\<rparr>)]"

definition settling_table :: settlements where
  "settling_table = [(hex_encode ''tx'', \<lparr>st_state = Settling, st_payer = '''', st_hash = '''', st_at = zero_time\<rparr>)]"

lemma timed_claim:
  assumes "settlementTTL < t' - t"
  shows "claim (hex_encode ''tx'') t' [] = ((unclaimed_entry, True), settling_table)"
    and "claim (hex_encode ''tx'') t' (settled_table t) = ((unclaimed_entry, True), settling_table)"
proof -
  have "expired t' \<lparr>st_state = Settled, st_payer = '''', st_hash = ''ab'', st_at = t\<rparr>"
    using assms by (auto simp: expired_def dur_sub_def settlementTTL_def time_simps)
  then show "claim (hex_encode ''tx'') t' [] = ((unclaimed_entry, True), settling_table)"
    "claim (hex_encode ''tx'') t' (settled_table t) = ((unclaimed_entry, True), settling_table)"
    by (simp_all add: claim_def Let_def gm_eval settled_table_def settling_table_def del: hex_encode.simps)
qed

lemma timed_to_sending:
  assumes "claim (hex_encode ''tx'') t st = ((unclaimed_entry, True), st')"
  shows "run_stages timed_fac 5 (Started timed_ctx test_payload Requirements, st, t) = (timed_sending, st', t)"
  using assms test_signature
  by (simp add: numeral_eq_Suc timed_offline timed_key afterClaim_def verifyAccountChecks_def timed_sending_def
      del: hex_encode.simps)

lemma timed_to_settled:
  "run_stages timed_fac 4 (Delivering timed_ctx (hex_encode ''tx'') ''ab'' Payer, settling_table, t) =
     (Finished (deliveryAnswer timed_fac ''ab'' Payer None), settled_table t, t)"
  by (simp add: numeral_eq_Suc deliveryAnswer_def recordOutcome_def markSettled_def gm_put_def settling_table_def
      settled_table_def del: hex_encode.simps)

text \<open>The process at four moments: before it broadcasts, after, and the same once its record expired.\<close>

definition timed_machine :: "settlements \<Rightarrow> instant \<Rightarrow> (nat, instant) routine \<Rightarrow> (nat, instant) machine" where
  "timed_machine st t r = \<lparr>mc_table = st, mc_world = t, mc_routine = (\<lambda>_. Ready)(0 := r)\<rparr>"

lemma timed_run:
  assumes "run_stages timed_fac n (r, st, t) = (r', st', t')"
  shows "\<exists>hs. machine_run timed_fac (timed_machine st t r) hs (timed_machine st' t' r') \<and>
    (\<forall>j k. Panicked j k \<notin> set hs) \<and> (\<forall>j. Arrived j \<notin> set hs)"
proof -
  from run_alone [of timed_fac st t "\<lambda>_. Ready" 0 r n] assms obtain hs where
    "machine_run timed_fac (timed_machine st t r) hs (timed_machine st' t' r')" "\<forall>h \<in> set hs. \<exists>b. h = Ran 0 b"
    by (auto simp: timed_machine_def)
  then show ?thesis by (intro exI [of _ hs]) auto
qed

lemma timed_arrive:
  assumes "stages_left r = 0"
  shows "machine_step timed_fac (timed_machine st t r) (Arrived 0)
    (timed_machine st t (Started timed_ctx test_payload Requirements))"
  using machine_step.arrives [of "timed_machine st t r" 0 timed_fac timed_ctx test_payload Requirements] assms
  by (simp add: timed_machine_def)

lemma timed_broadcast:
  "machine_step timed_fac (timed_machine st t timed_sending) (Ran 0 (Some (''tx'', Inr ''ab'')))
     (timed_machine st t (Delivering timed_ctx (hex_encode ''tx'') ''ab'' Payer))"
  using machine_step.runs [of "timed_machine st t timed_sending" 0 timed_fac "Delivering timed_ctx (hex_encode ''tx'') ''ab'' Payer" st t]
  by (simp add: timed_machine_def timed_sending_def del: hex_encode.simps)

lemma timed_to_broadcast:
  assumes "claim (hex_encode ''tx'') t st = ((unclaimed_entry, True), st')" "stages_left r = 0"
  shows "\<exists>hs. machine_run timed_fac (timed_machine st t r) hs (timed_machine st' t timed_sending) \<and>
    (\<forall>j k. Panicked j k \<notin> set hs)"
proof -
  from timed_run [OF timed_to_sending [OF assms(1)]] obtain hs where
    "machine_run timed_fac (timed_machine st t (Started timed_ctx test_payload Requirements)) hs
       (timed_machine st' t timed_sending)" "\<forall>j k. Panicked j k \<notin> set hs" by blast
  with mrun_cons [OF timed_arrive [OF assms(2)]] show ?thesis
    by (intro exI [of _ "Arrived 0 # hs"]) auto
qed

lemma timed_wait:
  "t \<le> t' \<Longrightarrow> machine_step timed_fac (timed_machine st t r) Outside (timed_machine st t' r)"
  using machine_step.outside [of timed_fac "timed_machine st t r" t'] by (simp add: timed_machine_def)

text \<open>A process that broadcasts the payment at 1000, and again once five minutes have passed.\<close>

definition later :: instant where "later = 1001 + settlementTTL"

theorem broadcast_once_witness:
  "settlementTTL < later - 1000 \<and>
   (\<exists>hs. machine_run timed_fac (initial_machine 1000) hs (timed_machine settling_table 1000 timed_sending))"
proof -
  have c1: "claim (hex_encode ''tx'') 1000 newSettlements = ((unclaimed_entry, True), settling_table)"
    using timed_claim(1) [of 1000 "1000 - settlementTTL - 1"] by (simp add: newSettlements_def del: hex_encode.simps)
  have c2: "claim (hex_encode ''tx'') later (settled_table 1000) = ((unclaimed_entry, True), settling_table)"
    by (rule timed_claim(2)) (simp add: later_def)
  have init: "initial_machine 1000 = timed_machine newSettlements 1000 Ready"
    by (auto simp: initial_machine_def timed_machine_def)
  obtain hs1 where hs1: "machine_run timed_fac (initial_machine 1000) hs1 (timed_machine settling_table 1000 timed_sending)"
    using timed_to_broadcast [OF c1, of Ready] unfolding init by auto
  obtain hs2 where hs2: "machine_run timed_fac (timed_machine settling_table 1000 (Delivering timed_ctx (hex_encode ''tx'') ''ab'' Payer))
      hs2 (timed_machine (settled_table 1000) 1000 (Finished (deliveryAnswer timed_fac ''ab'' Payer None)))"
      "\<forall>j k. Panicked j k \<notin> set hs2"
    using timed_run [OF timed_to_settled] by blast
  have "0 \<le> settlementTTL" by (simp add: settlementTTL_def time_simps)
  then have wait: "machine_step timed_fac (timed_machine (settled_table 1000) 1000 (Finished (deliveryAnswer timed_fac ''ab'' Payer None)))
      Outside (timed_machine (settled_table 1000) later (Finished (deliveryAnswer timed_fac ''ab'' Payer None)))"
    by (intro timed_wait) (simp add: later_def)
  obtain hs3 where hs3: "machine_run timed_fac (timed_machine (settled_table 1000) later (Finished (deliveryAnswer timed_fac ''ab'' Payer None)))
      hs3 (timed_machine settling_table later timed_sending)" "\<forall>j k. Panicked j k \<notin> set hs3"
    using timed_to_broadcast [OF c2, of "Finished (deliveryAnswer timed_fac ''ab'' Payer None)"] by auto
  note between = machine_run_append [OF hs2(1) mrun_cons [OF wait hs3(1)]]
  have "settlementTTL < now_of timed_fac (mc_world (timed_machine settling_table later timed_sending)) -
      now_of timed_fac (mc_world (timed_machine settling_table 1000 (Delivering timed_ctx (hex_encode ''tx'') ''ab'' Payer)))"
    by (rule broadcast_once [OF timed_steady _ hs1 timed_broadcast _ between _ timed_broadcast refl])
      (use hs2(2) hs3(2) in \<open>auto simp: zero_time_def\<close>)
  with hs1 show ?thesis by (auto simp: timed_machine_def)
qed

theorem machine_refines_witness:
  "\<exists>s i. reachable s \<and> sys_table s = settling_table \<and> working_on s i (hex_encode ''tx'')"
proof -
  have init: "initial_machine 1000 = timed_machine newSettlements 1000 Ready"
    by (auto simp: initial_machine_def timed_machine_def)
  have "claim (hex_encode ''tx'') 1000 newSettlements = ((unclaimed_entry, True), settling_table)"
    using timed_claim(1) [of 1000 "1000 - settlementTTL - 1"] by (simp add: newSettlements_def del: hex_encode.simps)
  from timed_to_broadcast [OF this, of Ready] obtain hs
    where "machine_run timed_fac (initial_machine 1000) hs (timed_machine settling_table 1000 timed_sending)"
    unfolding init by auto
  from machine_refines [OF timed_steady _ this] obtain s where
    s: "reachable s" "sys_table s = settling_table"
      "working_on s 0 key \<longleftrightarrow> holds (mc_routine (timed_machine settling_table 1000 timed_sending) 0) = Some key" for key
    by (auto simp: zero_time_def timed_machine_def)
  from s(3) [of "hex_encode ''tx''"] have "working_on s 0 (hex_encode ''tx'')"
    by (simp add: timed_machine_def timed_sending_def del: hex_encode.simps)
  with s show ?thesis by blast
qed

lemma timed_plain: "plain_node timed_fac" "plain_ctx timed_ctx"
  by (simp_all add: plain_node_def plain_ctx_def)

text \<open>The fixture payment arrives, is settled, and is answered under the hash the node gave.\<close>

theorem reported_hash_given_witness:
  "\<exists>hs m' j raw'. run_within plain_requests timed_fac (initial_machine 1000) hs m' \<and>
     mc_routine m' 0 = Finished (deliveryAnswer timed_fac ''ab'' Payer None) \<and>
     Ran j (Some (raw', Inr ''ab'')) \<in> set hs \<and> payment_key timed_fac raw' = payment_key timed_fac ''tx''"
proof -
  let ?start = "timed_machine newSettlements 1000 (Started timed_ctx test_payload Requirements)"
  let ?last = "timed_machine (settled_table 1000) 1000 (Finished (deliveryAnswer timed_fac ''ab'' Payer None))"
  have init: "initial_machine 1000 = timed_machine newSettlements 1000 Ready"
    by (auto simp: initial_machine_def timed_machine_def)
  have plain: "plain_requests (initial_machine 1000 :: (nat, instant) machine)" "plain_requests ?start"
    by (simp_all add: plain_requests_def initial_machine_def timed_machine_def timed_plain)
  have "claim (hex_encode ''tx'') 1000 newSettlements = ((unclaimed_entry, True), settling_table)"
    using timed_claim(1) [of 1000 "1000 - settlementTTL - 1"] by (simp add: newSettlements_def del: hex_encode.simps)
  from timed_run [OF timed_to_sending [OF this]] obtain hs1 where
    hs1: "machine_run timed_fac ?start hs1 (timed_machine settling_table 1000 timed_sending)" "\<forall>j. Arrived j \<notin> set hs1"
    by blast
  obtain hs2 where hs2: "machine_run timed_fac (timed_machine settling_table 1000 (Delivering timed_ctx (hex_encode ''tx'') ''ab'' Payer)) hs2 ?last"
    "\<forall>j. Arrived j \<notin> set hs2"
    using timed_run [OF timed_to_settled] by blast
  let ?hs = "hs1 @ Ran 0 (Some (''tx'', Inr ''ab'')) # hs2"
  have arrive: "machine_step timed_fac (initial_machine 1000) (Arrived 0) ?start"
    unfolding init by (rule timed_arrive) simp
  have "run_within plain_requests timed_fac ?start [] ?start" using plain(2) by (rule within_nil)
  with plain(1) arrive have first: "run_within plain_requests timed_fac (initial_machine 1000) [Arrived 0] ?start"
    by (rule within_cons)
  have "machine_run timed_fac ?start ?hs ?last"
    by (rule machine_run_append [OF hs1(1) mrun_cons [OF timed_broadcast hs2(1)]])
  then have rest: "run_within plain_requests timed_fac ?start ?hs ?last"
    by (rule run_within_plain) (use plain(2) hs1(2) hs2(2) in auto)
  have "reported_hash (deliveryAnswer timed_fac ''ab'' Payer None) = ''ab''" by (rule reported_delivery)
  with reported_hash_given [OF timed_plain(1) first _ timed_offline rest, of 0 timed_ctx
      "deliveryAnswer timed_fac ''ab'' Payer None"] hs1(2) hs2(2)
  obtain j raw' where "Ran j (Some (raw', Inr ''ab'')) \<in> set ([Arrived 0] @ ?hs)"
    "payment_key timed_fac raw' = payment_key timed_fac ''tx''"
    by (auto simp: timed_machine_def)
  moreover have "run_within plain_requests timed_fac (initial_machine 1000) ([Arrived 0] @ ?hs) ?last"
    using within_cons [where P = plain_requests, OF plain(1) arrive rest] by simp
  moreover have "mc_routine ?last 0 = Finished (deliveryAnswer timed_fac ''ab'' Payer None)"
    by (simp add: timed_machine_def)
  ultimately show ?thesis by blast
qed

end
