(* ===== verification/Spec2Isabelle.thy ===== *)
theory Spec2Isabelle
  imports Buyer_Example Exact_Fixtures Server_Exact Gnofacilitator_Main Request_Text Keybase_Signer Rate_Sustained
    Peer_Address Weather_Main X402_Gno Machine_Example
begin

text \<open>
  x402 payments on gno.land: a model of the Go program of this repository and what makes it correct.

  \<^bold>\<open>The program.\<close> A seller answers 402 with an offer; a buyer signs a bank send for it and repeats the
  request with the signed transaction; the seller asks a facilitator to verify the payment, serves
  the resource, and asks the facilitator to settle it. The parts under \<open>src/\<close> and the theories that
  model them, in the order they depend on each other:

  \<^item> \<open>X402_Prelude\<close>, \<open>Go_Encoding\<close>, \<open>Go_Float64\<close>, \<open>Float_Bounds\<close>, \<open>Go_Json\<close>, \<open>Go_Json_Text\<close>, \<open>Json_Roundtrip\<close>,
    \<open>Go_Fmt\<close>, \<open>Go_Values\<close>, \<open>Go_Http\<close>, \<open>Go_Handler\<close>: what the code uses of Go and its standard library. Bytes, maps and
    time; base64 and hex; binary64 arithmetic and how far its rounding goes; JSON, its values, its
    text as \<open>encoding/json\<close> scans and writes it, and their round trip; decimals and what \<open>fmt\<close> writes of a value; headers, queries, bodies
    read up to a limit; handlers and response writers.
  \<^item> \<open>X402_Types\<close>: requirements, payloads, transactions, accounts and errors, and \<open>gno_lib\<close>, the record
    of functions that the linked tm2, gnoclient and x402 libraries compute. They are parameters:
    every theorem holds for any of them, or names the documented laws it needs
    (\<open>library_laws\<close>, which of amino speaks of payments only, \<open>coin_law\<close>, \<open>client_law\<close>, \<open>schemes_alone\<close>).
  \<^item> \<open>Scheme_Rules\<close> (\<open>internal/scheme\<close>): the chain-id grammar and the memo cap both sides enforce.
  \<^item> \<open>Settlements\<close> (\<open>facilitator/exact/settlements.go\<close>): the table of payments being settled or settled.
    \<open>Settle_Steps\<close> interleaves its operations over any number of goroutines, as a step relation with
    its reachable states and their invariant.
  \<^item> \<open>Signer_Account\<close>, \<open>Verify_Static\<close>, \<open>Facilitator_Checks\<close>, \<open>Facilitator_Settle\<close>
    (\<open>facilitator/exact/{account,verify,facilitator}.go\<close>): the facilitator's decision about a payment
    and its settlement. \<open>Settle_Machine\<close> runs many settles at once, each in its stages, over one node, one
    clock and one table, \<open>Settle_Provenance\<close> follows where the hashes it reports come from, and
    \<open>Machine_Example\<close> is a process it runs. \<open>Exact_Test\<close> and \<open>Exact_Fixtures\<close> (\<open>exacttest\<close>) are the scripted chain the examples
    run on, and the payments the tests sign.
  \<^item> \<open>Gnoclient_Node\<close> (\<open>facilitator/exact/node.go\<close>): the facilitator's chain access.
  \<^item> \<open>Rate_Limiter\<close>, \<open>Rate_Sustained\<close>, \<open>Peer_Address\<close> (\<open>facilitator/ratelimit.go\<close>): the limiter, what it grants
    over time, and the key of a request. \<open>Throttle\<close> holds the argument any token bucket's bound rests on.
  \<^item> \<open>Facilitator_Server\<close>, \<open>Request_Text\<close> (\<open>facilitator/facilitator.go\<close>): the HTTP transport, from the bytes of
    a request body to the answer.
  \<^item> \<open>Gnofacilitator_Main\<close> (\<open>cmd/gnofacilitator\<close>): the command, from its flags to how it ends.
  \<^item> \<open>Client_Exact\<close> (\<open>client/exact/scheme.go\<close>): the buyer's mechanism, from an offer to a signed payload.
    \<open>Buyer_Example\<close> is the offer and the buyer its examples run on, and \<open>Wire_Codec\<close> the encoding of
    transactions they use in amino's place.
  \<^item> \<open>Client_Node\<close> (\<open>client/exact/node.go\<close>): the buyer's chain access, JSON-RPC over one GET a read.
  \<^item> \<open>Keybase_Signer\<close> (\<open>client/exact/keybase\<close>): the signer over a tm2 keybase.
  \<^item> \<open>Server_Exact\<close> (\<open>server/exact/scheme.go\<close>): the seller's prices and terms.
  \<^item> \<open>Weather_Rate\<close>, \<open>Weather_Visits\<close>, \<open>Weather_Served\<close>, \<open>Weather_Sync\<close>, \<open>Weather_Main\<close>
    (\<open>examples/weather/{ratelimit,visits,sync,main,serve}.go\<close>): the seller. Its backstop, the book of
    payments its pages look up, how a response is remembered, how it asks its facilitator again, and
    what it offers and serves.
  \<^item> \<open>Buyer_Frame\<close>, \<open>X402_Gno\<close> (\<open>examples/weather/x402-gno\<close>): what the buyer's mechanism leaves of the world
    as it was, and the buyer's command, one paid GET.

  \<^bold>\<open>How code becomes definitions.\<close> A Go function is a HOL function of the same name, with its guards and
  early returns in the code's order; a method whose name another type has too is prefixed
  (\<open>gn_Broadcast\<close>, \<open>rpc_call\<close>). A call that may fail returns a sum, \<open>Inl\<close> the error; errors keep
  their types, what they wrap and their wording, which \<open>error_text\<close> puts together; only what
  \<open>encoding/json\<close>, \<open>net/url\<close> and the network say is a word in its place. A call into the world (the
  node, the clock, the signer, the HTTP client) takes the world, a type variable, and returns the one
  after it. An int64 is a \<open>64 word\<close>; \<open>big.Int\<close> is \<open>int\<close>. An HTTP handler is the calls it makes on its
  response writer. A mutex makes what it guards one step. Log records are left out.

  \<^bold>\<open>What the lemmas show.\<close> The facilitator: \<open>Verify\<close> accepts exactly the payments its rules and the chain
  accept (\<open>Verify_valid_iff\<close>, \<open>verifyStatic_iff\<close>); an unreachable chain is no verdict, all the way to
  the HTTP answer (\<open>Verify_no_verdict_iff\<close>, \<open>http_answer_is_verdict\<close>); a payment is broadcast only when
  verified (\<open>broadcast_only_verified\<close>), by one goroutine (\<open>settle_exclusive\<close>), and, once admitted, not
  again for as long as it is kept on record, however the settles interleave (\<open>broadcast_once\<close>); a hash an
  answer carries is one a node gave for that payment (\<open>reported_hash_given\<close>); the interleaved settles are
  settles (\<open>settle_stages\<close>) and refine the table's own steps (\<open>machine_refines\<close>). The transport: a body is the text of one request, whole
  (\<open>readRequest_iff\<close>, \<open>request_roundtrip\<close>); what is throttled, refused or malformed never reaches the
  engine (\<open>refused_before_engine\<close>); a peer, and an IPv6 /64 as one peer but for the addresses of it that name
  a zone, is granted its burst and its rate and no more (\<open>sustained_rate\<close>, \<open>block_shares_budget\<close>), and is never shut out
  (\<open>granted_after_wait\<close>); the table of peers is bounded and sweeping it decides nothing.

  The buyer: what is signed is exactly the offer (\<open>Prepare_iff\<close>), after every check and as the last
  step (\<open>signed_only_after_checks\<close>), at a bounded fee, over an account the node answered for by name
  (\<open>prepared_over_asked_account\<close>), with the key that was resolved (\<open>payload_signed_by_resolved_key\<close>). A
  run of its command pays at most once and at most 1 GNOT, and exits 0 exactly when it was served
  (\<open>pays_at_most_once\<close>, \<open>buyer_spends_at_most\<close>, \<open>exit_zero_iff_served\<close>), given that its RPC client, its
  keybase and the upstream client ask the seller nothing of their own (\<open>asks_seller_alone\<close>). The seller: what it can cost its
  facilitator is bounded (\<open>middleware_calls_bounded\<close>), it catches up with a facilitator that was down
  (\<open>sync_catches_up\<close>), and a page finds the first payment made for it, whole, in a bounded book, while the
  response itself is untouched (\<open>page_learns_payment\<close>, \<open>visits_bounded\<close>, \<open>served_unchanged\<close>).

  Across the parts, below: one memo rule; a payment the buyer makes is one the facilitator accepts
  (\<open>buyer_payment_verifies\<close>), and posted to /settle it is settled and reported so
  (\<open>payment_settles_over_http\<close>), the engine between the two assumed to hand it to the mechanism
  (\<open>engine_law\<close>); a verdict reaches the HTTP answer as it is; and an IPv6 /64 has one budget, save its zoned addresses.

  \<^bold>\<open>Interfaces.\<close> Locales, each interpreted on the model's definitions where those are declared: \<open>codec\<close>
  (base64, hex), \<open>go_map\<close> (the tables), \<open>throttle\<close> and \<open>metered\<close>. A \<open>throttle\<close> has an allowance each grant
  uses up, which bounds the grants at one instant; what is \<open>metered\<close> has a level that grants lower and
  time raises at a rate, which bounds them over any stretch of time. The facilitator's limiter is
  both, the weather seller's bucket is metered.

  \<^bold>\<open>Loops.\<close> The wait for a delivery, the startup check and the seller's sync may run for ever and are
  partial functions; when they return is proved (\<open>await_delivery_iff\<close>, \<open>retryChainID_returns\<close>,
  \<open>sync_catches_up\<close>). No definition takes fuel but the search for a float's
  shortest digits, of which 17 always do.

  \<^bold>\<open>Bounds.\<close> The arithmetic of the limiters is binary64 with each operation rounded, as Go computes it
  where it does not fuse a multiplication and an addition. The theorems on grants hold for a finite
  rate and a burst up to \<open>2 ^ 53\<close>, and state what the rounding may add: a part in \<open>2 ^ 48\<close> of the rate
  and in \<open>2 ^ 21\<close> of the burst, each second. A JSON text nests at most 10000 deep, as the scanner has it.

  \<^bold>\<open>Not modelled.\<close> What runs in a browser or in another language: the TypeScript mechanism, the paywall
  page and its template. What the linked libraries do inside: they are parameters, and so are the
  upstream payment middleware, the upstream client and the HTTP client. The HTTP servers' timeouts,
  signals and panics of a handler, which \<open>net/http\<close> and the runtime act on; of a panic within a settle
  the deferred release is a step of \<open>Settle_Machine\<close>. Log records.
\<close>

section \<open>Properties that span components\<close>

subsection \<open>One memo rule\<close>

lemma memo_rules_agree:
  "checkMemo extra = None \<longleftrightarrow> (\<exists>m. memo extra = Inr m)" "memo extra = Inr m \<longleftrightarrow> boundMemo extra = Inr m"
  by (auto simp: checkMemo_def memo_def boundMemo_def split: option.splits any_value.splits)

text \<open>
  The three roles take the same memos: the seller publishes an offer exactly when the facilitator
  can read the memo it binds, and that is exactly when the buyer signs one, the same one.
\<close>

theorem memo_rule_agrees:
  "(checkMemo extra = None \<longleftrightarrow> (\<exists>m. memo extra = Inr m)) \<and> (memo extra = Inr m \<longleftrightarrow> boundMemo extra = Inr m)"
  using memo_rules_agree by blast

subsection \<open>What the buyer signs, the facilitator accepts\<close>

text \<open>
  A payment: a transaction of one bank send of one coin, with a fee, under one signature that carries
  its key, and valid as the linked library's \<open>ValidateBasic\<close> has it.
\<close>

definition signed_payment :: "'pk gno_lib \<Rightarrow> 'pk std_tx \<Rightarrow> bool" where
  "signed_payment lib tx \<longleftrightarrow>
     (\<exists>send price g pk. tx_msgs tx = [BankSend send] \<and> send_amount send = [price] \<and> send_validate lib send = None \<and>
        tx_signatures tx = [g] \<and> sig_pub_key g = Some pk) \<and>
     0 < sint (coin_amount (gas_fee (tx_fee tx))) \<and> tx_validate lib tx = None"

text \<open>
  What the two sides rely on in the linked libraries: amino decodes the payments it encodes; a coin is
  made with the denomination and the amount it is made of; a sign doc leaves the signatures out; the
  signer of a transaction of one bank send is its sender; the zero address is the zero one; and a key
  equals itself. Of other transactions nothing is assumed: the empty one is encoded as no bytes, and a
  coin of amount zero loses its denomination.
\<close>

definition library_laws :: "'pk gno_lib \<Rightarrow> bool" where
  "library_laws lib \<longleftrightarrow>
     (\<forall>tx raw. signed_payment lib tx \<and> marshal_tx lib tx = Inr raw \<longrightarrow> raw \<noteq> [] \<and> unmarshal_tx lib raw = Some tx) \<and>
     coin_law lib \<and>
     (\<forall>pk tx sigs c n s sig. verify_payload lib pk (tx\<lparr>tx_signatures := sigs\<rparr>) c n s sig = verify_payload lib pk tx c n s sig) \<and>
     (\<forall>tx send. tx_msgs tx = [BankSend send] \<longrightarrow> get_signers lib tx = [from_address send]) \<and>
     (\<forall>a. address_is_zero lib a \<longleftrightarrow> a = zero_address) \<and> (\<forall>pk. pk_equals lib pk pk)"

text \<open>The account a facilitator's node returns is the one the payment was prepared over.\<close>

definition same_account :: "'pk gno_lib \<Rightarrow> 'pk payment \<Rightarrow> 'pk std_account \<Rightarrow> bool" where
  "same_account lib p acc \<longleftrightarrow> acc_number acc = pay_number p \<and> acc_sequence acc = pay_sequence p \<and>
     (acc_pub_key acc = pay_pub_key p \<or> acc_pub_key acc = None \<and> address_is_zero lib (pay_session p))"

text \<open>What a payload that was created holds.\<close>

lemma CreatePaymentPayload_made:
  assumes "CreatePaymentPayload s ctx_error req cap w = (Inr sp, w')"
  obtains sg pk p w1 sig tx raw where "egs_signer s = Some sg" "sg_pub_key sg = Some pk"
    "Prepare (egs_lib s) (egs_node s) (Some pk) (egs_master s) req cap w = (Inr p, w1)" "pay_pub_key p = Some pk"
    "tx = (pay_tx p)\<lparr>tx_signatures := [\<lparr>sig_pub_key = Some pk, sig_bytes = sig, sig_session = pay_session p\<rparr>]\<rparr>"
    "pk_address (egs_lib s) pk = payment_signer (egs_lib s) p"
    "\<exists>r. r \<noteq> PayloadRenderingNone \<and> verify_payload (egs_lib s) pk (pay_tx p) (pay_chain_id p) (pay_number p) (pay_sequence p) sig = Inr r"
    "tx_validate (egs_lib s) tx = None" "marshal_tx (egs_lib s) tx = Inr raw"
    "sp = \<lparr>sp_version = 2, sp_payload = Some [(''transaction'', AnyString (b64_encode raw))]\<rparr>"
proof -
  obtain sg where sg: "egs_signer s = Some sg"
    using assms by (cases "egs_signer s") (auto simp: CreatePaymentPayload_def)
  obtain r w1 where r: "Prepare (egs_lib s) (egs_node s) (sg_pub_key sg) (egs_master s) req cap w = (r, w1)"
    by fastforce
  obtain p where p: "r = Inr p"
    using assms sg r by (cases r) (auto simp: CreatePaymentPayload_def split: if_splits)
  obtain b sig w2 where "Payload (egs_lib s) p sig = Inr sp"
    using assms sg r p by (auto simp: CreatePaymentPayload_def split: if_splits option.splits sum.splits prod.splits)
  then obtain pk raw where *: "pay_pub_key p = Some pk" "pk_address (egs_lib s) pk = payment_signer (egs_lib s) p"
    "\<exists>r. r \<noteq> PayloadRenderingNone \<and> verify_payload (egs_lib s) pk (pay_tx p) (pay_chain_id p) (pay_number p) (pay_sequence p) sig = Inr r"
    "tx_validate (egs_lib s) ((pay_tx p)\<lparr>tx_signatures := [\<lparr>sig_pub_key = Some pk, sig_bytes = sig, sig_session = pay_session p\<rparr>]\<rparr>) = None"
    "marshal_tx (egs_lib s) ((pay_tx p)\<lparr>tx_signatures := [\<lparr>sig_pub_key = Some pk, sig_bytes = sig, sig_session = pay_session p\<rparr>]\<rparr>) = Inr raw"
    "sp = \<lparr>sp_version = 2, sp_payload = Some [(''transaction'', AnyString (b64_encode raw))]\<rparr>"
    unfolding Payload_def Let_def by (auto split: option.splits sum.splits if_splits)
  have "sg_pub_key sg = Some pk"
    using r * (1) unfolding p Prepare_spec by (auto simp: payment_for_def Let_def)
  with that sg r p * show thesis by metis
qed

text \<open>An offer the buyer pays is one the facilitator of its chain takes.\<close>

lemma acceptable_offer_rules:
  assumes "acceptable_offer lib req t" "network f = req_network req" "pp_accepted payload = req"
  shows "offer_rules f payload req" "memo (req_extra req) = Inr (t_memo t)" "fac_chain_id f = t_chain_id t"
proof -
  show "offer_rules f payload req"
    using assms by (auto simp: offer_rules_def acceptable_offer_def acceptsSameOffer_def unsupportedTerms_def
        AssetTransferMethod_def PaymentFlowAuthorization_def)
  show "memo (req_extra req) = Inr (t_memo t)"
    using assms(1) by (simp add: acceptable_offer_def memo_rules_agree(2))
  show "fac_chain_id f = t_chain_id t"
    using assms(1,2) by (auto simp: acceptable_offer_def chainIDOf_iff network_def)
qed

lemma prepared_payment:
  assumes "Prepare lib nd (Some pk) master req cap w = (Inr p, w1)"
  obtains t fee account price where "acceptable_offer lib req t" "\<not> pk_multisig lib pk"
    "p = payment_for lib t fee pk master account" "payment_fee lib price = Inr fee"
    "send_validate lib \<lparr>from_address = (if address_is_zero lib master then pk_address lib pk else master),
       to_address = t_pay_to t, send_amount = [t_price t]\<rparr> = None"
  using assms unfolding Prepare_spec by blast

lemma session_key_signer:
  assumes "pk_address lib pk = payment_signer lib (payment_for lib t fee pk master account)"
    "address_is_zero lib (pk_address lib pk)"
  shows "address_is_zero lib master"
proof (rule ccontr)
  assume master: "\<not> address_is_zero lib master"
  then have "payment_signer lib (payment_for lib t fee pk master account) = master"
    using assms(2) by (simp add: payment_signer_def payment_for_def Let_def)
  with assms master show False by simp
qed

text \<open>The transaction of a payload, and what the facilitator's static rules make of it.\<close>

lemma prepared_static:
  assumes laws: "library_laws lib" and t: "acceptable_offer lib req t" "\<not> pk_multisig lib pk"
    and p: "p = payment_for lib t fee pk master account" and fee: "payment_fee lib price = Inr fee"
    and valid: "send_validate lib \<lparr>from_address = (if address_is_zero lib master then pk_address lib pk else master),
       to_address = t_pay_to t, send_amount = [t_price t]\<rparr> = None" "tx_validate lib tx = None"
    and tx: "tx = (pay_tx p)\<lparr>tx_signatures := [\<lparr>sig_pub_key = Some pk, sig_bytes = sig, sig_session = pay_session p\<rparr>]\<rparr>"
    and raw: "marshal_tx lib tx = Inr raw" and m: "memo (req_extra req) = Inr (t_memo t)"
  shows "\<exists>send. tx_msgs tx = [BankSend send] \<and> static_rules lib req raw tx send \<and>
    txSigner lib tx = Inr (from_address send) \<and>
    from_address send = (if address_is_zero lib master then pk_address lib pk else master)"
proof -
  let ?send = "\<lparr>from_address = (if address_is_zero lib master then pk_address lib pk else master),
    to_address = t_pay_to t, send_amount = [t_price t]\<rparr>"
  have msgs: "tx_msgs tx = [BankSend ?send]"
    by (simp add: tx p payment_for_def Let_def)
  have "gas_fee (tx_fee tx) = fee" by (simp add: tx p payment_for_def Let_def)
  moreover have "0 < sint (coin_amount fee)"
    using payment_fee_positive fee laws unfolding library_laws_def by blast
  ultimately have "signed_payment lib tx"
    using msgs valid by (simp add: signed_payment_def tx)
  then have "raw \<noteq> []" "unmarshal_tx lib raw = Some tx" "get_signers lib tx = [from_address ?send]"
    using laws raw msgs unfolding library_laws_def by blast+
  moreover have "tx_memo tx = t_memo t" "length (tx_signatures tx) = 1"
    by (simp_all add: tx p payment_for_def Let_def)
  ultimately show ?thesis
    using t m msgs by (intro exI [of _ ?send])
      (auto simp: static_rules_def acceptable_offer_def txSigner_def tx)
qed

lemma prepared_fresh:
  assumes laws: "library_laws lib"
    and p: "p = payment_for lib t fee pk master account"
    and tx: "tx = (pay_tx p)\<lparr>tx_signatures := [\<lparr>sig_pub_key = Some pk, sig_bytes = sig, sig_session = pay_session p\<rparr>]\<rparr>"
    and ver: "\<exists>r. r \<noteq> PayloadRenderingNone \<and>
      verify_payload lib pk (pay_tx p) (pay_chain_id p) (pay_number p) (pay_sequence p) sig = Inr r"
    and acc: "same_account lib p acc"
    and signer: "signer = (if address_is_zero lib master then pk_address lib pk else master)"
    and zero: "address_is_zero lib (pk_address lib pk) \<longrightarrow> address_is_zero lib master"
  shows "verifySignature lib tx (Some acc) signer (pay_chain_id p) = SignatureFresh"
proof -
  have "pay_pub_key p = Some pk" by (simp add: p payment_for_def Let_def)
  moreover have "address_is_zero lib (pay_session p) \<Longrightarrow> signer = pk_address lib pk"
    using zero signer by (auto simp: p payment_for_def Let_def split: if_splits)
  ultimately have "signingKey lib (tx_signatures tx ! 0) (Some acc) signer = Some pk"
    using acc laws by (auto simp: signingKey_def pubKey_def same_account_def tx library_laws_def)
  moreover have "verify_payload lib pk tx (pay_chain_id p) (pay_number p) (pay_sequence p) sig =
      verify_payload lib pk (pay_tx p) (pay_chain_id p) (pay_number p) (pay_sequence p) sig"
    using laws unfolding tx library_laws_def by blast
  ultimately show ?thesis
    using ver acc
    by (auto simp: verifySignature_def verifies_def Signer_Account.number_def Signer_Account.sequence_def
        same_account_def tx split: sum.splits)
qed

text \<open>What becomes of a payment that was created, once a facilitator of its chain has it.\<close>

lemma buyer_payment_checked:
  assumes made: "CreatePaymentPayload s ctx_error req cap w = (Inr sp, w')"
    and laws: "library_laws (egs_lib s)" and lib: "fac_lib f = egs_lib s"
    and net: "network f = req_network req"
    and payload: "payload = \<lparr>pp_version = sp_version sp, pp_accepted = req, pp_payload = sp_payload sp\<rparr>"
  obtains sg pk p w1 tx raw send where "egs_signer s = Some sg" "sg_pub_key sg = Some pk"
    "Prepare (egs_lib s) (egs_node s) (Some pk) (egs_master s) req cap w = (Inr p, w1)"
    "tx_msgs tx = [BankSend send]" "static_rules (egs_lib s) req raw tx send"
    "from_address send = (if address_is_zero (egs_lib s) (egs_master s) then pk_address (egs_lib s) pk else egs_master s)"
    "checkOffline f payload req = PaymentAccepted tx raw (address_string (egs_lib s) (from_address send))"
    "sp_version sp = 2" "req_scheme req = schemeExact"
    "\<forall>wf acc wf1 wf2 payer. node_signer_account (fac_node f) tx wf = (Inr (Some acc), wf1) \<and>
      same_account (egs_lib s) p acc \<and> node_simulate (fac_node f) tx wf1 = (None, wf2) \<longrightarrow>
      checkOnChain f tx raw payer wf = (PaymentAccepted tx raw payer, wf2)"
proof -
  let ?lib = "egs_lib s" and ?m = "egs_master s"
  from made obtain sg pk p w1 sig tx raw where c: "egs_signer s = Some sg" "sg_pub_key sg = Some pk"
    "Prepare ?lib (egs_node s) (Some pk) ?m req cap w = (Inr p, w1)"
    "tx = (pay_tx p)\<lparr>tx_signatures := [\<lparr>sig_pub_key = Some pk, sig_bytes = sig, sig_session = pay_session p\<rparr>]\<rparr>"
    "pk_address ?lib pk = payment_signer ?lib p"
    "\<exists>r. r \<noteq> PayloadRenderingNone \<and>
      verify_payload ?lib pk (pay_tx p) (pay_chain_id p) (pay_number p) (pay_sequence p) sig = Inr r"
    "tx_validate ?lib tx = None" "marshal_tx ?lib tx = Inr raw"
    "sp = \<lparr>sp_version = 2, sp_payload = Some [(''transaction'', AnyString (b64_encode raw))]\<rparr>"
    by (rule CreatePaymentPayload_made)
  obtain t fee account price where t: "acceptable_offer ?lib req t" "\<not> pk_multisig ?lib pk"
    "p = payment_for ?lib t fee pk ?m account" "payment_fee ?lib price = Inr fee"
    "send_validate ?lib \<lparr>from_address = (if address_is_zero ?lib ?m then pk_address ?lib pk else ?m),
       to_address = t_pay_to t, send_amount = [t_price t]\<rparr> = None" by (rule prepared_payment [OF c(3)])
  have offer: "offer_rules f payload req" "memo (req_extra req) = Inr (t_memo t)" "fac_chain_id f = t_chain_id t"
    using acceptable_offer_rules [OF t(1) net, of payload] by (simp_all add: payload)
  from prepared_static [OF laws t c(7,4,8) offer(2)] obtain send where send: "tx_msgs tx = [BankSend send]"
    "static_rules ?lib req raw tx send" "txSigner ?lib tx = Inr (from_address send)"
    "from_address send = (if address_is_zero ?lib ?m then pk_address ?lib pk else ?m)" by blast
  have tr: "transactionOf (pp_payload payload) = Inr (b64_encode raw)" "b64_decode (b64_encode raw) = Some raw"
    by (simp_all add: payload c(9) transactionOf_def any_get_def b64_roundtrip)
  have "address_is_zero ?lib (pk_address ?lib pk) \<longrightarrow> address_is_zero ?lib ?m"
    using session_key_signer c(5) t(3) by metis
  note fresh = prepared_fresh [OF laws t(3) c(4,6) _ send(4) this]
  have chain: "pay_chain_id p = fac_chain_id f" by (simp add: offer(3) t(3) payment_for_def Let_def)
  have "checkOffline f payload req = PaymentAccepted tx raw (address_string ?lib (from_address send))"
    unfolding checkOffline_accepts_iff lib using offer(1) tr send(2) by blast
  moreover have "\<forall>wf acc wf1 wf2 payer. node_signer_account (fac_node f) tx wf = (Inr (Some acc), wf1) \<and>
      same_account ?lib p acc \<and> node_simulate (fac_node f) tx wf1 = (None, wf2) \<longrightarrow>
      checkOnChain f tx raw payer wf = (PaymentAccepted tx raw payer, wf2)"
    using fresh send(3) by (auto simp: checkOnChain_def verifyAccountChecks_def lib chain)
  moreover have "req_scheme req = schemeExact" using t(1) by (simp add: acceptable_offer_def schemeExact_def)
  ultimately show thesis using that c(1-3,9) send by auto
qed

text \<open>
  C2. A payment the buyer's mechanism created for an offer passes the facilitator of the offer's chain:
  the offline rules accept it and name as payer the account that pays, and whenever the facilitator's
  node returns the account the payment was prepared over and simulates it successfully, Verify
  answers that it is valid. This holds for a payer's own key and for a session key alike.
\<close>

theorem buyer_payment_verifies:
  assumes made: "CreatePaymentPayload s ctx_error req cap w = (Inr sp, w')"
    and laws: "library_laws (egs_lib s)" and lib: "fac_lib f = egs_lib s"
    and net: "network f = req_network req"
    and payload: "payload = \<lparr>pp_version = sp_version sp, pp_accepted = req, pp_payload = sp_payload sp\<rparr>"
  shows "\<exists>sg pk p w1 tx raw payer. egs_signer s = Some sg \<and> sg_pub_key sg = Some pk \<and>
    Prepare (egs_lib s) (egs_node s) (Some pk) (egs_master s) req cap w = (Inr p, w1) \<and>
    checkOffline f payload req = PaymentAccepted tx raw payer \<and>
    payer = address_string (egs_lib s)
      (if address_is_zero (egs_lib s) (egs_master s) then pk_address (egs_lib s) pk else egs_master s) \<and>
    (\<forall>wf acc wf1 wf2. node_signer_account (fac_node f) tx wf = (Inr (Some acc), wf1) \<and>
       same_account (egs_lib s) p acc \<and> node_simulate (fac_node f) tx wf1 = (None, wf2) \<longrightarrow>
       Verify f payload req wf = (Inr \<lparr>vr_valid = True, vr_reason = '''', vr_payer = payer\<rparr>, wf2))"
proof -
  obtain sg pk p w1 tx raw send where c: "egs_signer s = Some sg" "sg_pub_key sg = Some pk"
    "Prepare (egs_lib s) (egs_node s) (Some pk) (egs_master s) req cap w = (Inr p, w1)"
    "tx_msgs tx = [BankSend send]"
    "from_address send = (if address_is_zero (egs_lib s) (egs_master s) then pk_address (egs_lib s) pk else egs_master s)"
    "checkOffline f payload req = PaymentAccepted tx raw (address_string (egs_lib s) (from_address send))"
    and chain: "\<forall>wf acc wf1 wf2 payer. node_signer_account (fac_node f) tx wf = (Inr (Some acc), wf1) \<and>
      same_account (egs_lib s) p acc \<and> node_simulate (fac_node f) tx wf1 = (None, wf2) \<longrightarrow>
      checkOnChain f tx raw payer wf = (PaymentAccepted tx raw payer, wf2)"
    by (rule buyer_payment_checked [OF assms]) (rule that)
  show ?thesis
    by (rule exI [of _ sg], rule exI [of _ pk], rule exI [of _ p], rule exI [of _ w1], rule exI [of _ tx],
        rule exI [of _ raw], rule exI [of _ "address_string (egs_lib s) (from_address send)"])
      (use c chain in \<open>auto simp: Verify_def check_def\<close>)
qed

subsection \<open>A payment, concretely\<close>

lemma buyer_laws: "library_laws buyer_lib"
  using wire_roundtrip
  by (auto simp: library_laws_def buyer_lib_def test_lib_def signed_payment_def coin_law_def)

theorem buyer_payment_verifies_witness:
  "Verify buyer_fac buyer_payload Requirements test_world =
     (Inr \<lparr>vr_valid = True, vr_reason = '''', vr_payer = Payer\<rparr>, test_world\<lparr>tn_simulates := 1\<rparr>)"
proof -
  have "network buyer_fac = req_network Requirements"
    by (simp add: network_def buyer_fac_def test_fac_def Requirements_def)
  from buyer_payment_verifies [OF buyer_creates _ _ this refl] buyer_laws
  obtain tx raw where "checkOffline buyer_fac buyer_payload Requirements = PaymentAccepted tx raw Payer"
    and answer: "\<And>wf acc wf1 wf2. node_signer_account test_chain tx wf = (Inr (Some acc), wf1) \<Longrightarrow>
      same_account buyer_lib buyer_payment acc \<Longrightarrow> node_simulate test_chain tx wf1 = (None, wf2) \<Longrightarrow>
      Verify buyer_fac buyer_payload Requirements wf = (Inr \<lparr>vr_valid = True, vr_reason = '''', vr_payer = Payer\<rparr>, wf2)"
    unfolding buyer_fields
    by (auto simp: buyer_fields(5) buyer_prepares buyer_lib_simps buyer_payload_def PaymentPayload_def simp del: b64_encode.simps)
  show ?thesis
    by (rule answer [where acc = "\<lparr>acc_pub_key = Some 11, acc_number = 7, acc_sequence = 3\<rparr>" and ?wf1.0 = test_world])
      (simp_all add: test_node_defs test_world_def same_account_def buyer_payment_def payment_for_def Let_def)
qed

theorem payment_fee_bounds_witness:
  "payment_fee buyer_lib (Some \<lparr>price_gas = 1000, price_coin = \<lparr>coin_denom = ''ugnot'', coin_amount = 1\<rparr>\<rparr>) =
     Inr \<lparr>coin_denom = ''ugnot'', coin_amount = 20000\<rparr> \<and>
   20000000 * 1 \<le> sint (20000 :: i64) * 1000"
proof -
  have "coin_law buyer_lib" by (simp add: coin_law_def buyer_lib_def test_lib_def)
  moreover have "payment_fee buyer_lib (Some \<lparr>price_gas = 1000, price_coin = \<lparr>coin_denom = ''ugnot'', coin_amount = 1\<rparr>\<rparr>) =
     Inr \<lparr>coin_denom = ''ugnot'', coin_amount = 20000\<rparr>"
    by (simp add: payment_fee_def gasFee_def buyer_lib_def test_lib_def gasWanted_def gasPriceMargin_def
        maxGasFee_def ugnot_Denom_def)
  ultimately show ?thesis
    using payment_fee_bounds [of buyer_lib "Some \<lparr>price_gas = 1000, price_coin = \<lparr>coin_denom = ''ugnot'', coin_amount = 1\<rparr>\<rparr>"]
    by simp
qed

lemma buyer_logged:
  "CreatePaymentPayload (logged_scheme buyer_scheme) (\<lambda>(w, l). None) Requirements '''' ((), []) =
     (Inr \<lparr>sp_version = 2, sp_payload = Some [(''transaction'', AnyString (b64_encode pay_raw))]\<rparr>,
      (), [AskedChainID, AskedGasPrice, AskedAccount (Address Payer), Signed ''doc''])"
proof -
  have "Prepare buyer_lib (Some (logged_buyer_node buyer_chain)) (Some 11) zero_address Requirements '''' ((), []) =
      (Inr buyer_payment, (), [AskedChainID, AskedGasPrice, AskedAccount (Address Payer)])"
    unfolding Prepare_spec
    by (intro exI [of _ buyer_terms] exI conjI buyer_offer)
      (auto simp: withinCap_def buyer_lib_def test_lib_def buyer_chain_def buyer_terms_def payment_fee_def gasFee_def
        unpricedGasFee_def maxGasFee_def ugnot_Denom_def readAccount_def AccountWithKey_def buyer_payment_def
        logged_buyer_node_def logged_call)
  then show ?thesis
    using buyer_creates
    by (simp add: CreatePaymentPayload_def buyer_fields buyer_signer_def buyer_prepares SignBytes_def logged_scheme_def
        logged_signer_def logged_call buyer_lib_def [THEN arg_cong, of get_sign_bytes] test_lib_def
        del: b64_encode.simps)
qed

theorem signed_only_after_checks_witness:
  "\<exists>p w1. Prepare buyer_lib (Some buyer_chain) (Some 11) zero_address Requirements '''' () = (Inr p, w1) \<and>
     SignBytes buyer_lib p = Inr ''doc''"
  using signed_only_after_checks [where ctx_error = "\<lambda>_. None", OF buyer_logged] unfolding buyer_fields
  by (auto simp: buyer_fields(5))

subsection \<open>The mechanism behind HTTP\<close>

text \<open>
  C15. When the engine has the mechanism decide a request, the HTTP answer is what the mechanism
  concluded: 503 exactly when it could not tell, and otherwise a 200 that calls the payment valid
  exactly when the mechanism accepted it.
\<close>

theorem http_answer_is_verdict:
  assumes "decodeRequest body = Inr rq" "rq_payload_version rq = ProtocolVersion (srv_codes s)"
    and "eng_verify (srv_engine s) (rq_payload rq) (rq_requirements rq) w = Verify f payload req w"
  shows "(ans_status (fst (handleVerify s body w)) = 503 \<longleftrightarrow>
      (\<exists>payer cause. fst (check f payload req w) = NoVerdict payer cause)) \<and>
    ((\<exists>r. fst (handleVerify s body w) = \<lparr>ans_status = 200, ans_body = VerifyBody r\<rparr> \<and> vr_valid r) \<longleftrightarrow>
      (\<exists>tx raw payer. fst (check f payload req w) = PaymentAccepted tx raw payer)) \<and>
    ((\<exists>r. fst (handleVerify s body w) = \<lparr>ans_status = 200, ans_body = VerifyBody r\<rparr> \<and> \<not> vr_valid r) \<longleftrightarrow>
      (\<exists>payer reason cause. fst (check f payload req w) = PaymentRefused payer reason cause))"
proof -
  have h: "handleVerify s body w =
      (case Verify f payload req w of
         (Inl err, w') \<Rightarrow> (answerVerifyError s rq err, w')
       | (Inr res, w') \<Rightarrow> (writeJSON (VerifyBody res), w'))"
    by (simp add: handleVerify_def assms)
  obtain c w' where c: "check f payload req w = (c, w')" by fastforce
  show ?thesis
  proof (cases c)
    case (PaymentAccepted tx raw payer)
    with c show ?thesis by (simp add: h Verify_def answer_defs)
  next
    case (PaymentRefused payer reason cause)
    with c show ?thesis by (simp add: h Verify_def answerVerifyError_def answer_defs)
  next
    case (NoVerdict payer cause)
    with c show ?thesis by (simp add: h Verify_def answerVerifyError_def answer_defs)
  qed
qed

definition mechanism_server :: "nat test_node Server" where
  "mechanism_server = \<lparr>srv_engine = \<lparr>eng_verify = (\<lambda>p r. Verify test_fac test_payload Requirements),
       eng_settle = (\<lambda>p r w. (Inl pending_error, w)), eng_supported = []\<rparr>,
     srv_codes = test_codes, srv_network = ''gno:dev'', srv_limiter = newRateLimiter \<lparr>PerSecond = Fin 0, Burst = 0\<rparr>\<rparr>"

theorem http_answer_is_verdict_witness:
  "ans_status (fst (handleVerify mechanism_server (body_of ''2'') (test_world\<lparr>tn_account_err := Some (ErrorString ''refused'')\<rparr>))) = 503"
proof -
  let ?w = "test_world\<lparr>tn_account_err := Some (ErrorString ''refused'')\<rparr>"
  obtain rq where rq: "decodeRequest (body_of ''2'') = Inr rq" "rq_payload_version rq = 2"
    by (simp add: decode_body_of parse_int_examples)
  have s: "ProtocolVersion (srv_codes mechanism_server) = 2"
    "eng_verify (srv_engine mechanism_server) p r w = Verify test_fac test_payload Requirements w" for p r w
    by (simp_all add: mechanism_server_def test_codes_def)
  have "txSigner test_lib test_tx = Inr (Address Payer)"
    by (simp add: txSigner_def test_lib_def test_tx_def test_send_def)
  then have "fst (check test_fac test_payload Requirements ?w) = NoVerdict Payer (ErrorString ''refused'')"
    by (simp add: check_def test_offline checkOnChain_def verifyAccountChecks_def test_fields test_node_defs)
  with http_answer_is_verdict [OF rq(1) _ s(2)] rq(2) s(1) show ?thesis by auto
qed

subsection \<open>A payment, from the signature to the receipt\<close>

text \<open>
  A request as the facilitator's server gets it: the address it comes from and the bytes of its body.
\<close>

definition serve_request ::
    "instant \<Rightarrow> string \<Rightarrow> string \<Rightarrow> string \<Rightarrow> 'w Server \<Rightarrow> string \<Rightarrow> 'w \<Rightarrow> (http_answer \<times> 'w Server \<times> 'w) option" where
  "serve_request now remote meth path s bytes w =
     Handler now (peerAddress remote) meth path s (read_body maxRequestBytes bytes) w"

text \<open>
  What upstream's engine does with the mechanism registered: a payload and requirements of the
  mechanism's scheme and network, which it decodes from the documents it is handed, are verified and
  settled by it. The state is the world and the mechanism's table.
\<close>

definition engine_law ::
    "(json \<Rightarrow> payment_payload option) \<Rightarrow> (json \<Rightarrow> requirements option) \<Rightarrow> ('pk, 'w) facilitator \<Rightarrow> 'w go_context \<Rightarrow>
     ('w \<times> settlements) engine \<Rightarrow> bool" where
  "engine_law payload_of requirements_of f ctx eng \<longleftrightarrow>
     (\<forall>pj rj payload req w st. payload_of pj = Some payload \<and> requirements_of rj = Some req \<and>
        pp_version payload = 2 \<and> req_scheme req = schemeExact \<and> req_network req = network f \<longrightarrow>
        eng_verify eng (Some pj) (Some rj) (w, st) = (let (res, w') = Verify f payload req w in (res, (w', st))) \<and>
        eng_settle eng (Some pj) (Some rj) (w, st) =
          (let (res, st', w') = Settle f ctx payload req st w in (res, (w', st'))))"

text \<open>
  A chain that takes the payment, as a settle meets it: it answers the account the payment was
  prepared over, simulates the transaction, admits the bytes under \<open>hash\<close> while the request lives, and
  reports them executed in time.
\<close>

definition chain_takes ::
    "('pk, 'w) facilitator \<Rightarrow> 'w go_context \<Rightarrow> 'pk payment \<Rightarrow> 'pk std_tx \<Rightarrow> bytes \<Rightarrow> string \<Rightarrow> 'w \<Rightarrow> 'w \<Rightarrow> bool" where
  "chain_takes f ctx p tx raw hash w w' \<longleftrightarrow>
     (\<exists>t0 w0 acc w1 w2 w3 t w4 w5 t1. fac_clock f w = (t0, w0) \<and>
        node_signer_account (fac_node f) tx w0 = (Inr (Some acc), w1) \<and> same_account (fac_lib f) p acc \<and>
        node_simulate (fac_node f) tx w1 = (None, w2) \<and> ctx_err ctx w2 = None \<and>
        node_broadcast (fac_node f) raw w2 = (Inr hash, w3) \<and> fac_clock f w3 = (t, w4) \<and>
        node_await_delivery (fac_node f) (deliveryDeadline ctx t) hash w4 = (None, w5) \<and> fac_clock f w5 = (t1, w'))"

lemma settle_taken:
  assumes "checkOffline f payload req = PaymentAccepted tx raw payer"
    and "\<forall>wf acc wf1 wf2 payer. node_signer_account (fac_node f) tx wf = (Inr (Some acc), wf1) \<and>
      same_account (fac_lib f) p acc \<and> node_simulate (fac_node f) tx wf1 = (None, wf2) \<longrightarrow>
      checkOnChain f tx raw payer wf = (PaymentAccepted tx raw payer, wf2)"
    and "chain_takes f ctx p tx raw hash w w'" "gm_ok st" "gm_get st (payment_key f raw) = None"
  shows "\<exists>st'. Settle f ctx payload req st w =
      (Inr \<lparr>sr_success = True, sr_transaction = hash, sr_network = network f, sr_payer = payer, sr_reason = ''''\<rparr>, st', w') \<and>
    st_state (entry_at st' (payment_key f raw)) = Settled \<and> st_hash (entry_at st' (payment_key f raw)) = hash"
proof -
  from assms(3) obtain t0 w0 acc w1 w2 w3 t w4 w5 t1 where c: "fac_clock f w = (t0, w0)"
    "node_signer_account (fac_node f) tx w0 = (Inr (Some acc), w1)" "same_account (fac_lib f) p acc"
    "node_simulate (fac_node f) tx w1 = (None, w2)" "ctx_err ctx w2 = None"
    "node_broadcast (fac_node f) raw w2 = (Inr hash, w3)" "fac_clock f w3 = (t, w4)"
    "node_await_delivery (fac_node f) (deliveryDeadline ctx t) hash w4 = (None, w5)" "fac_clock f w5 = (t1, w')"
    unfolding chain_takes_def by blast
  let ?r = "\<lparr>sr_success = True, sr_transaction = hash, sr_network = network f, sr_payer = payer, sr_reason = ''''\<rparr>"
  obtain st1 where claimed: "claim (payment_key f raw) t0 st = ((unclaimed_entry, True), st1)"
    using claim_dead [OF assms(4), of "payment_key f raw" t0] assms(5) by simp
  then have ok: "gm_ok st1" using table_ok(2) [OF assms(4)] by (metis snd_conv)
  have "settle f ctx tx raw payer w0 = (Inr ?r, w5)"
    using assms(2) [rule_format, OF conjI [OF c(2) conjI [OF c(3,4)]], of payer] c(5-8)
    by (simp add: settle_def delivery_def)
  then have "Settle f ctx payload req st w = (Inr ?r, recordOutcome (payment_key f raw) (Inr ?r) t1 st1, w')"
    by (intro Settle_accepted [OF assms(1) c(1) claimed _ c(9)]) simp
  then show ?thesis using entry_after_record(3) [OF ok] by simp
qed

lemma serve_settled:
  assumes "decodeRequest (read_body maxRequestBytes bytes) = Inr rq"
    "rq_payload_version rq = ProtocolVersion (srv_codes srv)"
    "fst (allow now (peerAddress remote) (srv_limiter srv))"
    "eng_settle (srv_engine srv) (rq_payload rq) (rq_requirements rq) w = (Inr res, w')"
  shows "\<exists>srv'. serve_request now remote ''POST'' ''/settle'' srv bytes w =
    Some (\<lparr>ans_status = 200, ans_body = SettleBody res\<rparr>, srv', w')"
  using assms by (auto simp: serve_request_def Handler_def throttled_def handleSettle_def writeJSON_def StatusOK_def
      split: prod.splits)

text \<open>
  C1. A payment made for an offer is paid: the buyer's mechanism signs it, its text is posted to the
  /settle of the offer's facilitator, and, unless the limiter refuses the request, or the payment is on
  record already, or the chain does not take it, the answer is a 200 that reports it settled under the
  hash the chain gave, by the account that pays. What was broadcast is the encoding of one bank send of
  the offer's price to its payee, and from then on the payment is on record as settled. The engine
  between the two is assumed to have the registered mechanism settle.
\<close>

theorem payment_settles_over_http:
  assumes made: "CreatePaymentPayload s ctx_error req cap w = (Inr sp, w')"
    and laws: "library_laws (egs_lib s)" and lib: "fac_lib f = egs_lib s"
    and net: "network f = req_network req"
    and payload: "payload = \<lparr>pp_version = sp_version sp, pp_accepted = req, pp_payload = sp_payload sp\<rparr>"
    and engine: "engine_law payload_of requirements_of f ctx (srv_engine srv)"
    and docs: "payload_of (json_canon pj) = Some payload" "requirements_of (json_canon rj) = Some req"
    and written: "json_ok maxNestingDepth (request_json pj rj)" "length (json_marshal (request_json pj rj)) \<le> 1048576"
      "into_struct payload_fields (json_canon pj) 0 = Some (ProtocolVersion (srv_codes srv))"
      "into_struct requirements_fields (json_canon rj) '''' = Some scheme"
  shows "\<exists>pk p w1 tx raw send. Prepare (egs_lib s) (egs_node s) (Some pk) (egs_master s) req cap w = (Inr p, w1) \<and>
    checkOffline f payload req = PaymentAccepted tx raw (address_string (egs_lib s) (from_address send)) \<and>
    tx_msgs tx = [BankSend send] \<and> static_rules (egs_lib s) req raw tx send \<and>
    from_address send = (if address_is_zero (egs_lib s) (egs_master s) then pk_address (egs_lib s) pk else egs_master s) \<and>
    (\<forall>now remote wf st hash wf'. fst (allow now (peerAddress remote) (srv_limiter srv)) \<and>
       gm_ok st \<and> gm_get st (payment_key f raw) = None \<and> chain_takes f ctx p tx raw hash wf wf' \<longrightarrow>
       (\<exists>srv' st'. serve_request now remote ''POST'' ''/settle'' srv (json_marshal (request_json pj rj)) (wf, st) =
          Some (\<lparr>ans_status = 200, ans_body = SettleBody \<lparr>sr_success = True, sr_transaction = hash, sr_network = network f,
            sr_payer = address_string (egs_lib s) (from_address send), sr_reason = ''''\<rparr>\<rparr>, srv', (wf', st')) \<and>
          st_state (entry_at st' (payment_key f raw)) = Settled \<and> st_hash (entry_at st' (payment_key f raw)) = hash))"
proof -
  let ?rq = "\<lparr>rq_version = 2, rq_payload = Some (json_canon pj), rq_requirements = Some (json_canon rj),
     rq_payload_version = ProtocolVersion (srv_codes srv), rq_requirements_scheme = scheme\<rparr>"
  have body: "decodeRequest (read_body maxRequestBytes (json_marshal (request_json pj rj))) = Inr ?rq"
    using request_is_read [OF written] by (simp add: readRequest_def)
  obtain sg pk p w1 tx raw send where c: "Prepare (egs_lib s) (egs_node s) (Some pk) (egs_master s) req cap w = (Inr p, w1)"
    "tx_msgs tx = [BankSend send]" "static_rules (egs_lib s) req raw tx send"
    "from_address send = (if address_is_zero (egs_lib s) (egs_master s) then pk_address (egs_lib s) pk else egs_master s)"
    and off: "checkOffline f payload req = PaymentAccepted tx raw (address_string (egs_lib s) (from_address send))"
    and routed: "sp_version sp = 2" "req_scheme req = schemeExact"
    and on: "\<forall>wf acc wf1 wf2 payer. node_signer_account (fac_node f) tx wf = (Inr (Some acc), wf1) \<and>
      same_account (egs_lib s) p acc \<and> node_simulate (fac_node f) tx wf1 = (None, wf2) \<longrightarrow>
      checkOnChain f tx raw payer wf = (PaymentAccepted tx raw payer, wf2)"
    by (rule buyer_payment_checked [OF made laws lib net payload]) (rule that)
  have answered: "\<exists>srv' st'. serve_request now remote ''POST'' ''/settle'' srv (json_marshal (request_json pj rj)) (wf, st) =
        Some (\<lparr>ans_status = 200, ans_body = SettleBody \<lparr>sr_success = True, sr_transaction = hash, sr_network = network f,
          sr_payer = address_string (egs_lib s) (from_address send), sr_reason = ''''\<rparr>\<rparr>, srv', (wf', st')) \<and>
      st_state (entry_at st' (payment_key f raw)) = Settled \<and> st_hash (entry_at st' (payment_key f raw)) = hash"
    if granted: "fst (allow now (peerAddress remote) (srv_limiter srv))"
      and table: "gm_ok st" "gm_get st (payment_key f raw) = None"
      and taken: "chain_takes f ctx p tx raw hash wf wf'" for now remote wf st hash wf'
  proof -
    obtain st' where settled: "Settle f ctx payload req st wf = (Inr \<lparr>sr_success = True, sr_transaction = hash,
        sr_network = network f, sr_payer = address_string (egs_lib s) (from_address send), sr_reason = ''''\<rparr>, st', wf')"
      "st_state (entry_at st' (payment_key f raw)) = Settled" "st_hash (entry_at st' (payment_key f raw)) = hash"
      using settle_taken [OF off _ taken table] on unfolding lib by blast
    have "eng_settle (srv_engine srv) (Some (json_canon pj)) (Some (json_canon rj)) (wf, st) =
        (let (res, st', w') = Settle f ctx payload req st wf in (res, (w', st')))"
      using engine docs routed net unfolding engine_law_def by (simp add: payload)
    then have "eng_settle (srv_engine srv) (rq_payload ?rq) (rq_requirements ?rq) (wf, st) =
        (Inr \<lparr>sr_success = True, sr_transaction = hash, sr_network = network f,
          sr_payer = address_string (egs_lib s) (from_address send), sr_reason = ''''\<rparr>, wf', st')"
      by (simp add: settled(1))
    from serve_settled [OF body _ granted this] settled(2,3) show ?thesis by auto
  qed
  show ?thesis
    by (rule exI [of _ pk], rule exI [of _ p], rule exI [of _ w1], rule exI [of _ tx], rule exI [of _ raw],
        rule exI [of _ send]) (use c off answered in blast)
qed

text \<open>The test offer's payment, posted to a facilitator over the scripted chain.\<close>

definition settling_engine :: "(nat test_node \<times> settlements) engine" where
  "settling_engine =
     \<lparr>eng_verify = (\<lambda>p r (w, st). let (res, w') = Verify buyer_fac buyer_payload Requirements w in (res, (w', st))),
      eng_settle = (\<lambda>p r (w, st).
        let (res, st', w') = Settle buyer_fac test_ctx buyer_payload Requirements st w in (res, (w', st'))),
      eng_supported = []\<rparr>"

definition settling_server :: "(nat test_node \<times> settlements) Server" where
  "settling_server = \<lparr>srv_engine = settling_engine, srv_codes = test_codes, srv_network = ''gno:dev'',
     srv_limiter = newRateLimiter \<lparr>PerSecond = Fin 10, Burst = 2\<rparr>\<rparr>"

definition paid_world :: "nat test_node" where
  "paid_world = test_world\<lparr>tn_simulates := 1, tn_broadcasts := 1, tn_broadcasted := pay_raw,
     tn_awaits := 1, tn_awaited := ''ab''\<rparr>"

lemma settling_law:
  "engine_law (\<lambda>j. if j = sample_payload then Some buyer_payload else None)
     (\<lambda>j. if j = sample_requirements then Some Requirements else None) buyer_fac test_ctx settling_engine"
  by (simp add: engine_law_def settling_engine_def)

lemma chain_takes_test:
  "chain_takes buyer_fac test_ctx buyer_payment buyer_tx pay_raw ''ab'' test_world paid_world"
  unfolding chain_takes_def
  by (rule exI [of _ 1000], rule exI [of _ test_world],
      rule exI [of _ "\<lparr>acc_pub_key = Some 11, acc_number = 7, acc_sequence = 3\<rparr>"])
    (auto simp: buyer_fac_def test_fac_def test_ctx_def test_node_defs test_world_def paid_world_def same_account_def
      buyer_payment_def payment_for_def Let_def)

theorem payment_settles_over_http_witness:
  "\<exists>srv' st'. serve_request 5 ''[1::2]:8'' ''POST'' ''/settle'' settling_server
     (json_marshal (request_json sample_payload sample_requirements)) (test_world, []) =
     Some (\<lparr>ans_status = 200, ans_body = SettleBody settled_response\<rparr>, srv', (paid_world, st'))"
proof -
  have net: "network buyer_fac = req_network Requirements"
    by (simp add: network_def buyer_fac_def test_fac_def Requirements_def)
  have made: "buyer_payload = \<lparr>pp_version = sp_version \<lparr>sp_version = 2, sp_payload = Some [(''transaction'', AnyString (b64_encode pay_raw))]\<rparr>,
      pp_accepted = Requirements,
      pp_payload = sp_payload \<lparr>sp_version = 2, sp_payload = Some [(''transaction'', AnyString (b64_encode pay_raw))]\<rparr>\<rparr>"
    by (simp add: buyer_payload_def PaymentPayload_def del: b64_encode.simps)
  have srv: "srv_engine settling_server = settling_engine" "ProtocolVersion (srv_codes settling_server) = 2"
    by (simp_all add: settling_server_def test_codes_def)
  note paid = payment_settles_over_http [OF buyer_creates _ _ net made, where srv = settling_server and ctx = test_ctx
      and payload_of = "\<lambda>j. if j = sample_payload then Some buyer_payload else None"
      and requirements_of = "\<lambda>j. if j = sample_requirements then Some Requirements else None"
      and pj = sample_payload and rj = sample_requirements and scheme = "''exact''", unfolded buyer_fields srv sample_documents(1,2)]
  obtain pk p w1 tx raw send where c: "Prepare buyer_lib (Some buyer_chain) (Some pk) zero_address Requirements '''' () = (Inr p, w1)"
    "tx_msgs tx = [BankSend send]" "static_rules buyer_lib Requirements raw tx send"
    "from_address send = (if address_is_zero buyer_lib zero_address then pk_address buyer_lib pk else zero_address)"
    and off: "checkOffline buyer_fac buyer_payload Requirements =
      PaymentAccepted tx raw (address_string buyer_lib (from_address send))"
    and answer: "\<forall>now remote wf st hash wf'. fst (allow now (peerAddress remote) (srv_limiter settling_server)) \<and>
       gm_ok st \<and> gm_get st (payment_key buyer_fac raw) = None \<and> chain_takes buyer_fac test_ctx p tx raw hash wf wf' \<longrightarrow>
       (\<exists>srv' st'. serve_request now remote ''POST'' ''/settle'' settling_server
           (json_marshal (request_json sample_payload sample_requirements)) (wf, st) =
          Some (\<lparr>ans_status = 200, ans_body = SettleBody \<lparr>sr_success = True, sr_transaction = hash, sr_network = network buyer_fac,
            sr_payer = address_string buyer_lib (from_address send), sr_reason = ''''\<rparr>\<rparr>, srv', (wf', st')) \<and>
          st_state (entry_at st' (payment_key buyer_fac raw)) = Settled \<and> st_hash (entry_at st' (payment_key buyer_fac raw)) = hash)"
    using paid [OF buyer_laws refl settling_law if_P [OF refl] if_P [OF refl] sample_documents(3-6)]
    by (elim exE conjE) (rule that)
  have "transactionOf (pp_payload buyer_payload) = Inr (b64_encode pay_raw)"
    by (simp add: buyer_payload_def PaymentPayload_def transactionOf_def any_get_def del: b64_encode.simps)
  with off have "raw = pay_raw" by (auto simp: checkOffline_accepts_iff b64_roundtrip)
  moreover have "unmarshal_tx buyer_lib raw = Some tx" using c(3) by (auto simp: static_rules_def)
  ultimately have "tx = buyer_tx" using pay_raw by (simp add: buyer_lib_def)
  with c(2) have send: "send = test_send" by (simp add: buyer_tx_def)
  have "Address Payer \<noteq> zero_address"
    by (auto simp: Payer_def zero_address_def dest: arg_cong [of _ _ length])
  with c(4) have "pk = 11"
    by (auto simp: send buyer_lib_simps buyer_lib_def test_lib_def test_send_def split: if_splits)
  with c(1) have "p = buyer_payment" by (simp add: buyer_prepares)
  have "fst (allow 5 k (srv_limiter settling_server))" for k
    by (simp add: settling_server_def limiter_defs newRateLimiter_def gm_len_def gm_keep_def defaultMaxBuckets_def)
  moreover have "gm_ok ([] :: settlements) \<and> gm_get ([] :: settlements) (payment_key buyer_fac raw) = None" by (simp add: gm_ok_def gm_get_def)
  moreover have "chain_takes buyer_fac test_ctx p tx raw ''ab'' test_world paid_world"
    using chain_takes_test \<open>raw = _\<close> \<open>tx = _\<close> \<open>p = _\<close> by simp
  ultimately obtain srv' st' where "serve_request 5 ''[1::2]:8'' ''POST'' ''/settle'' settling_server
      (json_marshal (request_json sample_payload sample_requirements)) (test_world, []) =
      Some (\<lparr>ans_status = 200, ans_body = SettleBody \<lparr>sr_success = True, sr_transaction = ''ab'', sr_network = network buyer_fac,
        sr_payer = address_string buyer_lib (from_address send), sr_reason = ''''\<rparr>\<rparr>, srv', (paid_world, st'))"
    using answer by meson
  then show ?thesis by (simp add: settled_response_def send test_send_def buyer_lib_simps net Requirements_def ChainID_def)
qed

subsection \<open>The limiter and the addresses it is keyed by\<close>

text \<open>
  The connections that come from one IPv6 /64, by the address the connection reports: those whose
  address names no zone, and those from one address that names one, as a link-local peer's does.
\<close>

definition calls_from :: "ip_groups \<Rightarrow> string \<Rightarrow> bool" where
  "calls_from prefix64 remote \<longleftrightarrow>
     (\<exists>h p g. split_host_port remote = Some (h, p) \<and> CHR ''%'' \<notin> set h \<and> parse_ip h = Some g \<and> \<not> is_ip4 g \<and>
        take 4 g = prefix64)"

definition zoned_calls_from :: "string \<Rightarrow> string \<Rightarrow> bool" where
  "zoned_calls_from host remote \<longleftrightarrow> CHR ''%'' \<in> set host \<and> (\<exists>p. split_host_port remote = Some (host, p))"

lemma calls_from_same_key:
  "calls_from prefix64 r \<Longrightarrow> calls_from prefix64 r' \<Longrightarrow> peerAddress r = peerAddress r'"
  unfolding calls_from_def using same_key_iff_same_64 by metis

lemma zoned_calls_from_key: "zoned_calls_from host r \<Longrightarrow> peerAddress r = host"
  unfolding zoned_calls_from_def using zoned_keys_in_full by blast

lemma granted_keyed:
  assumes "\<And>r. mine r \<Longrightarrow> key_of r = key"
  shows "granted (\<lambda>(now, r). step now (key_of r)) (\<lambda>(now, r). mine r) reqs l \<le>
    granted (\<lambda>(now, k). step now k) (\<lambda>(now, k). k = key) (map (\<lambda>(now, r). (now, key_of r)) reqs) l"
  using assms by (induction reqs arbitrary: l) (auto simp: le_SucI)

lemma one_key_budget:
  assumes "plain_config cfg" "sorted_wrt (\<le>) (t # map fst reqs @ [u])" and key: "\<And>r. mine r \<Longrightarrow> peerAddress r = key"
  shows "of_nat (granted (\<lambda>(now, r). allow now (peerAddress r)) (\<lambda>(now, r). mine r) reqs
      (snd (serve_all earlier (newRateLimiter cfg))))
    \<le> of_int (effective_burst cfg) + of_int (u - t) / 1000000000 *
      (effective_rate cfg * (1 + 1 / 2 ^ 48) + of_int (effective_burst cfg) / (2 ^ 21 :: rat))"
proof -
  have "map fst (map (\<lambda>(now, r). (now, peerAddress r)) reqs) = map fst reqs"
    by (simp add: comp_def split_beta)
  then have "sorted_wrt (\<le>) (t # map fst (map (\<lambda>(now, r). (now, peerAddress r)) reqs) @ [u])"
    using assms(2) by (simp only:)
  then have "of_nat (granted (\<lambda>(now, k). allow now k) (\<lambda>(now, k). k = key)
      (map (\<lambda>(now, r). (now, peerAddress r)) reqs) (snd (serve_all earlier (newRateLimiter cfg))))
    \<le> of_int (effective_burst cfg) + of_int (u - t) / 1000000000 *
      (effective_rate cfg * (1 + 1 / 2 ^ 48) + of_int (effective_burst cfg) / (2 ^ 21 :: rat))"
    by (rule peer_granted_over [OF assms(1)])
  moreover have "(of_nat (granted (\<lambda>(now, r). allow now (peerAddress r)) (\<lambda>(now, r). mine r) reqs
      (snd (serve_all earlier (newRateLimiter cfg)))) :: rat) \<le>
    of_nat (granted (\<lambda>(now, k). allow now k) (\<lambda>(now, k). k = key)
      (map (\<lambda>(now, r). (now, peerAddress r)) reqs) (snd (serve_all earlier (newRateLimiter cfg))))"
    unfolding of_nat_le_iff by (rule granted_keyed) (rule key)
  ultimately show ?thesis by (rule order_trans [rotated])
qed

text \<open>
  C24. Rotating addresses without a zone buys a flooder nothing: all connections from one IPv6 /64
  together, from whatever such addresses and ports of it, are granted over any stretch of time at most
  the burst and the configured rate, as one peer is, but for rounding. An address that names a zone is
  not counted with its /64: it is keyed in full, and has the budget of one peer to itself.
\<close>

theorem block_shares_budget:
  assumes "plain_config cfg" "sorted_wrt (\<le>) (t # map fst reqs @ [u])"
  shows "(\<forall>mine \<in> {calls_from prefix64, zoned_calls_from host}.
      of_nat (granted (\<lambda>(now, r). allow now (peerAddress r)) (\<lambda>(now, r). mine r) reqs
        (snd (serve_all earlier (newRateLimiter cfg))))
      \<le> of_int (effective_burst cfg) + of_int (u - t) / 1000000000 *
        (effective_rate cfg * (1 + 1 / 2 ^ 48) + of_int (effective_burst cfg) / (2 ^ 21 :: rat))) \<and>
    (\<forall>r r'. calls_from prefix64 r \<and> calls_from prefix64 r' \<longrightarrow> peerAddress r = peerAddress r') \<and>
    (\<forall>r. zoned_calls_from host r \<longrightarrow> peerAddress r = host)"
proof -
  obtain key where key: "\<And>r. calls_from prefix64 r \<Longrightarrow> peerAddress r = key"
    using calls_from_same_key by metis
  show ?thesis
    unfolding ball_simps
    by (intro conjI one_key_budget [OF assms key] one_key_budget [OF assms zoned_calls_from_key] TrueI)
      (use calls_from_same_key zoned_calls_from_key in blast)+
qed

theorem block_shares_budget_witness:
  "of_nat (granted (\<lambda>(now, r). allow now (peerAddress r)) (\<lambda>(now, r). calls_from [1, 0, 0, 0] r)
     [(5, ''[1::2]:8''), (5, ''[1::3:0]:9'')] (snd (serve_all [] (newRateLimiter \<lparr>PerSecond = Fin 10, Burst = 2\<rparr>)))) \<le> (2 :: rat) \<and>
   peerAddress ''[fe80::1%eth0]:80'' = ''fe80::1%eth0''"
proof -
  let ?cfg = "\<lparr>PerSecond = Fin 10, Burst = 2\<rparr>" and ?reqs = "[(5, ''[1::2]:8''), (5, ''[1::3:0]:9'')]"
  have cfg: "plain_config ?cfg" "effective_burst ?cfg = 2"
    by (simp_all add: plain_config_def effective_burst_def)
  have zoned: "zoned_calls_from ''fe80::1%eth0'' ''[fe80::1%eth0]:80''"
    by (simp add: zoned_calls_from_def split_host_port_def last_part_def)
  have sorted: "sorted_wrt (\<le>) (5 # map fst ?reqs @ [5 :: int])" by simp
  note budget = block_shares_budget [OF cfg(1) sorted, of "[1, 0, 0, 0]" "''fe80::1%eth0''" "[]"]
  have "of_nat (granted (\<lambda>(now, r). allow now (peerAddress r)) (\<lambda>(now, r). calls_from [1, 0, 0, 0] r) ?reqs
      (snd (serve_all [] (newRateLimiter ?cfg))))
    \<le> of_int (effective_burst ?cfg) + of_int (5 - 5) / 1000000000 *
      (effective_rate ?cfg * (1 + 1 / 2 ^ 48) + of_int (effective_burst ?cfg) / (2 ^ 21 :: rat))"
    using conjunct1 [OF budget] by blast
  then have "of_nat (granted (\<lambda>(now, r). allow now (peerAddress r)) (\<lambda>(now, r). calls_from [1, 0, 0, 0] r) ?reqs
      (snd (serve_all [] (newRateLimiter ?cfg)))) \<le> (2 :: rat)"
    by (simp only: cfg(2) diff_self of_int_0 div_0 mult_zero_left add_0_right of_int_numeral)
  moreover have "peerAddress ''[fe80::1%eth0]:80'' = ''fe80::1%eth0''" using budget zoned by blast
  ultimately show ?thesis by blast
qed

end
